(* ===== verification/Prelude.thy ===== *)
theory Prelude
  imports Main "HOL-Library.Word"
begin

text \<open>
  Shared vocabulary of the development.

  \<^item> The machine integers of the Rust sources: \<open>u8\<close>, \<open>u16\<close>, \<open>u32\<close> and \<open>u64\<close> are words; an
    \<open>i64\<close> is an integer kept in range by the conversions \<open>u64_as_i64\<close> and \<open>i64_as_u64\<close>; the host
    is a 64-bit machine, so \<open>usize\<close> is a 64-bit word and a slice length is a natural number.
  \<^item> Outcomes: \<open>Ok\<close> and \<open>Err\<close> are Rust's \<open>Result\<close>; \<open>Panic\<close> is a panic, which no caller can
    turn back into a value; \<open>Aborted\<close> marks one that was raised in a function called from C,
    which Rust turns into the end of the process. A function with effects returns its outcome and its new state.
  \<^item> Arithmetic that overflows panics when overflow checks are compiled in (the \<open>dev\<close> and
    \<open>test\<close> profiles) and wraps otherwise (the \<open>release\<close> profile that is published). The flag
    \<open>oc\<close> of every definition that adds or subtracts addresses says which build is meant.
  \<^item> \<open>Vec\<close> allocation panics with a capacity overflow above \<open>isize::MAX\<close> bytes. Running out of
    host memory below that bound aborts the process and is outside the model.
\<close>

unbundle bit_operations_syntax

section \<open>Types\<close>

type_synonym u8 = "8 word"
type_synonym u16 = "16 word"
type_synonym u32 = "32 word"
type_synonym u64 = "64 word"
type_synonym usize = "64 word"
type_synonym i64 = int
type_synonym bytes = "8 word list"

datatype panic =
    AddOverflow
  | SubOverflow
  | NegOverflow
  | CapacityOverflow
  | SliceOutOfRange
  | ExpectFailed
  | Aborted panic

datatype ('e, 'a) result = is_Ok: Ok (the_Ok: 'a) | is_Err: Err (the_Err: 'e) | is_Panic: Panic panic

named_theorems res_simps \<open>unfolding of outcome combinators and checked arithmetic\<close>
named_theorems inv_intros \<open>preservation of the components' invariants\<close>

section \<open>Outcomes\<close>

fun r_bind :: "('e, 'a) result \<Rightarrow> ('a \<Rightarrow> ('e, 'b) result) \<Rightarrow> ('e, 'b) result" where
  "r_bind (Ok x) f = f x"
| "r_bind (Err e) f = Err e"
| "r_bind (Panic p) f = Panic p"

fun map_err :: "('e \<Rightarrow> 'f) \<Rightarrow> ('e, 'a) result \<Rightarrow> ('f, 'a) result" where
  "map_err f (Ok x) = Ok x"
| "map_err f (Err e) = Err (f e)"
| "map_err f (Panic p) = Panic p"

fun map_ok :: "('a \<Rightarrow> 'b) \<Rightarrow> ('e, 'a) result \<Rightarrow> ('e, 'b) result" where
  "map_ok f (Ok x) = Ok (f x)"
| "map_ok f (Err e) = Err e"
| "map_ok f (Panic p) = Panic p"

fun ok_or_else :: "'e \<Rightarrow> 'a option \<Rightarrow> ('e, 'a) result" where
  "ok_or_else e None = Err e"
| "ok_or_else e (Some x) = Ok x"

fun of_sum :: "('e \<Rightarrow> 'f) \<Rightarrow> 'e + 'a \<Rightarrow> ('f, 'a) result" where
  "of_sum f (Inl e) = Err (f e)"
| "of_sum f (Inr x) = Ok x"

lemma r_bind_cong [fundef_cong]:
  "m = m' \<Longrightarrow> (\<And>x. m' = Ok x \<Longrightarrow> f x = g x) \<Longrightarrow> r_bind m f = r_bind m' g"
  by (cases m') auto

lemma r_bind_eq_Ok [simp]: "r_bind m f = Ok y \<longleftrightarrow> (\<exists>x. m = Ok x \<and> f x = Ok y)"
  by (cases m) auto

lemma r_bind_eq_Err: "r_bind m f = Err e \<longleftrightarrow> m = Err e \<or> (\<exists>x. m = Ok x \<and> f x = Err e)"
  by (cases m) auto

lemma r_bind_eq_Panic: "r_bind m f = Panic p \<longleftrightarrow> m = Panic p \<or> (\<exists>x. m = Ok x \<and> f x = Panic p)"
  by (cases m) auto

lemma r_bind_map_ok: "r_bind (map_ok f m) g = r_bind m (\<lambda>x. g (f x))"
  by (cases m) simp_all

lemma map_ok_bind: "map_ok f (r_bind m g) = r_bind m (\<lambda>x. map_ok f (g x))"
  by (cases m) simp_all

lemma map_err_eq_Ok [simp]: "map_err f m = Ok x \<longleftrightarrow> m = Ok x"
  by (cases m) auto

lemma map_err_eq_Panic [simp]: "map_err f m = Panic p \<longleftrightarrow> m = Panic p"
  by (cases m) auto

lemma map_err_eq_Err: "map_err f m = Err e \<longleftrightarrow> (\<exists>e'. m = Err e' \<and> e = f e')"
  by (cases m) auto

lemma ok_or_else_eq_Ok [simp]: "ok_or_else e m = Ok x \<longleftrightarrow> m = Some x"
  by (cases m) auto

lemma ok_or_else_not_Panic [simp]: "ok_or_else e m \<noteq> Panic p"
  by (cases m) auto

lemma of_sum_eq_Ok [simp]: "of_sum f s = Ok x \<longleftrightarrow> s = Inr x"
  by (cases s) auto

lemma of_sum_not_Panic [simp]: "of_sum f s \<noteq> Panic p"
  by (cases s) auto

text \<open>\<open>Iterator::any\<close> and \<open>Iterator::find\<close> with a predicate that may panic: elements are
  visited in order and the first hit ends the search.\<close>

fun any_res :: "('a \<Rightarrow> ('e, bool) result) \<Rightarrow> 'a list \<Rightarrow> ('e, bool) result" where
  "any_res p [] = Ok False"
| "any_res p (x # xs) = r_bind (p x) (\<lambda>b. if b then Ok True else any_res p xs)"

fun find_res :: "('a \<Rightarrow> ('e, bool) result) \<Rightarrow> 'a list \<Rightarrow> ('e, 'a option) result" where
  "find_res p [] = Ok None"
| "find_res p (x # xs) = r_bind (p x) (\<lambda>b. if b then Ok (Some x) else find_res p xs)"

lemma any_res_pure:
  "(\<And>x. x \<in> set xs \<Longrightarrow> p x = Ok (q x)) \<Longrightarrow> any_res p xs = Ok (\<exists>x \<in> set xs. q x)"
  by (induction xs) auto

lemma find_res_pure:
  "(\<And>x. x \<in> set xs \<Longrightarrow> p x = Ok (q x)) \<Longrightarrow> find_res p xs = Ok (find q xs)"
  by (induction xs) auto

section \<open>Arithmetic\<close>

definition add64 :: "bool \<Rightarrow> u64 \<Rightarrow> u64 \<Rightarrow> ('e, u64) result" where
  "add64 oc a b = (if oc \<and> 2 ^ 64 \<le> unat a + unat b then Panic AddOverflow else Ok (a + b))"

definition sub64 :: "bool \<Rightarrow> u64 \<Rightarrow> u64 \<Rightarrow> ('e, u64) result" where
  "sub64 oc a b = (if oc \<and> a < b then Panic SubOverflow else Ok (a - b))"

definition checked_add64 :: "u64 \<Rightarrow> u64 \<Rightarrow> u64 option" where
  "checked_add64 a b = (if 2 ^ 64 \<le> unat a + unat b then None else Some (a + b))"

definition u64_as_i64 :: "u64 \<Rightarrow> i64" where
  "u64_as_i64 w = sint w"

definition i64_as_u64 :: "i64 \<Rightarrow> u64" where
  "i64_as_u64 i = word_of_int i"

definition isize_max :: nat where
  "isize_max = 2 ^ 63 - 1"

text \<open>\<open>-x\<close> on \<open>i64\<close>: only \<open>i64::MIN\<close> overflows.\<close>

definition neg64 :: "bool \<Rightarrow> i64 \<Rightarrow> ('e, i64) result" where
  "neg64 oc x = (if x = - (2 ^ 63) then (if oc then Panic NegOverflow else Ok x) else Ok (- x))"

lemma unat_less64: "unat (a :: u64) < 2 ^ 64"
  by (rule order_less_le_trans [OF unsigned_less]) simp

lemma unat_add64: "unat a + unat b < 2 ^ 64 \<Longrightarrow> unat (a + b :: u64) = unat a + unat b"
  by (rule unat_add_lem [THEN iffD1]) simp

lemma add64_exact [res_simps]: "unat a + unat b < 2 ^ 64 \<Longrightarrow> add64 oc a b = Ok (a + b)"
  by (simp add: add64_def)

lemma add64_eq_Ok: "add64 oc a b = Ok c \<longleftrightarrow> c = a + b \<and> (oc \<longrightarrow> unat a + unat b < 2 ^ 64)"
  by (auto simp: add64_def)

lemma add64_not_Err [simp]: "add64 oc a b \<noteq> Err e"
  by (simp add: add64_def)

lemma add64_release [simp]: "add64 False a b = Ok (a + b)"
  by (simp add: add64_def)

lemma sub64_exact [res_simps]: "b \<le> a \<Longrightarrow> sub64 oc a b = Ok (a - b)"
  by (auto simp: sub64_def)

lemma sub64_not_Err [simp]: "sub64 oc a b \<noteq> Err e"
  by (simp add: sub64_def)

lemma unat_plus_minus64:
  assumes "0 < unat (a :: u64)"
  shows "unat a + unat (- a) = 2 ^ 64"
proof -
  have "(unat a + unat (- a)) mod 2 ^ 64 = 0"
    using unat_word_ariths(1) [of a "- a"] by simp
  then obtain q where q: "unat a + unat (- a) = 2 ^ 64 * q" by (auto simp: mod_eq_0_iff_dvd dvd_def)
  moreover have "unat a + unat (- a) < 2 ^ 64 * 2" using unat_less64 [of a] unat_less64 [of "- a"] by simp
  ultimately have "q = 1" using assms by (cases "q = 0") auto
  then show ?thesis using q by simp
qed

lemma unat_sub64: "b \<le> a \<Longrightarrow> unat (a - b :: u64) = unat a - unat b"
  by (simp add: unat_sub word_le_nat_alt)

lemma checked_add64_Some [simp]:
  "checked_add64 a b = Some c \<longleftrightarrow> unat a + unat b < 2 ^ 64 \<and> c = a + b"
  by (auto simp: checked_add64_def)

lemma checked_add64_None [simp]: "checked_add64 a b = None \<longleftrightarrow> 2 ^ 64 \<le> unat a + unat b"
  by (simp add: checked_add64_def)

lemma i64_round [simp]: "i64_as_u64 (u64_as_i64 w) = w"
  by (simp add: i64_as_u64_def u64_as_i64_def)

lemma u64_round: "- (2 ^ 63) \<le> i \<Longrightarrow> i < 2 ^ 63 \<Longrightarrow> u64_as_i64 (i64_as_u64 i) = i"
  by (simp add: i64_as_u64_def u64_as_i64_def sint_sbintrunc' signed_take_bit_int_eq_self)

lemma u64_as_i64_range: "- (2 ^ 63) \<le> u64_as_i64 w \<and> u64_as_i64 w < 2 ^ 63"
  using sint_range_size [of w] by (simp add: u64_as_i64_def size_word_def)

lemma u64_as_i64_inj [simp]: "u64_as_i64 a = u64_as_i64 b \<longleftrightarrow> a = b"
  by (metis i64_round)

section \<open>Vectors and slices\<close>

text \<open>\<open>vec![0u8; n]\<close>, \<open>Vec::with_capacity(n)\<close> and the range index \<open>&xs[a..b]\<close>.\<close>

definition vec_zeroed :: "nat \<Rightarrow> ('e, bytes) result" where
  "vec_zeroed n = (if n \<le> isize_max then Ok (replicate n 0) else Panic CapacityOverflow)"

definition vec_with_capacity :: "nat \<Rightarrow> ('e, bytes) result" where
  "vec_with_capacity n = (if n \<le> isize_max then Ok [] else Panic CapacityOverflow)"

definition sub_slice :: "nat \<Rightarrow> nat \<Rightarrow> 'a list \<Rightarrow> 'a list" where
  "sub_slice a b xs = take (b - a) (drop a xs)"

definition slice_index :: "nat \<Rightarrow> nat \<Rightarrow> 'a list \<Rightarrow> ('e, 'a list) result" where
  "slice_index a b xs = (if a \<le> b \<and> b \<le> length xs then Ok (sub_slice a b xs) else Panic SliceOutOfRange)"

text \<open>\<open>xs[a..a + ys.len()].copy_from_slice(ys)\<close>.\<close>

definition copy_at :: "nat \<Rightarrow> 'a list \<Rightarrow> 'a list \<Rightarrow> ('e, 'a list) result" where
  "copy_at a ys xs =
     (if a + length ys \<le> length xs then Ok (take a xs @ ys @ drop (a + length ys) xs)
      else Panic SliceOutOfRange)"

lemma replicate_numeral: "replicate (numeral k) x = x # replicate (pred_numeral k) x"
  by (simp add: numeral_eq_Suc)

lemma length_sub_slice [simp]: "b \<le> length xs \<Longrightarrow> length (sub_slice a b xs) = b - a"
  by (simp add: sub_slice_def)

lemma nth_sub_slice [simp]: "b \<le> length xs \<Longrightarrow> i < b - a \<Longrightarrow> sub_slice a b xs ! i = xs ! (a + i)"
  by (simp add: sub_slice_def)

lemma vec_zeroed_eq_Ok [simp]: "vec_zeroed n = Ok v \<longleftrightarrow> n \<le> isize_max \<and> v = replicate n 0"
  by (auto simp: vec_zeroed_def)

lemma vec_zeroed_not_Err [simp]: "vec_zeroed n \<noteq> Err e"
  by (simp add: vec_zeroed_def)

lemma slice_index_eq_Ok [simp]:
  "slice_index a b xs = Ok v \<longleftrightarrow> a \<le> b \<and> b \<le> length xs \<and> v = sub_slice a b xs"
  by (auto simp: slice_index_def)

lemma slice_index_not_Err [simp]: "slice_index a b xs \<noteq> Err e"
  by (simp add: slice_index_def)

lemma copy_at_eq_Ok [simp]:
  "copy_at a ys xs = Ok v \<longleftrightarrow>
     a + length ys \<le> length xs \<and> v = take a xs @ ys @ drop (a + length ys) xs"
  by (auto simp: copy_at_def)

lemma copy_at_not_Err [simp]: "copy_at a ys xs \<noteq> Err e"
  by (simp add: copy_at_def)

lemma length_copy_at: "copy_at a ys xs = Ok v \<Longrightarrow> length v = length xs"
  by auto

lemma nth_copy_at:
  "copy_at a ys xs = Ok v \<Longrightarrow> i < length xs \<Longrightarrow>
     v ! i = (if a \<le> i \<and> i < a + length ys then ys ! (i - a) else xs ! i)"
  by (auto simp: nth_append min_def)

lemma isize_max_less [simp]: "n \<le> isize_max \<Longrightarrow> n < 2 ^ 64"
  by (simp add: isize_max_def)

end
