(* ===== verification/Fmt.thy ===== *)
theory Fmt
  imports Prelude
begin

text \<open>
  The part of Rust's formatting that error messages and displays use: decimal numbers
  (\<open>{}\<close>), lower-case hexadecimal (\<open>{:x}\<close>) and hexadecimal with its prefix (\<open>{:#x}\<close>). The
  lemmas give the value back from the digits, so two numbers print the same only when
  they are equal.
\<close>

fun radix_digits :: "nat \<Rightarrow> nat \<Rightarrow> nat list" where
  "radix_digits b n = (if b < 2 \<or> n < b then [n] else radix_digits b (n div b) @ [n mod b])"

declare radix_digits.simps [simp del]

definition digit_char :: "nat \<Rightarrow> char" where
  "digit_char d = ''0123456789abcdef'' ! d"

definition fmt_dec :: "nat \<Rightarrow> string" where
  "fmt_dec n = map digit_char (radix_digits 10 n)"

definition fmt_hex :: "nat \<Rightarrow> string" where
  "fmt_hex n = map digit_char (radix_digits 16 n)"

definition fmt_hex_alt :: "nat \<Rightarrow> string" where
  "fmt_hex_alt n = ''0x'' @ fmt_hex n"

definition radix_value :: "nat \<Rightarrow> nat list \<Rightarrow> nat" where
  "radix_value b ds = foldl (\<lambda>acc d. b * acc + d) 0 ds"

lemma radix_value_snoc: "radix_value b (ds @ [d]) = b * radix_value b ds + d"
  by (simp add: radix_value_def)

lemma radix_value_digits: "radix_value b (radix_digits b n) = n"
proof (induction b n rule: radix_digits.induct)
  case (1 b n)
  then show ?case
    by (auto simp: radix_digits.simps [of b n] radix_value_snoc) (simp_all add: radix_value_def)
qed

lemma radix_digits_less: "2 \<le> b \<Longrightarrow> d \<in> set (radix_digits b n) \<Longrightarrow> d < b"
proof (induction b n rule: radix_digits.induct)
  case (1 b n)
  then show ?case
    by (auto simp: radix_digits.simps [of b n] split: if_splits)
qed

lemma radix_digits_inj: "radix_digits b m = radix_digits b n \<Longrightarrow> m = n"
  by (metis radix_value_digits)

lemma digit_char_inj: "inj_on digit_char {..<16}"
proof (rule inj_onI)
  fix x y :: nat
  assume "x \<in> {..<16}" and "y \<in> {..<16}" and eq: "digit_char x = digit_char y"
  then have x: "x \<in> set [0..<16]" and y: "y \<in> set [0..<16]" by simp_all
  have "\<forall>x \<in> set [0..<16]. \<forall>y \<in> set [0..<16]. digit_char x = digit_char y \<longrightarrow> x = y"
    by (simp add: digit_char_def upt_rec numeral_nat)
  with x y eq show "x = y" by blast
qed

lemma fmt_hex_inj: "fmt_hex m = fmt_hex n \<Longrightarrow> m = n"
proof -
  assume "fmt_hex m = fmt_hex n"
  moreover have "inj_on digit_char (set (radix_digits 16 m) \<union> set (radix_digits 16 n))"
    by (rule inj_on_subset [OF digit_char_inj]) (auto dest: radix_digits_less [rotated])
  ultimately have "radix_digits 16 m = radix_digits 16 n"
    unfolding fmt_hex_def by (simp add: inj_on_map_eq_map)
  then show "m = n" by (rule radix_digits_inj)
qed

lemma fmt_dec_inj: "fmt_dec m = fmt_dec n \<Longrightarrow> m = n"
proof -
  assume "fmt_dec m = fmt_dec n"
  moreover have "inj_on digit_char (set (radix_digits 10 m) \<union> set (radix_digits 10 n))"
    by (rule inj_on_subset [OF digit_char_inj]) (auto dest: radix_digits_less [rotated])
  ultimately have "radix_digits 10 m = radix_digits 10 n"
    unfolding fmt_dec_def by (simp add: inj_on_map_eq_map)
  then show "m = n" by (rule radix_digits_inj)
qed

lemma fmt_hex_word_inj [simp]: "fmt_hex (unat a) = fmt_hex (unat b) \<longleftrightarrow> a = b"
  by (metis fmt_hex_inj word_unat_eq_iff)

lemma fmt_dec_word_inj [simp]: "fmt_dec (unat a) = fmt_dec (unat b) \<longleftrightarrow> a = b"
  by (metis fmt_dec_inj word_unat_eq_iff)

lemma fmt_hex_400000: "fmt_hex 4194304 = ''400000''"
  by (simp add: fmt_hex_def radix_digits.simps digit_char_def)

end
