(* ===== verification/Memory_Map.thy ===== *)
theory Memory_Map
  imports Fmt
begin

text \<open>
  \<open>memory/mmap.rs\<close>: claimed regions of the guest address space. \<open>region\<close> and
  \<open>memory_map\<close> are the structs, \<open>region_end\<close>, \<open>region_contains\<close>, \<open>region_overlaps\<close> and
  \<open>mm_insert\<close> the methods; \<open>sort_by_key\<close> is the library's stable \<open>sort_key\<close>.

  The locale \<open>address_space\<close> states what the ELF loader and the virtual CPU rely on: an
  insertion succeeds exactly when the range is free, and then the claimed addresses grow by
  that range. \<open>mm_inv\<close> (sorted, non-empty, pairwise disjoint, none reaching the end of the
  address space) makes the map an instance of it. The invariant needs ranges that end below
  \<open>2 ^ 64\<close>; what happens without that is stated at the end.
\<close>

section \<open>The code\<close>

record mmap_error =
  me_base :: u64

definition show_mmap_error :: "mmap_error \<Rightarrow> string" where
  "show_mmap_error e =
     ''E101: cannot map region at 0x'' @ fmt_hex (unat (me_base e)) @ '': overlap''"

record region =
  r_base :: u64
  r_size :: u64
  r_prot :: u32

definition region_end :: "bool \<Rightarrow> region \<Rightarrow> ('e, u64) result" where
  "region_end oc r = add64 oc (r_base r) (r_size r)"

definition region_contains :: "bool \<Rightarrow> region \<Rightarrow> u64 \<Rightarrow> ('e, bool) result" where
  "region_contains oc r addr =
     (if r_base r \<le> addr then r_bind (region_end oc r) (\<lambda>e. Ok (addr < e)) else Ok False)"

definition region_overlaps :: "bool \<Rightarrow> region \<Rightarrow> u64 \<Rightarrow> u64 \<Rightarrow> ('e, bool) result" where
  "region_overlaps oc r base sz =
     r_bind (add64 oc base sz) (\<lambda>e.
       if r_base r < e then r_bind (region_end oc r) (\<lambda>e'. Ok (base < e')) else Ok False)"

record memory_map =
  mm_regions :: "region list"

definition mm_new :: memory_map where
  "mm_new = \<lparr>mm_regions = []\<rparr>"

definition regions :: "memory_map \<Rightarrow> region list" where
  "regions m = mm_regions m"

definition mm_insert ::
  "bool \<Rightarrow> memory_map \<Rightarrow> u64 \<Rightarrow> u64 \<Rightarrow> u32 \<Rightarrow> (mmap_error, unit) result \<times> memory_map" where
  "mm_insert oc m base sz prot =
     (if sz = 0 then (Ok (), m)
      else case any_res (\<lambda>r. region_overlaps oc r base sz) (mm_regions m) of
             Ok True \<Rightarrow> (Err \<lparr>me_base = base\<rparr>, m)
           | Ok False \<Rightarrow>
               (Ok (), m\<lparr>mm_regions :=
                  sort_key r_base (mm_regions m @ [\<lparr>r_base = base, r_size = sz, r_prot = prot\<rparr>])\<rparr>)
           | Err e \<Rightarrow> (Err e, m)
           | Panic p \<Rightarrow> (Panic p, m))"

section \<open>Address ranges\<close>

definition addr_range :: "u64 \<Rightarrow> u64 \<Rightarrow> nat set" where
  "addr_range base sz = {unat base ..< unat base + unat sz}"

definition no_wrap :: "u64 \<Rightarrow> u64 \<Rightarrow> bool" where
  "no_wrap base sz \<longleftrightarrow> unat base + unat sz < 2 ^ 64"

abbreviation region_range :: "region \<Rightarrow> nat set" where
  "region_range r \<equiv> addr_range (r_base r) (r_size r)"

definition mm_claimed :: "memory_map \<Rightarrow> nat set" where
  "mm_claimed m = (\<Union>r \<in> set (mm_regions m). region_range r)"

definition region_ok :: "region \<Rightarrow> bool" where
  "region_ok r \<longleftrightarrow> r_size r \<noteq> 0 \<and> no_wrap (r_base r) (r_size r)"

definition region_before :: "region \<Rightarrow> region \<Rightarrow> bool" where
  "region_before r r' \<longleftrightarrow> unat (r_base r) + unat (r_size r) \<le> unat (r_base r')"

definition mm_inv :: "memory_map \<Rightarrow> bool" where
  "mm_inv m \<longleftrightarrow> (\<forall>r \<in> set (mm_regions m). region_ok r) \<and> sorted_wrt region_before (mm_regions m)"

lemma addr_range_0 [simp]: "addr_range b 0 = {}"
  by (simp add: addr_range_def)

lemma addr_range_empty_iff [simp]: "addr_range b s = {} \<longleftrightarrow> s = 0"
  by (auto simp: addr_range_def unat_eq_zero)

lemma addr_range_disjoint:
  "s \<noteq> 0 \<Longrightarrow> s' \<noteq> 0 \<Longrightarrow>
     addr_range b s \<inter> addr_range b' s' = {} \<longleftrightarrow>
     unat b + unat s \<le> unat b' \<or> unat b' + unat s' \<le> unat b"
  by (auto simp: addr_range_def unat_gt_0 [symmetric] Int_Collect disjoint_iff)

lemma addr_range_mem: "n \<in> addr_range b s \<longleftrightarrow> unat b \<le> n \<and> n < unat b + unat s"
  by (simp add: addr_range_def)

lemma region_end_exact [res_simps]: "region_ok r \<Longrightarrow> region_end oc r = Ok (r_base r + r_size r)"
  by (simp add: region_end_def region_ok_def no_wrap_def add64_exact)

lemma unat_region_end: "region_ok r \<Longrightarrow> unat (r_base r + r_size r) = unat (r_base r) + unat (r_size r)"
  by (simp add: region_ok_def no_wrap_def unat_add64)

lemma region_contains_iff [res_simps]:
  "region_ok r \<Longrightarrow> region_contains oc r a = Ok (unat a \<in> region_range r)"
  by (auto simp: region_contains_def region_end_exact addr_range_mem word_le_nat_alt
        word_less_nat_alt unat_region_end)

lemma region_overlaps_iff [res_simps]:
  assumes "region_ok r" and "no_wrap b s" and "s \<noteq> 0"
  shows "region_overlaps oc r b s = Ok (region_range r \<inter> addr_range b s \<noteq> {})"
proof -
  have "unat (b + s) = unat b + unat s"
    using assms(2) by (simp add: no_wrap_def unat_add64)
  moreover have "r_size r \<noteq> 0" using assms(1) by (simp add: region_ok_def)
  ultimately show ?thesis
    using assms
    by (auto simp: region_overlaps_def add64_exact no_wrap_def region_end_exact
        addr_range_disjoint word_less_nat_alt unat_region_end)
qed

lemma mm_any_overlap:
  assumes "mm_inv m" and "no_wrap b s" and "s \<noteq> 0"
  shows "any_res (\<lambda>r. region_overlaps oc r b s) (mm_regions m) = Ok (mm_claimed m \<inter> addr_range b s \<noteq> {})"
proof -
  have "any_res (\<lambda>r. region_overlaps oc r b s) (mm_regions m) =
          Ok (\<exists>r \<in> set (mm_regions m). region_range r \<inter> addr_range b s \<noteq> {})"
    using assms by (intro any_res_pure) (simp add: region_overlaps_iff mm_inv_def)
  moreover have "(\<exists>r \<in> set (mm_regions m). region_range r \<inter> addr_range b s \<noteq> {}) \<longleftrightarrow>
                   mm_claimed m \<inter> addr_range b s \<noteq> {}"
    by (auto simp: mm_claimed_def)
  ultimately show ?thesis by simp
qed

section \<open>Insertion keeps the map sorted and disjoint\<close>

text \<open>Sorting by base a list of non-empty, pairwise disjoint regions puts each region
  before the next.\<close>

lemma sorted_disjoint_before:
  assumes "sorted (map r_base rs)" and "distinct rs" and "\<forall>r \<in> set rs. r_size r \<noteq> 0"
    and "\<forall>r \<in> set rs. \<forall>r' \<in> set rs. r \<noteq> r' \<longrightarrow> region_range r \<inter> region_range r' = {}"
  shows "sorted_wrt region_before rs"
  using assms
proof (induction rs)
  case Nil
  then show ?case by simp
next
  case (Cons r rs)
  have "region_before r r'" if "r' \<in> set rs" for r'
  proof -
    from that Cons.prems have ne: "r \<noteq> r'" and le: "unat (r_base r) \<le> unat (r_base r')"
      by (auto simp: word_le_nat_alt)
    from that ne Cons.prems(4) have "region_range r \<inter> region_range r' = {}" by simp
    with that Cons.prems(3)
    have "unat (r_base r) + unat (r_size r) \<le> unat (r_base r') \<or>
          unat (r_base r') + unat (r_size r') \<le> unat (r_base r)"
      by (simp add: addr_range_disjoint)
    moreover have "unat (r_size r') > 0" using that Cons.prems(3) by (simp add: unat_gt_0)
    ultimately show ?thesis using le unfolding region_before_def by linarith
  qed
  with Cons show ?case by simp
qed

lemma region_before_disjoint:
  "region_before r r' \<Longrightarrow> region_range r \<inter> region_range r' = {}"
  by (auto simp: region_before_def addr_range_def)

lemma mm_inv_disjoint:
  assumes "mm_inv m" and "r \<in> set (mm_regions m)" and "r' \<in> set (mm_regions m)" and "r \<noteq> r'"
  shows "region_range r \<inter> region_range r' = {}"
proof -
  from assms(2-4) obtain i j where "i < length (mm_regions m)" "j < length (mm_regions m)"
      "mm_regions m ! i = r" "mm_regions m ! j = r'" "i \<noteq> j"
    by (metis in_set_conv_nth)
  moreover have "sorted_wrt region_before (mm_regions m)" using assms(1) by (simp add: mm_inv_def)
  ultimately have "region_before r r' \<or> region_before r' r"
    by (metis linorder_neq_iff sorted_wrt_nth_less)
  then show ?thesis using region_before_disjoint by blast
qed

lemma mm_inv_distinct: "mm_inv m \<Longrightarrow> distinct (mm_regions m)"
proof -
  assume inv: "mm_inv m"
  have "sorted_wrt (\<noteq>) (mm_regions m)"
  proof (rule sorted_wrt_mono_rel [of _ region_before])
    show "r \<noteq> r'" if "r \<in> set (mm_regions m)" and "region_before r r'" for r r'
      using that inv by (auto simp: mm_inv_def region_ok_def region_before_def unat_eq_zero)
    show "sorted_wrt region_before (mm_regions m)" using inv by (simp add: mm_inv_def)
  qed
  then show ?thesis by (simp add: distinct_conv_nth sorted_wrt_iff_nth_less) (metis linorder_neqE_nat)
qed

lemma mm_insert_zero [simp]: "mm_insert oc m b 0 p = (Ok (), m)"
  by (simp add: mm_insert_def)

lemma mm_insert_taken:
  "mm_inv m \<Longrightarrow> no_wrap b s \<Longrightarrow> mm_claimed m \<inter> addr_range b s \<noteq> {} \<Longrightarrow>
     mm_insert oc m b s p = (Err \<lparr>me_base = b\<rparr>, m)"
  by (cases "s = 0") (simp_all add: mm_insert_def mm_any_overlap)

definition mm_added :: "memory_map \<Rightarrow> region \<Rightarrow> memory_map" where
  "mm_added m r = m\<lparr>mm_regions := sort_key r_base (mm_regions m @ [r])\<rparr>"

lemma mm_insert_free:
  "mm_inv m \<Longrightarrow> no_wrap b s \<Longrightarrow> s \<noteq> 0 \<Longrightarrow> mm_claimed m \<inter> addr_range b s = {} \<Longrightarrow>
     mm_insert oc m b s p = (Ok (), mm_added m \<lparr>r_base = b, r_size = s, r_prot = p\<rparr>)"
  by (simp add: mm_insert_def mm_any_overlap mm_added_def)

lemma mm_claimed_added [simp]: "mm_claimed (mm_added m r) = mm_claimed m \<union> region_range r"
  by (auto simp: mm_claimed_def mm_added_def)

lemma set_mm_added [simp]: "set (mm_regions (mm_added m r)) = insert r (set (mm_regions m))"
  by (simp add: mm_added_def)

lemma mm_inv_added [inv_intros]:
  assumes inv: "mm_inv m" and ok: "region_ok r" and free: "mm_claimed m \<inter> region_range r = {}"
  shows "mm_inv (mm_added m r)"
proof -
  have r0: "r_size r \<noteq> 0" using ok by (simp add: region_ok_def)
  have new: "region_range r \<inter> region_range r' = {}" if "r' \<in> set (mm_regions m)" for r'
    using free that by (auto simp: mm_claimed_def)
  then have notin: "r \<notin> set (mm_regions m)"
    using r0 by (metis addr_range_empty_iff inf.idem)
  have "sorted_wrt region_before (mm_regions (mm_added m r))"
  proof (rule sorted_disjoint_before)
    show "sorted (map r_base (mm_regions (mm_added m r)))" by (simp add: mm_added_def)
    show "distinct (mm_regions (mm_added m r))"
      using notin mm_inv_distinct [OF inv] by (simp add: mm_added_def)
    show "\<forall>r' \<in> set (mm_regions (mm_added m r)). r_size r' \<noteq> 0"
      using inv r0 by (auto simp: mm_inv_def region_ok_def)
    show "\<forall>a \<in> set (mm_regions (mm_added m r)). \<forall>b \<in> set (mm_regions (mm_added m r)).
            a \<noteq> b \<longrightarrow> region_range a \<inter> region_range b = {}"
      using new mm_inv_disjoint [OF inv] by (auto simp: Int_commute)
  qed
  then show ?thesis using inv ok by (auto simp: mm_inv_def)
qed

lemma mm_new_simps [simp]: "mm_regions mm_new = []" "mm_claimed mm_new = {}"
  by (simp_all add: mm_new_def mm_claimed_def)

lemma mm_inv_new [simp, inv_intros]: "mm_inv mm_new"
  by (simp add: mm_inv_def)

section \<open>The contract of an address space\<close>

text \<open>A series of insertions that stops at the first that does not succeed, as a client
  that uses \<open>?\<close> on each of them does.\<close>

fun insert_all ::
  "('m \<Rightarrow> u64 \<Rightarrow> u64 \<Rightarrow> u32 \<Rightarrow> ('e, unit) result \<times> 'm) \<Rightarrow> 'm \<Rightarrow> (u64 \<times> u64 \<times> u32) list \<Rightarrow>
     ('e, unit) result \<times> 'm" where
  "insert_all ins m [] = (Ok (), m)"
| "insert_all ins m ((b, s, p) # rs) =
     (case ins m b s p of
        (Ok _, m') \<Rightarrow> insert_all ins m' rs
      | (Err e, m') \<Rightarrow> (Err e, m')
      | (Panic q, m') \<Rightarrow> (Panic q, m'))"

definition ranges_disjoint :: "(u64 \<times> u64 \<times> u32) list \<Rightarrow> bool" where
  "ranges_disjoint rs \<longleftrightarrow>
     sorted_wrt (\<lambda>(b, s, _) (b', s', _). addr_range b s \<inter> addr_range b' s' = {}) rs"

locale address_space =
  fixes ins :: "'m \<Rightarrow> u64 \<Rightarrow> u64 \<Rightarrow> u32 \<Rightarrow> ('e, unit) result \<times> 'm"
    and claimed :: "'m \<Rightarrow> nat set"
    and inv :: "'m \<Rightarrow> bool"
    and empty :: "'m"
  assumes empty_inv: "inv empty"
    and empty_claimed: "claimed empty = {}"
    and free: "inv m \<Longrightarrow> no_wrap b s \<Longrightarrow> claimed m \<inter> addr_range b s = {} \<Longrightarrow>
      \<exists>m'. ins m b s p = (Ok (), m') \<and> inv m' \<and> claimed m' = claimed m \<union> addr_range b s"
    and taken: "inv m \<Longrightarrow> no_wrap b s \<Longrightarrow> claimed m \<inter> addr_range b s \<noteq> {} \<Longrightarrow>
      \<exists>e. ins m b s p = (Err e, m)"
begin

lemma insert_cases:
  assumes "inv m" and "no_wrap b s"
  obtains (ok) m' where "ins m b s p = (Ok (), m')" and "inv m'"
      and "claimed m' = claimed m \<union> addr_range b s" and "claimed m \<inter> addr_range b s = {}"
    | (err) e where "ins m b s p = (Err e, m)" and "claimed m \<inter> addr_range b s \<noteq> {}"
  using free [OF assms] taken [OF assms] by metis

lemma insert_Ok_iff:
  "inv m \<Longrightarrow> no_wrap b s \<Longrightarrow> fst (ins m b s p) = Ok () \<longleftrightarrow> claimed m \<inter> addr_range b s = {}"
  by (erule insert_cases [where b = b and s = s and p = p]) auto

lemma insert_keeps:
  assumes "inv m" and "no_wrap b s"
  shows "inv (snd (ins m b s p))"
  using assms by (cases rule: insert_cases [OF assms, of p]) auto

lemma insert_all_keeps:
  "inv m \<Longrightarrow> \<forall>(b, s, p) \<in> set rs. no_wrap b s \<Longrightarrow>
     inv (snd (insert_all ins m rs)) \<and> (\<forall>q. fst (insert_all ins m rs) \<noteq> Panic q)"
proof (induction rs arbitrary: m)
  case Nil
  then show ?case by simp
next
  case (Cons r rs)
  obtain b s p where r: "r = (b, s, p)" by (cases r)
  with Cons.prems have "no_wrap b s" by simp
  with Cons.prems(1) show ?case
    by (cases rule: insert_cases [where p = p]) (use Cons r in auto)
qed

lemma insert_all_Ok_iff:
  "inv m \<Longrightarrow> \<forall>(b, s, p) \<in> set rs. no_wrap b s \<Longrightarrow>
     fst (insert_all ins m rs) = Ok () \<longleftrightarrow>
       ranges_disjoint rs \<and> (\<forall>(b, s, p) \<in> set rs. claimed m \<inter> addr_range b s = {})"
proof (induction rs arbitrary: m)
  case Nil
  then show ?case by (simp add: ranges_disjoint_def)
next
  case (Cons r rs)
  obtain b s p where r: "r = (b, s, p)" by (cases r)
  with Cons.prems have nw: "no_wrap b s" by simp
  from Cons.prems(1) nw show ?case
  proof (cases rule: insert_cases [where p = p])
    case (ok m')
    have "fst (insert_all ins m (r # rs)) = Ok () \<longleftrightarrow>
        ranges_disjoint rs \<and> (\<forall>(b, s, p) \<in> set rs. claimed m' \<inter> addr_range b s = {})"
      using ok Cons r by simp
    then show ?thesis
      using ok(3,4) r by (auto simp: ranges_disjoint_def Int_Un_distrib2)
  next
    case (err e)
    then show ?thesis using r by auto
  qed
qed

end

interpretation mm: address_space "mm_insert oc" mm_claimed mm_inv mm_new for oc
proof unfold_locales
  fix m b s p
  assume inv: "mm_inv m" and nw: "no_wrap b s"
  {
    assume free: "mm_claimed m \<inter> addr_range b s = {}"
    show "\<exists>m'. mm_insert oc m b s p = (Ok (), m') \<and> mm_inv m' \<and>
            mm_claimed m' = mm_claimed m \<union> addr_range b s"
    proof (cases "s = 0")
      case True
      then show ?thesis using inv by simp
    next
      case False
      with inv nw free show ?thesis
        by (simp add: mm_insert_free mm_inv_added region_ok_def)
    qed
  }
  show "\<exists>e. mm_insert oc m b s p = (Err e, m)" if "mm_claimed m \<inter> addr_range b s \<noteq> {}"
    using mm_insert_taken [OF inv nw that] by blast
qed simp_all

lemmas mm_cases = mm.insert_cases [case_names ok err]

section \<open>Properties\<close>

text \<open>C28: \<open>MemoryMap::insert\<close> implements a set of claimed addresses: on a well-formed map, for
  a range that ends inside the address space, it succeeds exactly when the range is free
  and then claims that range and stays well-formed; otherwise it reports the requested base and
  leaves the map as it was. It never panics, in either build.\<close>

theorem mm_insert_refines:
  assumes "mm_inv m" and "no_wrap b s"
  shows "case mm_insert oc m b s p of
           (Ok _, m') \<Rightarrow> mm_claimed m \<inter> addr_range b s = {} \<and> mm_inv m' \<and>
              mm_claimed m' = mm_claimed m \<union> addr_range b s \<and>
              set (mm_regions m') = set (mm_regions m) \<union>
                (if s = 0 then {} else {\<lparr>r_base = b, r_size = s, r_prot = p\<rparr>})
         | (Err e, m') \<Rightarrow> mm_claimed m \<inter> addr_range b s \<noteq> {} \<and> m' = m \<and> me_base e = b
         | (Panic q, m') \<Rightarrow> False"
proof (cases "mm_claimed m \<inter> addr_range b s = {}")
  case True
  then show ?thesis
    using assms by (cases "s = 0") (simp_all add: mm_insert_free mm_inv_added region_ok_def)
next
  case False
  then show ?thesis using assms by (simp add: mm_insert_taken)
qed

theorem mm_insert_refines_witness:
  "case mm_insert True (mm_added mm_new \<lparr>r_base = 0x1000, r_size = 0x3000, r_prot = 0\<rparr>) 0x3f00 0x200 0 of
     (Ok _, m') \<Rightarrow> False | (Err e, m') \<Rightarrow> me_base e = 0x3f00 | (Panic q, m') \<Rightarrow> False"
proof -
  let ?m = "mm_added mm_new \<lparr>r_base = 0x1000, r_size = 0x3000, r_prot = 0\<rparr>"
  have "mm_inv ?m" by (rule mm_inv_added) (simp_all add: region_ok_def no_wrap_def)
  moreover have "no_wrap 0x3f00 0x200" by (simp add: no_wrap_def)
  moreover have "mm_claimed ?m \<inter> addr_range 0x3f00 0x200 \<noteq> {}"
    by (simp add: addr_range_disjoint)
  ultimately show ?thesis
    using mm_insert_refines [where m = ?m and b = "0x3f00" and s = "0x200" and p = 0 and oc = True]
    by (auto split: prod.splits result.splits)
qed

text \<open>A series of insertions into an empty map is accepted exactly when the ranges are
  pairwise disjoint; it ends in a well-formed map either way and never panics.\<close>

theorem mm_insert_all_iff:
  assumes "\<forall>(b, s, p) \<in> set rs. no_wrap b s"
  shows "(fst (insert_all (mm_insert oc) mm_new rs) = Ok () \<longleftrightarrow> ranges_disjoint rs) \<and>
         mm_inv (snd (insert_all (mm_insert oc) mm_new rs)) \<and>
         (\<forall>q. fst (insert_all (mm_insert oc) mm_new rs) \<noteq> Panic q)"
  using mm.insert_all_Ok_iff [OF mm_inv_new assms] mm.insert_all_keeps [OF mm_inv_new assms]
  by auto

theorem mm_insert_all_iff_witness:
  "fst (insert_all (mm_insert False) mm_new [(0x1000, 0x1000, 0), (0x2000, 0x1000, 0)]) = Ok ()"
proof -
  let ?rs = "[(0x1000, 0x1000, 0), (0x2000, 0x1000, 0)] :: (u64 \<times> u64 \<times> u32) list"
  have "\<forall>(b, s, p) \<in> set ?rs. no_wrap b s" by (simp add: no_wrap_def)
  moreover have "ranges_disjoint ?rs" by (simp add: ranges_disjoint_def addr_range_disjoint)
  ultimately show ?thesis using mm_insert_all_iff [of ?rs False] by simp
qed

text \<open>C37: a range that ends exactly at the top of the address space escapes the overlap
  check. Whatever is claimed already, the release build accepts it, because the end of the
  range wraps to 0; the checked build panics as soon as the map has a region.\<close>

theorem mm_insert_top_of_memory:
  assumes "unat b + unat s = 2 ^ 64" and "mm_regions m \<noteq> []"
  shows "fst (mm_insert False m b s p) = Ok () \<and>
         \<lparr>r_base = b, r_size = s, r_prot = p\<rparr> \<in> set (mm_regions (snd (mm_insert False m b s p))) \<and>
         mm_insert True m b s p = (Panic AddOverflow, m)"
proof -
  have s: "s \<noteq> 0"
    using assms(1) unat_less64 [of b] by auto
  have "unat (b + s) = 0" using assms(1) by (simp add: unat_word_ariths)
  then have "b + s = 0" by (simp add: unat_eq_zero)
  then have rel: "any_res (\<lambda>r. region_overlaps False r b s) (mm_regions m) = (Ok False :: (mmap_error, bool) result)"
    by (subst any_res_pure [where q = "\<lambda>_. False"]) (simp_all add: region_overlaps_def)
  obtain r rs where "mm_regions m = r # rs" using assms(2) by (cases "mm_regions m") auto
  then have "any_res (\<lambda>r. region_overlaps True r b s) (mm_regions m) =
               (Panic AddOverflow :: (mmap_error, bool) result)"
    using assms(1) by (simp add: region_overlaps_def add64_def)
  with s rel show ?thesis by (simp add: mm_insert_def)
qed

theorem mm_insert_top_of_memory_witness:
  "let m = mm_added mm_new \<lparr>r_base = 0xFFFFFFFFFFFFF000, r_size = 0x800, r_prot = 5\<rparr>
   in fst (mm_insert False m 0xFFFFFFFFFFFFF000 0x1000 0) = Ok ()"
  using mm_insert_top_of_memory [of "0xFFFFFFFFFFFFF000" "0x1000"
      "mm_added mm_new \<lparr>r_base = 0xFFFFFFFFFFFFF000, r_size = 0x800, r_prot = 5\<rparr>" 0]
  by (simp add: mm_added_def)

end
