(* ===== verification/Vk_Process.thy ===== *)
theory Vk_Process
  imports Memory_Map
begin

text \<open>
  \<open>vkernel/process.rs\<close> and the process part of \<open>vkernel/mod.rs\<close>: the lifecycle of a simulated
  process, why a run ended, and the kernel's errors, each with its display.
\<close>

datatype process_state = Running | Exited u8

fun show_process_state :: "process_state \<Rightarrow> string" where
  "show_process_state Running = ''running''"
| "show_process_state (Exited code) = ''exited(code='' @ fmt_dec (unat code) @ '')''"

datatype exit_reason = Exit u8 | Falloff u64 | Stopped

fun show_exit_reason :: "exit_reason \<Rightarrow> string" where
  "show_exit_reason (Exit code) = ''exit('' @ fmt_dec (unat code) @ '')''"
| "show_exit_reason (Falloff rip) = ''instruction falloff at 0x'' @ fmt_hex (unat rip)"
| "show_exit_reason Stopped = ''stopped by user''"

datatype vkernel_error = VkMap mmap_error | VkState string

fun show_vkernel_error :: "vkernel_error \<Rightarrow> string" where
  "show_vkernel_error (VkMap e) = ''E301: '' @ show_mmap_error e"
| "show_vkernel_error (VkState msg) = ''E302: '' @ msg"

definition vkernel_error_of_mmap :: "mmap_error \<Rightarrow> vkernel_error" where
  "vkernel_error_of_mmap e = VkMap e"

record process =
  pr_state :: process_state
  pr_mem :: memory_map

definition process_new :: process where
  "process_new = \<lparr>pr_state = Running, pr_mem = mm_new\<rparr>"

definition process_default :: process where
  "process_default = process_new"

definition process_state_of :: "process \<Rightarrow> process_state" where
  "process_state_of p = pr_state p"

lemma process_new_inv: "process_state_of process_new = Running \<and> mm_inv (pr_mem process_new)"
  by (simp add: process_new_def process_state_of_def)

text \<open>The displays of process states and exit reasons lose nothing: two of them print the
  same only when they are equal.\<close>

theorem process_displays_inj:
  "(show_process_state a = show_process_state b \<longleftrightarrow> a = b) \<and>
   (show_exit_reason r = show_exit_reason s \<longleftrightarrow> r = s)"
proof
  show "show_process_state a = show_process_state b \<longleftrightarrow> a = b"
    by (cases a; cases b) auto
  show "show_exit_reason r = show_exit_reason s \<longleftrightarrow> r = s"
    by (cases r; cases s) auto
qed

end
