(* ===== verification/BTree_Map.thy ===== *)
theory BTree_Map
  imports Prelude
begin

text \<open>
  The ordered map of the Rust standard library, \<open>BTreeMap\<close>, as an association list in strictly
  increasing key order, with the operations the sources call: \<open>get\<close> and \<open>contains_key\<close>
  (\<open>map_of\<close>), \<open>insert\<close>, iteration in key order (the list itself) and
  \<open>range(..=a).next_back()\<close>, the entry with the greatest key not above \<open>a\<close>.
\<close>

type_synonym ('k, 'v) btree = "('k \<times> 'v) list"

definition bt_inv :: "('k::linorder, 'v) btree \<Rightarrow> bool" where
  "bt_inv m \<longleftrightarrow> sorted_wrt (<) (map fst m)"

fun bt_insert :: "'k::linorder \<Rightarrow> 'v \<Rightarrow> ('k, 'v) btree \<Rightarrow> ('k, 'v) btree" where
  "bt_insert k v [] = [(k, v)]"
| "bt_insert k v ((k', v') # m) =
     (if k < k' then (k, v) # (k', v') # m
      else if k = k' then (k, v) # m
      else (k', v') # bt_insert k v m)"

definition bt_floor :: "'k::linorder \<Rightarrow> ('k, 'v) btree \<Rightarrow> ('k \<times> 'v) option" where
  "bt_floor a m = (let below = [e \<leftarrow> m. fst e \<le> a] in if below = [] then None else Some (last below))"

lemma map_of_bt_insert [simp]: "map_of (bt_insert k v m) = (map_of m)(k \<mapsto> v)"
  by (induction k v m rule: bt_insert.induct) (auto simp: fun_eq_iff)

lemma keys_bt_insert [simp]: "fst ` set (bt_insert k v m) = insert k (fst ` set m)"
  by (induction k v m rule: bt_insert.induct) auto

lemma bt_inv_Nil [simp]: "bt_inv []"
  by (simp add: bt_inv_def)

lemma bt_inv_Cons [simp]: "bt_inv ((k, v) # m) \<longleftrightarrow> (\<forall>k' \<in> fst ` set m. k < k') \<and> bt_inv m"
  by (auto simp: bt_inv_def)

lemma bt_inv_insert [simp, inv_intros]: "bt_inv m \<Longrightarrow> bt_inv (bt_insert k v m)"
  by (induction k v m rule: bt_insert.induct) auto

lemma bt_inv_distinct: "bt_inv m \<Longrightarrow> distinct (map fst m)"
  by (simp add: bt_inv_def strict_sorted_iff)

lemma bt_get_iff: "bt_inv m \<Longrightarrow> map_of m k = Some v \<longleftrightarrow> (k, v) \<in> set m"
  by (simp add: bt_inv_distinct)

lemma set_bt_insert:
  "bt_inv m \<Longrightarrow> set (bt_insert k v m) = insert (k, v) {e \<in> set m. fst e \<noteq> k}"
  by (induction k v m rule: bt_insert.induct) auto

text \<open>Two ordered maps with the same entries are the same list.\<close>

lemma bt_ext:
  assumes "bt_inv m" and "bt_inv m'" and "map_of m = map_of m'"
  shows "m = m'"
proof (rule map_sorted_distinct_set_unique [where f = fst])
  show eq: "set m = set m'"
    using assms by (auto simp flip: bt_get_iff)
  show "inj_on fst (set m \<union> set m')"
    using bt_inv_distinct [OF assms(1)] eq by (simp add: distinct_map)
qed (use assms in \<open>auto simp: bt_inv_def strict_sorted_iff\<close>)

lemma bt_floor_Some_iff:
  "bt_inv m \<Longrightarrow> bt_floor a m = Some (k, v) \<longleftrightarrow>
     (k, v) \<in> set m \<and> k \<le> a \<and> (\<forall>k' \<in> fst ` set m. k' \<le> a \<longrightarrow> k' \<le> k)"
proof -
  assume inv: "bt_inv m"
  let ?below = "[e \<leftarrow> m. fst e \<le> a]"
  have sorted: "sorted_wrt (<) (map fst ?below)"
    using inv by (simp add: bt_inv_def sorted_wrt_map sorted_wrt_filter)
  show ?thesis
  proof (cases "?below = []")
    case True
    then show ?thesis by (auto simp: bt_floor_def filter_empty_conv)
  next
    case False
    then obtain es e where es: "?below = es @ [e]" by (metis rev_exhaust)
    have all: "{x \<in> set m. fst x \<le> a} = set es \<union> {e}"
      using arg_cong [OF es, of set] by auto
    then have e: "e \<in> set m" "fst e \<le> a" by auto
    have below: "x \<in> set m \<and> fst x \<le> a \<longleftrightarrow> x \<in> set es \<or> x = e" for x
      using all by blast
    have max: "fst x < fst e" if "x \<in> set es" for x
      using sorted that unfolding es by (auto simp: sorted_wrt_append)
    have "bt_floor a m = Some e" using es by (simp add: bt_floor_def)
    moreover have "(k, v) = e"
      if "(k, v) \<in> set m" "k \<le> a" "\<forall>k' \<in> fst ` set m. k' \<le> a \<longrightarrow> k' \<le> k"
    proof -
      have "fst e \<le> k" using that(3) e by auto
      then show ?thesis using that(1,2) below [of "(k, v)"] max by fastforce
    qed
    moreover have "\<forall>k' \<in> fst ` set m. k' \<le> a \<longrightarrow> k' \<le> fst e"
      using below max by (force simp: less_imp_le)
    ultimately show ?thesis using e by (cases e) auto
  qed
qed

lemma bt_floor_None_iff: "bt_floor a m = None \<longleftrightarrow> (\<forall>k \<in> fst ` set m. a < k)"
  by (auto simp: bt_floor_def Let_def filter_empty_conv not_le)

lemma bt_floor_le: "bt_floor a m = Some (k, v) \<Longrightarrow> k \<le> a"
proof -
  assume "bt_floor a m = Some (k, v)"
  then have ne: "[e \<leftarrow> m. fst e \<le> a] \<noteq> []" and last: "last [e \<leftarrow> m. fst e \<le> a] = (k, v)"
    by (auto simp: bt_floor_def Let_def split: if_splits)
  from last_in_set [OF ne] show ?thesis unfolding last by simp
qed

end
