(* ===== verification/Vk_Io.thy ===== *)
theory Vk_Io
  imports BTree_Map
begin

text \<open>
  \<open>vkernel/io.rs\<close>: the output a process has written, one buffer per descriptor. The locale
  \<open>output_sink\<close> is what the system-call layer relies on (a write appends to one buffer and
  touches no other); \<open>OutputCapture\<close> is its instance.
\<close>

record output_capture =
  oc_buffers :: "(i64, bytes) btree"

definition capture_new :: output_capture where
  "capture_new = \<lparr>oc_buffers = []\<rparr>"

definition capture_get :: "output_capture \<Rightarrow> i64 \<Rightarrow> bytes" where
  "capture_get c fd = (case map_of (oc_buffers c) fd of Some bs \<Rightarrow> bs | None \<Rightarrow> [])"

definition capture_write :: "output_capture \<Rightarrow> i64 \<Rightarrow> bytes \<Rightarrow> output_capture" where
  "capture_write c fd data =
     (let entry = (case map_of (oc_buffers c) fd of Some bs \<Rightarrow> bs | None \<Rightarrow> [])
      in c\<lparr>oc_buffers := bt_insert fd (entry @ data) (oc_buffers c)\<rparr>)"

definition capture_stdout :: "output_capture \<Rightarrow> bytes" where
  "capture_stdout c = capture_get c 1"

definition capture_stderr :: "output_capture \<Rightarrow> bytes" where
  "capture_stderr c = capture_get c 2"

fun combined_loop :: "(i64 \<times> bytes) list \<Rightarrow> bytes \<Rightarrow> bytes" where
  "combined_loop [] out = out"
| "combined_loop ((fd, bs) # es) out =
     combined_loop es (if fd = 1 \<or> fd = 2 then out @ bs else out)"

definition capture_combined :: "output_capture \<Rightarrow> bytes" where
  "capture_combined c = combined_loop (oc_buffers c) []"

section \<open>Invariant and contract\<close>

definition capture_inv :: "output_capture \<Rightarrow> bool" where
  "capture_inv c \<longleftrightarrow> bt_inv (oc_buffers c)"

lemma capture_new_inv [simp, inv_intros]: "capture_inv capture_new"
  by (simp add: capture_inv_def capture_new_def)

lemma capture_write_inv [simp, inv_intros]: "capture_inv c \<Longrightarrow> capture_inv (capture_write c fd data)"
  by (simp add: capture_inv_def capture_write_def)

lemma capture_get_new [simp]: "capture_get capture_new fd = []"
  by (simp add: capture_get_def capture_new_def)

lemma capture_get_write:
  "capture_get (capture_write c fd data) fd' = capture_get c fd' @ (if fd' = fd then data else [])"
  by (simp add: capture_get_def capture_write_def Let_def)

text \<open>A sink with one buffer per descriptor: what a run of writes leaves in it.\<close>

definition payload :: "i64 \<Rightarrow> (i64 \<times> bytes) list \<Rightarrow> bytes" where
  "payload fd ws = concat (map snd [w \<leftarrow> ws. fst w = fd])"

locale output_sink =
  fixes wr :: "'s \<Rightarrow> i64 \<Rightarrow> bytes \<Rightarrow> 's"
    and get :: "'s \<Rightarrow> i64 \<Rightarrow> bytes"
    and new :: 's
  assumes get_new: "get new fd = []"
    and get_write: "get (wr s fd data) fd' = get s fd' @ (if fd' = fd then data else [])"
begin

lemma get_writes: "get (foldl (\<lambda>s (fd, data). wr s fd data) s ws) fd = get s fd @ payload fd ws"
  by (induction ws arbitrary: s) (auto simp: get_write payload_def)

lemma get_writes_new: "get (foldl (\<lambda>s (fd, data). wr s fd data) new ws) fd = payload fd ws"
  by (simp add: get_writes get_new)

end

interpretation capture: output_sink capture_write capture_get capture_new
  by unfold_locales (simp_all add: capture_get_write)

lemma combined_loop_append:
  "combined_loop es out = out @ concat (map snd [e \<leftarrow> es. fst e = 1 \<or> fst e = 2])"
  by (induction es out rule: combined_loop.induct) auto

text \<open>In key order, the entries for 1 and 2 are at most one each, 1 first.\<close>

lemma bt_two_keys:
  assumes "bt_inv m"
  shows "concat (map snd [e \<leftarrow> m. fst e = (1 :: i64) \<or> fst e = 2]) =
           (case map_of m 1 of Some a \<Rightarrow> a | None \<Rightarrow> []) @ (case map_of m 2 of Some b \<Rightarrow> b | None \<Rightarrow> [])"
  using assms
proof (induction m)
  case Nil
  then show ?case by simp
next
  case (Cons e m)
  obtain k v where e: "e = (k, v)" by (cases e)
  with Cons.prems have above: "\<forall>k' \<in> fst ` set m. k < k'" and inv: "bt_inv m" by simp_all
  have none: "map_of m j = None" if "j \<le> k" for j
    using above that by (force simp: map_of_eq_None_iff)
  have later: "[e \<leftarrow> m. fst e = 1 \<or> fst e = 2] = []" if "2 \<le> k"
    using above that by (force simp: filter_empty_conv)
  consider "k = 1" | "k = 2" | "k \<noteq> 1 \<and> k \<noteq> 2" by blast
  then show ?case
  proof cases
    case 1
    then show ?thesis using Cons.IH [OF inv] none [of 1] by (simp add: e)
  next
    case 2
    then show ?thesis using later none [of 1] none [of 2] by (simp add: e)
  next
    case 3
    then show ?thesis using Cons.IH [OF inv] by (simp add: e)
  qed
qed

lemma capture_combined_eq: "capture_inv c \<Longrightarrow> capture_combined c = capture_stdout c @ capture_stderr c"
  by (simp add: capture_inv_def capture_combined_def combined_loop_append bt_two_keys
      capture_stdout_def capture_stderr_def capture_get_def)

section \<open>Properties\<close>

definition capture_writes :: "(i64 \<times> bytes) list \<Rightarrow> output_capture" where
  "capture_writes ws = foldl (\<lambda>c (fd, data). capture_write c fd data) capture_new ws"

lemma capture_writes_inv: "capture_inv (capture_writes ws)"
proof -
  have "capture_inv c \<Longrightarrow> capture_inv (foldl (\<lambda>c (fd, data). capture_write c fd data) c ws)" for c
    by (induction ws arbitrary: c) auto
  then show ?thesis by (simp add: capture_writes_def)
qed

text \<open>After any sequence of writes, a descriptor's buffer holds exactly what was written to
  that descriptor, in order; the combined output is all of stdout followed by all of stderr, and
  no other descriptor shows in it.\<close>

theorem capture_after_writes:
  "capture_get (capture_writes ws) fd = payload fd ws \<and>
   capture_combined (capture_writes ws) = payload 1 ws @ payload 2 ws"
  using capture.get_writes_new capture_combined_eq [OF capture_writes_inv]
  by (simp add: capture_writes_def capture_stdout_def capture_stderr_def)

end
