(* ===== verification/Vk_Mem.thy ===== *)
theory Vk_Mem
  imports BTree_Map Fmt
begin

text \<open>
  \<open>vkernel/mem.rs\<close>, the in-memory backend \<open>InMemGuest\<close> of the \<open>GuestMemory\<close> trait.

  \<open>im_read\<close> and \<open>im_write\<close> work chunk by chunk: the region that contains the cursor gives a
  chunk, the cursor moves past it, until enough bytes are done. Each chunk holds at least one
  byte, which is why the loops end. The loops are compared with byte-wise reference definitions
  \<open>ref_read\<close> and \<open>ref_write\<close>, over the partial function \<open>im_byte\<close> from addresses to bytes; the
  locale \<open>guest_memory\<close> states the contract in these terms and derives what the clients of the
  trait use (round trip, frame).

  \<open>im_inv\<close>: regions in key order, none reaching into the next or past the address space.
\<close>

section \<open>The code\<close>

record gm_error =
  ge_addr :: u64
  ge_len :: nat

definition show_gm_error :: "gm_error \<Rightarrow> string" where
  "show_gm_error e =
     ''E401: guest memory access failed at 0x'' @ fmt_hex (unat (ge_addr e)) @ '' ('' @
     fmt_dec (ge_len e) @ '' bytes)''"

record in_mem_guest =
  im_bytes :: "(u64, bytes) btree"

definition im_new :: in_mem_guest where
  "im_new = \<lparr>im_bytes = []\<rparr>"

text \<open>\<open>region\<close> and \<open>region_mut\<close>: the entry with the greatest base not above the address, if the
  address is inside it. \<open>addr - base\<close> cannot underflow there.\<close>

definition im_region :: "in_mem_guest \<Rightarrow> u64 \<Rightarrow> (u64 \<times> bytes) option" where
  "im_region m addr =
     (case bt_floor addr (im_bytes m) of
        None \<Rightarrow> None
      | Some (base, bs) \<Rightarrow> if unat (addr - base) < length bs then Some (base, bs) else None)"

definition im_map_anon ::
  "in_mem_guest \<Rightarrow> u64 \<Rightarrow> nat \<Rightarrow> u32 \<Rightarrow> (gm_error, unit) result \<times> in_mem_guest" where
  "im_map_anon m base len prot =
     (if map_of (im_bytes m) base \<noteq> None then (Err \<lparr>ge_addr = base, ge_len = len\<rparr>, m)
      else case vec_zeroed len of
             Ok v \<Rightarrow> (Ok (), m\<lparr>im_bytes := bt_insert base v (im_bytes m)\<rparr>)
           | Err e \<Rightarrow> (Err e, m)
           | Panic p \<Rightarrow> (Panic p, m))"

lemma im_region_chunk: "im_region m c = Some (base, bs) \<Longrightarrow> unat (c - base) < length bs"
  by (auto simp: im_region_def split: option.splits if_splits prod.splits)

function im_read_loop :: "bool \<Rightarrow> in_mem_guest \<Rightarrow> u64 \<Rightarrow> nat \<Rightarrow> bytes \<Rightarrow> (gm_error, bytes) result" where
  "im_read_loop oc m cursor len out =
     (if length out < len then
        (let remaining = len - length out in
         case im_region m cursor of
           None \<Rightarrow> Err \<lparr>ge_addr = cursor, ge_len = remaining\<rparr>
         | Some (base, bs) \<Rightarrow>
             (let offset = unat (cursor - base); taken = min remaining (length bs - offset) in
              r_bind (slice_index offset (offset + taken) bs) (\<lambda>part.
              r_bind (add64 oc cursor (of_nat taken)) (\<lambda>cursor'.
                im_read_loop oc m cursor' len (out @ part)))))
      else Ok out)"
  by pat_completeness auto
termination
proof (relation "measure (\<lambda>(oc, m, cursor, len, out). len - length out)", goal_cases)
  case (2 oc m cursor len out remaining found base bs offset taken part cursor')
  have "im_region m cursor = Some (base, bs)" using 2(3,4) by simp
  then have "offset < length bs" using 2(5) im_region_chunk by simp
  then have "0 < taken" using 2(1,2,6) by simp
  moreover have "length part = taken" using 2(7) by auto
  ultimately show ?case using 2(1) by simp
qed simp

declare im_read_loop.simps [simp del]

definition im_read :: "bool \<Rightarrow> in_mem_guest \<Rightarrow> u64 \<Rightarrow> nat \<Rightarrow> (gm_error, bytes) result" where
  "im_read oc m addr len = r_bind (vec_with_capacity len) (im_read_loop oc m addr len)"

function im_write_loop ::
  "bool \<Rightarrow> in_mem_guest \<Rightarrow> u64 \<Rightarrow> bytes \<Rightarrow> nat \<Rightarrow> (gm_error, unit) result \<times> in_mem_guest" where
  "im_write_loop oc m cursor data idx =
     (if idx < length data then
        (let remaining = length data - idx in
         case im_region m cursor of
           None \<Rightarrow> (Err \<lparr>ge_addr = cursor, ge_len = remaining\<rparr>, m)
         | Some (base, bs) \<Rightarrow>
             (let offset = unat (cursor - base); taken = min remaining (length bs - offset) in
              case r_bind (slice_index idx (idx + taken) data) (\<lambda>src. copy_at offset src bs) of
                Err e \<Rightarrow> (Err e, m)
              | Panic p \<Rightarrow> (Panic p, m)
              | Ok bs' \<Rightarrow>
                  (let m' = m\<lparr>im_bytes := bt_insert base bs' (im_bytes m)\<rparr> in
                   case add64 oc cursor (of_nat taken) of
                     Err e \<Rightarrow> (Err e, m')
                   | Panic p \<Rightarrow> (Panic p, m')
                   | Ok cursor' \<Rightarrow> im_write_loop oc m' cursor' data (idx + taken))))
      else (Ok (), m))"
  by pat_completeness auto
termination
proof (relation "measure (\<lambda>(oc, m, cursor, data, idx). length data - idx)", goal_cases)
  case (2 oc m cursor data idx remaining found base bs offset taken bs' m' cursor')
  have "im_region m cursor = Some (base, bs)" using 2(3,4) by simp
  then have "offset < length bs" using 2(5) im_region_chunk by simp
  then have "0 < taken" using 2(1,2,6) by simp
  then show ?case using 2(1) by simp
qed simp

declare im_write_loop.simps [simp del]

definition im_write :: "bool \<Rightarrow> in_mem_guest \<Rightarrow> u64 \<Rightarrow> bytes \<Rightarrow> (gm_error, unit) result \<times> in_mem_guest" where
  "im_write oc m addr data = im_write_loop oc m addr data 0"

section \<open>The byte-wise view\<close>

fun ref_read :: "(nat \<Rightarrow> u8 option) \<Rightarrow> nat \<Rightarrow> nat \<Rightarrow> (nat \<times> nat) + bytes" where
  "ref_read f a 0 = Inr []"
| "ref_read f a (Suc n) =
     (case f a of
        None \<Rightarrow> Inl (a, Suc n)
      | Some b \<Rightarrow> (case ref_read f (Suc a) n of Inl e \<Rightarrow> Inl e | Inr bs \<Rightarrow> Inr (b # bs)))"

fun ref_write :: "(nat \<Rightarrow> u8 option) \<Rightarrow> nat \<Rightarrow> bytes \<Rightarrow> ((nat \<times> nat) + unit) \<times> (nat \<Rightarrow> u8 option)" where
  "ref_write f a [] = (Inr (), f)"
| "ref_write f a (b # bs) =
     (if f a = None then (Inl (a, Suc (length bs)), f) else ref_write (f(a := Some b)) (Suc a) bs)"

definition in_entry :: "nat \<Rightarrow> u64 \<times> bytes \<Rightarrow> bool" where
  "in_entry a e \<longleftrightarrow> unat (fst e) \<le> a \<and> a < unat (fst e) + length (snd e)"

definition im_byte :: "in_mem_guest \<Rightarrow> nat \<Rightarrow> u8 option" where
  "im_byte m a = (case find (in_entry a) (im_bytes m) of
                    Some (base, bs) \<Rightarrow> Some (bs ! (a - unat base)) | None \<Rightarrow> None)"

definition entry_before :: "u64 \<times> bytes \<Rightarrow> u64 \<times> bytes \<Rightarrow> bool" where
  "entry_before e e' \<longleftrightarrow> fst e < fst e' \<and> unat (fst e) + length (snd e) \<le> unat (fst e')"

definition im_inv :: "in_mem_guest \<Rightarrow> bool" where
  "im_inv m \<longleftrightarrow> sorted_wrt entry_before (im_bytes m) \<and>
     (\<forall>e \<in> set (im_bytes m). unat (fst e) + length (snd e) \<le> 2 ^ 64)"

lemma im_inv_bt: "im_inv m \<Longrightarrow> bt_inv (im_bytes m)"
  unfolding im_inv_def bt_inv_def sorted_wrt_map entry_before_def
  by (auto elim: sorted_wrt_mono_rel [rotated])

lemma im_new_inv [simp, inv_intros]: "im_inv im_new"
  by (simp add: im_inv_def im_new_def)

lemma im_inv_disjoint:
  assumes "im_inv m" and "e \<in> set (im_bytes m)" and "e' \<in> set (im_bytes m)"
    and "in_entry a e" and "in_entry a e'"
  shows "e = e'"
proof (rule ccontr)
  assume "e \<noteq> e'"
  then obtain i j where "i < length (im_bytes m)" "j < length (im_bytes m)"
      "im_bytes m ! i = e" "im_bytes m ! j = e'" "i \<noteq> j"
    using assms(2,3) by (metis in_set_conv_nth)
  moreover have "sorted_wrt entry_before (im_bytes m)" using assms(1) by (simp add: im_inv_def)
  ultimately have "entry_before e e' \<or> entry_before e' e"
    by (metis linorder_neq_iff sorted_wrt_nth_less)
  then show False using assms(4,5) by (auto simp: entry_before_def in_entry_def)
qed

lemma im_byte_in_entry:
  assumes "im_inv m" and "(base, bs) \<in> set (im_bytes m)" and "in_entry a (base, bs)"
  shows "im_byte m a = Some (bs ! (a - unat base))"
proof -
  have "\<exists>e. find (in_entry a) (im_bytes m) = Some e"
    using assms(2,3) by (metis find_None_iff not_None_eq)
  then obtain e where e: "find (in_entry a) (im_bytes m) = Some e" ..
  then have "e \<in> set (im_bytes m)" "in_entry a e" by (auto simp: find_Some_iff)
  then have "e = (base, bs)" using im_inv_disjoint [OF assms(1) _ assms(2) _ assms(3)] by blast
  with e show ?thesis by (simp add: im_byte_def)
qed

lemma im_byte_None_iff: "im_byte m a = None \<longleftrightarrow> (\<forall>e \<in> set (im_bytes m). \<not> in_entry a e)"
  by (auto simp: im_byte_def find_None_iff split: option.splits) (auto simp: find_Some_iff)

text \<open>With the invariant, the region looked up is the one that contains the address.\<close>

lemma im_region_Some_iff:
  assumes inv: "im_inv m"
  shows "im_region m a = Some (base, bs) \<longleftrightarrow> (base, bs) \<in> set (im_bytes m) \<and> in_entry (unat a) (base, bs)"
proof
  assume "im_region m a = Some (base, bs)"
  then have fl: "bt_floor a (im_bytes m) = Some (base, bs)" and len: "unat (a - base) < length bs"
    by (auto simp: im_region_def split: option.splits if_splits prod.splits)
  from fl have "(base, bs) \<in> set (im_bytes m)" and "base \<le> a"
    using bt_floor_Some_iff [OF im_inv_bt [OF inv]] by auto
  then show "(base, bs) \<in> set (im_bytes m) \<and> in_entry (unat a) (base, bs)"
    using len by (auto simp: in_entry_def unat_sub64 word_le_nat_alt)
next
  assume R: "(base, bs) \<in> set (im_bytes m) \<and> in_entry (unat a) (base, bs)"
  then have le: "base \<le> a" by (simp add: in_entry_def word_le_nat_alt)
  have "k' \<le> base" if k': "k' \<in> fst ` set (im_bytes m)" "k' \<le> a" for k'
  proof (rule ccontr)
    assume "\<not> k' \<le> base"
    then have less: "base < k'" by simp
    obtain bs' where e': "(k', bs') \<in> set (im_bytes m)" using k'(1) by auto
    with R less obtain i j where "i < length (im_bytes m)" "j < length (im_bytes m)"
        "im_bytes m ! i = (base, bs)" "im_bytes m ! j = (k', bs')" "i \<noteq> j"
      by (metis in_set_conv_nth fst_conv less_irrefl)
    moreover have "sorted_wrt entry_before (im_bytes m)" using inv by (simp add: im_inv_def)
    ultimately have "entry_before (base, bs) (k', bs') \<or> entry_before (k', bs') (base, bs)"
      by (metis linorder_neq_iff sorted_wrt_nth_less)
    then show False using less R k'(2) by (auto simp: entry_before_def in_entry_def word_le_nat_alt)
  qed
  then have "bt_floor a (im_bytes m) = Some (base, bs)"
    using R le bt_floor_Some_iff [OF im_inv_bt [OF inv]] by simp
  moreover have "unat (a - base) < length bs"
    using R le by (simp add: in_entry_def unat_sub64)
       (simp add: less_diff_conv2 word_le_nat_alt add.commute)
  ultimately show "im_region m a = Some (base, bs)" by (simp add: im_region_def)
qed

lemma im_region_None_iff: "im_inv m \<Longrightarrow> im_region m a = None \<longleftrightarrow> im_byte m (unat a) = None"
proof -
  assume inv: "im_inv m"
  have "im_region m a = None \<longleftrightarrow> (\<forall>base bs. im_region m a \<noteq> Some (base, bs))"
    by (cases "im_region m a") auto
  also have "\<dots> \<longleftrightarrow> im_byte m (unat a) = None"
    by (auto simp: im_region_Some_iff [OF inv] im_byte_None_iff)
  finally show ?thesis .
qed

section \<open>Reads\<close>

lemma ref_read_numeral:
  "ref_read f a (numeral k) =
     (case f a of
        None \<Rightarrow> Inl (a, numeral k)
      | Some b \<Rightarrow> (case ref_read f (Suc a) (pred_numeral k) of Inl e \<Rightarrow> Inl e | Inr bs \<Rightarrow> Inr (b # bs)))"
  by (simp add: numeral_eq_Suc split: option.split)

lemma ref_read_Inr_iff:
  "ref_read f a n = Inr bs \<longleftrightarrow> length bs = n \<and> (\<forall>i < n. f (a + i) = Some (bs ! i))"
proof (induction f a n arbitrary: bs rule: ref_read.induct)
  case (1 f a)
  then show ?case by auto
next
  case (2 f a n)
  show ?case
  proof (cases "f a")
    case None
    then show ?thesis by (auto intro!: exI [of _ 0])
  next
    case (Some b)
    have "ref_read f a (Suc n) = Inr bs \<longleftrightarrow> (\<exists>bs'. bs = b # bs' \<and> ref_read f (Suc a) n = Inr bs')"
      using Some by (auto split: sum.splits)
    also have "\<dots> \<longleftrightarrow> length bs = Suc n \<and> (\<forall>i < Suc n. f (a + i) = Some (bs ! i))"
      using Some by (cases bs) (auto simp: 2 [OF Some] less_Suc_eq_0_disj)
    finally show ?thesis .
  qed
qed

lemma ref_read_Inl:
  "ref_read f a n = Inl (x, k) \<Longrightarrow>
     a \<le> x \<and> x + k = a + n \<and> 0 < k \<and> f x = None \<and> (\<forall>y. a \<le> y \<and> y < x \<longrightarrow> f y \<noteq> None)"
proof (induction f a n rule: ref_read.induct)
  case (2 f a n)
  then show ?case
    by (auto split: option.splits sum.splits)
       (metis Suc_leI le_neq_implies_less option.distinct(1))
qed simp

lemma ref_read_add:
  "ref_read f a (t + n) =
     (case ref_read f a t of
        Inl (x, k) \<Rightarrow> Inl (x, k + n)
      | Inr bs \<Rightarrow> (case ref_read f (a + t) n of Inl e \<Rightarrow> Inl e | Inr bs' \<Rightarrow> Inr (bs @ bs')))"
  by (induction f a t rule: ref_read.induct) (auto split: option.splits sum.splits)

lemma im_chunk_bytes:
  assumes "im_inv m" and "im_region m c = Some (base, bs)"
    and "i < length bs - unat (c - base)"
  shows "im_byte m (unat c + i) = Some (bs ! (unat (c - base) + i))"
proof -
  from assms(1,2) have e: "(base, bs) \<in> set (im_bytes m)" "in_entry (unat c) (base, bs)"
    by (simp_all add: im_region_Some_iff)
  then have le: "base \<le> c" by (simp add: in_entry_def word_le_nat_alt)
  then have off: "unat (c - base) = unat c - unat base" by (rule unat_sub64)
  have "in_entry (unat c + i) (base, bs)"
    using e(2) assms(3) by (auto simp: in_entry_def off)
  from im_byte_in_entry [OF assms(1) e(1) this] show ?thesis
    using e(2) by (simp add: off in_entry_def)
qed

lemma unat_advance: "unat (c :: u64) + n < 2 ^ 64 \<Longrightarrow> unat (c + of_nat n) = unat c + n"
  by (simp add: unat_word_ariths unat_of_nat)

lemma add64_advance: "unat c + n < 2 ^ 64 \<Longrightarrow> add64 oc c (of_nat n) = Ok (c + of_nat n)"
  by (simp add: add64_def unat_of_nat)

text \<open>One chunk of a read: it lies in the region, is not longer than what is asked for, and holds the
  bytes that are there; the cursor that moves behind it does not wrap.\<close>

lemma im_read_chunk:
  assumes "im_inv m" and reg: "im_region m cursor = Some (base, bs)" and "unat cursor + n < 2 ^ 64"
  defines "offset \<equiv> unat (cursor - base)"
  defines "taken \<equiv> min n (length bs - offset)"
  defines "part \<equiv> sub_slice offset (offset + taken) bs"
  shows "slice_index offset (offset + taken) bs = Ok part" and "length part = taken" and "taken \<le> n"
    and "ref_read (im_byte m) (unat cursor) taken = Inr part"
    and "add64 oc cursor (of_nat taken) = Ok (cursor + of_nat taken)"
    and "unat (cursor + of_nat taken) = unat cursor + taken"
proof -
  have off: "offset < length bs" using im_region_chunk [OF reg] by (simp add: offset_def)
  have room: "taken \<le> length bs - offset" and rest: "taken \<le> n" by (simp_all add: taken_def)
  show len: "length part = taken" using off room by (simp add: part_def)
  show "ref_read (im_byte m) (unat cursor) taken = Inr part"
    unfolding ref_read_Inr_iff
    using im_chunk_bytes [OF assms(1) reg] room off
    by (auto simp: len offset_def [symmetric]) (simp add: part_def)
  show "slice_index offset (offset + taken) bs = Ok part" using room off by (simp add: part_def)
  have fits: "unat cursor + taken < 2 ^ 64" using assms(3) rest by linarith
  show "add64 oc cursor (of_nat taken) = Ok (cursor + of_nat taken)" by (rule add64_advance [OF fits])
  show "unat (cursor + of_nat taken) = unat cursor + taken" by (rule unat_advance [OF fits])
  show "taken \<le> n" by (rule rest)
qed

lemma im_read_loop_eq:
  assumes "im_inv m" and "length out \<le> len" and "unat cursor + (len - length out) < 2 ^ 64"
  shows "im_read_loop oc m cursor len out =
     (case ref_read (im_byte m) (unat cursor) (len - length out) of
        Inl (x, k) \<Rightarrow> Err \<lparr>ge_addr = of_nat x, ge_len = k\<rparr>
      | Inr bs \<Rightarrow> Ok (out @ bs))"
  using assms
proof (induction oc m cursor len out rule: im_read_loop.induct)
  case (1 oc m cursor len out)
  let ?n = "len - length out"
  consider (stop) "\<not> length out < len" | (none) "length out < len" "im_region m cursor = None"
    | (some) base bs where "length out < len" "im_region m cursor = Some (base, bs)"
    by (cases "im_region m cursor") auto
  then show ?case
  proof cases
    case stop
    then show ?thesis using "1.prems" by (simp add: im_read_loop.simps)
  next
    case none
    then have "im_byte m (unat cursor) = None" using "1.prems" by (simp add: im_region_None_iff)
    moreover obtain n where "?n = Suc n" using none(1) by (metis Suc_diff_Suc)
    ultimately show ?thesis using none by (simp add: im_read_loop.simps [of oc m cursor])
  next
    case (some base bs)
    define offset taken where defs: "offset = unat (cursor - base)" "taken = min ?n (length bs - offset)"
    define part where "part = sub_slice offset (offset + taken) bs"
    note chunk = im_read_chunk [OF "1.prems"(1) some(2) "1.prems"(3), folded defs, folded defs part_def]
    have step: "im_read_loop oc m cursor len out = im_read_loop oc m (cursor + of_nat taken) len (out @ part)"
      using some by (simp add: im_read_loop.simps [of oc m cursor] Let_def chunk flip: defs)
    have "length (out @ part) \<le> len" "unat (cursor + of_nat taken) + (len - length (out @ part)) < 2 ^ 64"
      using chunk(3) some(1) "1.prems"(3) by (simp_all add: chunk(2,6))
    from "1.IH" [OF some(1) refl some(2) refl defs chunk(1,5) "1.prems"(1) this]
    have "im_read_loop oc m cursor len out =
        (case ref_read (im_byte m) (unat cursor + taken) (?n - taken) of
           Inl (x, k) \<Rightarrow> Err \<lparr>ge_addr = of_nat x, ge_len = k\<rparr> | Inr bs \<Rightarrow> Ok (out @ part @ bs))"
      unfolding step by (simp add: chunk(2,6) split: sum.split)
    also have "\<dots> = (case ref_read (im_byte m) (unat cursor) (taken + (?n - taken)) of
        Inl (x, k) \<Rightarrow> Err \<lparr>ge_addr = of_nat x, ge_len = k\<rparr> | Inr bs \<Rightarrow> Ok (out @ bs))"
      by (simp add: ref_read_add chunk(4) split: sum.split)
    also have "taken + (?n - taken) = ?n" using chunk(3) by simp
    finally show ?thesis .
  qed
qed

lemma im_read_spec:
  assumes "im_inv m" and "unat a + n < 2 ^ 64"
  shows "im_read oc m a n =
     (if isize_max < n then Panic CapacityOverflow
      else case ref_read (im_byte m) (unat a) n of
             Inl (x, k) \<Rightarrow> Err \<lparr>ge_addr = of_nat x, ge_len = k\<rparr>
           | Inr bs \<Rightarrow> Ok bs)"
  using assms by (simp add: im_read_def vec_with_capacity_def im_read_loop_eq split: sum.split)

text \<open>C26: the chunked read of \<open>InMemGuest\<close> agrees with reading byte by byte, for every well-formed
  memory and every range that ends inside the address space: it returns the bytes when all are
  mapped, and otherwise the first unmapped address with the number of bytes still missing there.
  In particular the loop always ends and never panics; only a length above \<open>isize::MAX\<close> does.\<close>

theorem im_read_eq_ref:
  assumes "im_inv m" and "unat a + n < 2 ^ 64"
  shows "im_read oc m a n =
     (if isize_max < n then Panic CapacityOverflow
      else case ref_read (im_byte m) (unat a) n of
             Inl (x, k) \<Rightarrow> Err \<lparr>ge_addr = of_nat x, ge_len = k\<rparr>
           | Inr bs \<Rightarrow> Ok bs)"
  using assms by (rule im_read_spec)

section \<open>Writes\<close>

definition upd_bytes :: "(nat \<Rightarrow> u8 option) \<Rightarrow> nat \<Rightarrow> bytes \<Rightarrow> nat \<Rightarrow> u8 option" where
  "upd_bytes f a bs x = (if a \<le> x \<and> x < a + length bs then Some (bs ! (x - a)) else f x)"

lemma ref_write_append:
  "ref_write f a (xs @ ys) =
     (case ref_write f a xs of
        (Inl (x, k), f') \<Rightarrow> (Inl (x, k + length ys), f')
      | (Inr _, f') \<Rightarrow> ref_write f' (a + length xs) ys)"
  by (induction xs arbitrary: f a) (auto simp del: fun_upd_apply split: prod.split sum.split)

lemma ref_write_all:
  "(\<forall>i < length bs. f (a + i) \<noteq> None) \<Longrightarrow> ref_write f a bs = (Inr (), upd_bytes f a bs)"
proof (induction bs arbitrary: f a)
  case Nil
  then show ?case by (auto simp: upd_bytes_def fun_eq_iff)
next
  case (Cons b bs)
  have "f a \<noteq> None" using Cons.prems by (metis add.right_neutral length_greater_0_conv list.distinct(1))
  moreover have "\<forall>i < length bs. (f(a := Some b)) (Suc a + i) \<noteq> None"
    using Cons.prems by auto
  ultimately have "ref_write f a (b # bs) = (Inr (), upd_bytes (f(a := Some b)) (Suc a) bs)"
    using Cons.IH [of "f(a := Some b)" "Suc a"] by (simp del: fun_upd_apply)
  also have "upd_bytes (f(a := Some b)) (Suc a) bs = upd_bytes f a (b # bs)"
  proof
    fix x
    show "upd_bytes (f(a := Some b)) (Suc a) bs x = upd_bytes f a (b # bs) x"
    proof (cases "a < x")
      case True
      then have "x - a = Suc (x - Suc a)" by simp
      then show ?thesis using True by (auto simp: upd_bytes_def)
    next
      case False
      then show ?thesis by (auto simp: upd_bytes_def)
    qed
  qed
  finally show ?case .
qed

lemma ref_write_Inr_iff: "fst (ref_write f a bs) = Inr () \<longleftrightarrow> (\<forall>i < length bs. f (a + i) \<noteq> None)"
proof (induction bs arbitrary: f a)
  case (Cons b bs)
  show ?case
  proof (cases "f a")
    case None
    then show ?thesis by (auto intro!: exI [of _ 0])
  next
    case (Some c)
    then show ?thesis using Cons by (auto simp: less_Suc_eq_0_disj)
  qed
qed simp

lemma ref_write_dom: "dom (snd (ref_write f a bs)) = dom f"
proof (induction bs arbitrary: f a)
  case (Cons b bs)
  have "dom (f(a := Some b)) = dom f" if "f a \<noteq> None" using that by auto
  then show ?case using Cons.IH [of "f(a := Some b)"] by (simp del: fun_upd_apply dom_fun_upd)
qed simp

lemma bt_insert_existing:
  "bt_inv m \<Longrightarrow> k \<in> fst ` set m \<Longrightarrow> bt_insert k v m = map (\<lambda>e. if fst e = k then (k, v) else e) m"
proof (induction k v m rule: bt_insert.induct)
  case (2 k v k' v' m)
  then show ?case by (auto intro!: map_idI [symmetric])
qed simp

definition im_store :: "in_mem_guest \<Rightarrow> u64 \<Rightarrow> bytes \<Rightarrow> in_mem_guest" where
  "im_store m base bs = m\<lparr>im_bytes := bt_insert base bs (im_bytes m)\<rparr>"

lemma im_store_map:
  assumes "im_inv m" and "(base, bs) \<in> set (im_bytes m)"
  shows "im_bytes (im_store m base bs') = map (\<lambda>e. if fst e = base then (base, bs') else e) (im_bytes m)"
proof -
  have "base \<in> fst ` set (im_bytes m)" using assms(2) by force
  then show ?thesis
    using bt_insert_existing [OF im_inv_bt [OF assms(1)]] by (simp add: im_store_def)
qed

lemma im_same_base:
  "im_inv m \<Longrightarrow> (base, bs) \<in> set (im_bytes m) \<Longrightarrow> e \<in> set (im_bytes m) \<Longrightarrow> fst e = base \<Longrightarrow> e = (base, bs)"
  using bt_inv_distinct [OF im_inv_bt] by (metis eq_key_imp_eq_value prod.collapse)

lemma im_store_inv:
  assumes inv: "im_inv m" and e: "(base, bs) \<in> set (im_bytes m)" and len: "length bs' = length bs"
  shows "im_inv (im_store m base bs')"
proof -
  let ?f = "\<lambda>e. if fst e = base then (base, bs') else e"
  have same: "fst (?f x) = fst x \<and> length (snd (?f x)) = length (snd x)"
    if "x \<in> set (im_bytes m)" for x
    using im_same_base [OF inv e that] len by (cases x) auto
  have "sorted_wrt (\<lambda>x y. entry_before (?f x) (?f y)) (im_bytes m)"
  proof (rule sorted_wrt_mono_rel)
    show "sorted_wrt entry_before (im_bytes m)" using inv by (simp add: im_inv_def)
    show "entry_before (?f x) (?f y)"
      if "x \<in> set (im_bytes m)" "y \<in> set (im_bytes m)" "entry_before x y" for x y
      using same [OF that(1)] same [OF that(2)] that(3) unfolding entry_before_def by simp
  qed
  moreover have "\<forall>x \<in> set (im_bytes m). unat (fst (?f x)) + length (snd (?f x)) \<le> 2 ^ 64"
    using same inv by (simp add: im_inv_def)
  ultimately show ?thesis
    unfolding im_inv_def im_store_map [OF inv e] sorted_wrt_map set_map ball_simps(9) by simp
qed

lemma im_store_byte:
  assumes inv: "im_inv m" and e: "(base, bs) \<in> set (im_bytes m)" and len: "length bs' = length bs"
  shows "im_byte (im_store m base bs') x =
           (if in_entry x (base, bs) then Some (bs' ! (x - unat base)) else im_byte m x)"
proof (cases "in_entry x (base, bs)")
  case True
  have "(base, bs') \<in> set (im_bytes (im_store m base bs'))"
    using e unfolding im_store_map [OF inv e] by force
  moreover have "in_entry x (base, bs')" using True len by (simp add: in_entry_def)
  ultimately show ?thesis
    using True im_byte_in_entry [OF im_store_inv [OF inv e len]] by simp
next
  case other: False
  show ?thesis
  proof (cases "im_byte m x")
    case None
    then have "im_byte (im_store m base bs') x = None"
      using other len unfolding im_byte_None_iff im_store_map [OF inv e]
      by (auto simp: in_entry_def)
    then show ?thesis using None other by simp
  next
    case (Some b)
    then obtain b2 bs2 where e2: "(b2, bs2) \<in> set (im_bytes m)" "in_entry x (b2, bs2)"
      by (metis im_byte_None_iff option.distinct(1) surj_pair)
    then have "b2 \<noteq> base" using other im_same_base [OF inv e] by fastforce
    then have "(b2, bs2) \<in> set (im_bytes (im_store m base bs'))"
      using e2(1) unfolding im_store_map [OF inv e] by force
    then show ?thesis
      using other e2 im_byte_in_entry [OF inv e2] im_byte_in_entry [OF im_store_inv [OF inv e len]]
      by simp
  qed
qed

text \<open>One chunk of a write.\<close>

lemma im_chunk_store:
  assumes inv: "im_inv m" and reg: "im_region m c = Some (base, bs)"
    and cp: "copy_at (unat (c - base)) src bs = Ok bs'"
  shows "im_inv (im_store m base bs') \<and>
         im_byte (im_store m base bs') = upd_bytes (im_byte m) (unat c) src"
proof -
  have e: "(base, bs) \<in> set (im_bytes m)" "in_entry (unat c) (base, bs)"
    using inv reg by (simp_all add: im_region_Some_iff)
  then have off: "unat (c - base) = unat c - unat base" and le: "unat base \<le> unat c"
    by (simp_all add: in_entry_def unat_sub64 word_le_nat_alt)
  have len: "length bs' = length bs" and fit: "unat c - unat base + length src \<le> length bs"
    using cp off by auto
  have nth: "bs' ! i = (if unat c - unat base \<le> i \<and> i < unat c - unat base + length src
                        then src ! (i - (unat c - unat base)) else bs ! i)" if "i < length bs" for i
    using nth_copy_at [OF cp that] by (simp add: off)
  have "im_byte (im_store m base bs') x = upd_bytes (im_byte m) (unat c) src x" for x
  proof (cases "in_entry x (base, bs)")
    case True
    then have "x - unat base < length bs" by (auto simp: in_entry_def)
    from nth [OF this] show ?thesis
      using True le fit im_byte_in_entry [OF inv e(1) True]
      by (auto simp: im_store_byte [OF inv e(1) len] upd_bytes_def in_entry_def)
  next
    case False
    then show ?thesis
      using le fit by (auto simp: im_store_byte [OF inv e(1) len] upd_bytes_def in_entry_def)
  qed
  then show ?thesis using im_store_inv [OF inv e(1) len] by auto
qed

text \<open>One chunk of a write: the bytes that fit into the region replace those that are there, and the
  memory with the new region is what writing them one by one gives.\<close>

lemma im_write_chunk:
  assumes "im_inv m" and reg: "im_region m cursor = Some (base, bs)"
    and idx: "idx < length data" and "unat cursor + (length data - idx) < 2 ^ 64"
  defines "offset \<equiv> unat (cursor - base)"
  defines "taken \<equiv> min (length data - idx) (length bs - offset)"
  defines "src \<equiv> sub_slice idx (idx + taken) data"
  defines "bs' \<equiv> take offset bs @ src @ drop (offset + length src) bs"
  shows "r_bind (slice_index idx (idx + taken) data) (\<lambda>src. copy_at offset src bs) = (Ok bs' :: (gm_error, bytes) result)"
    and "idx + taken \<le> length data" and "im_inv (im_store m base bs')"
    and "ref_write (im_byte m) (unat cursor) (drop idx data) =
           ref_write (im_byte (im_store m base bs')) (unat cursor + taken) (drop (idx + taken) data)"
    and "add64 oc cursor (of_nat taken) = Ok (cursor + of_nat taken)"
    and "unat (cursor + of_nat taken) = unat cursor + taken"
proof -
  have off: "offset < length bs" using im_region_chunk [OF reg] by (simp add: offset_def)
  have rest: "idx + taken \<le> length data" "taken \<le> length bs - offset" using idx by (simp_all add: taken_def)
  have len: "length src = taken" using rest by (simp add: src_def)
  have cp: "copy_at offset src bs = Ok bs'" using rest off by (simp add: len bs'_def)
  then show "r_bind (slice_index idx (idx + taken) data) (\<lambda>src. copy_at offset src bs) =
      (Ok bs' :: (gm_error, bytes) result)"
    using rest by (simp add: slice_index_def src_def del: copy_at_eq_Ok)
  have m': "im_inv (im_store m base bs')" "im_byte (im_store m base bs') = upd_bytes (im_byte m) (unat cursor) src"
    using im_chunk_store [OF assms(1) reg] cp unfolding offset_def by blast+
  then show "im_inv (im_store m base bs')" by simp
  have mapped: "ref_write (im_byte m) (unat cursor) src = (Inr (), im_byte (im_store m base bs'))"
    using im_chunk_bytes [OF assms(1) reg] rest(2)
    by (subst ref_write_all) (auto simp: len m'(2) offset_def)
  have split: "drop idx data = src @ drop (idx + taken) data"
    unfolding src_def sub_slice_def by (metis append_take_drop_id drop_drop add.commute add_diff_cancel_left')
  show "ref_write (im_byte m) (unat cursor) (drop idx data) =
      ref_write (im_byte (im_store m base bs')) (unat cursor + taken) (drop (idx + taken) data)"
    unfolding split ref_write_append by (simp add: mapped len)
  have fits: "unat cursor + taken < 2 ^ 64" using assms(4) rest(1) by linarith
  show "add64 oc cursor (of_nat taken) = Ok (cursor + of_nat taken)" by (rule add64_advance [OF fits])
  show "unat (cursor + of_nat taken) = unat cursor + taken" by (rule unat_advance [OF fits])
  show "idx + taken \<le> length data" by (rule rest(1))
qed

lemma im_write_loop_eq:
  assumes "im_inv m" and "idx \<le> length data" and "unat cursor + (length data - idx) < 2 ^ 64"
  shows "let w = im_write_loop oc m cursor data idx;
             r = ref_write (im_byte m) (unat cursor) (drop idx data)
         in fst w = (case fst r of Inl (x, k) \<Rightarrow> Err \<lparr>ge_addr = of_nat x, ge_len = k\<rparr> | Inr _ \<Rightarrow> Ok ()) \<and>
            im_byte (snd w) = snd r \<and> im_inv (snd w)"
  using assms
proof (induction oc m cursor data idx rule: im_write_loop.induct)
  case (1 oc m cursor data idx)
  consider (stop) "\<not> idx < length data" | (none) "idx < length data" "im_region m cursor = None"
    | (some) base bs where "idx < length data" "im_region m cursor = Some (base, bs)"
    by (cases "im_region m cursor") auto
  then show ?case
  proof cases
    case stop
    then show ?thesis using "1.prems" by (simp add: im_write_loop.simps)
  next
    case none
    then have "im_byte m (unat cursor) = None" using "1.prems" by (simp add: im_region_None_iff)
    moreover have "drop idx data = data ! idx # drop (Suc idx) data" using none by (simp add: Cons_nth_drop_Suc)
    moreover have "length data - idx = Suc (length data - Suc idx)" using none by simp
    ultimately show ?thesis
      using none "1.prems"(1) by (simp add: im_write_loop.simps [of oc m cursor])
  next
    case (some base bs)
    define offset taken where defs: "offset = unat (cursor - base)" "taken = min (length data - idx) (length bs - offset)"
    define src where "src = sub_slice idx (idx + taken) data"
    define bs' where "bs' = take offset bs @ src @ drop (offset + length src) bs"
    note chunk = im_write_chunk [OF "1.prems"(1) some(2,1) "1.prems"(3), folded defs, folded defs src_def, folded bs'_def]
    have step: "im_write_loop oc m cursor data idx =
        im_write_loop oc (im_store m base bs') (cursor + of_nat taken) data (idx + taken)"
      using some by (simp add: im_write_loop.simps [of oc m cursor] Let_def chunk im_store_def flip: defs)
    have "unat (cursor + of_nat taken) + (length data - (idx + taken)) < 2 ^ 64"
      using "1.prems"(3) chunk(2) by (simp add: chunk(6))
    from "1.IH" [OF some(1) refl some(2) refl defs chunk(1) _ chunk(5,3,2) [unfolded im_store_def] this]
    show ?thesis unfolding step chunk(4) by (simp add: chunk(6) im_store_def)
  qed
qed

text \<open>C27: the chunked write of \<open>InMemGuest\<close> agrees with writing byte by byte, effects included:
  when every address is mapped it succeeds and changes exactly those bytes; otherwise it reports
  the first unmapped address and the bytes left, and everything before that address has been
  written. It keeps the memory well-formed and never panics.\<close>

theorem im_write_eq_ref:
  assumes "im_inv m" and "unat a + length data < 2 ^ 64"
  shows "let w = im_write oc m a data; r = ref_write (im_byte m) (unat a) data
         in fst w = (case fst r of Inl (x, k) \<Rightarrow> Err \<lparr>ge_addr = of_nat x, ge_len = k\<rparr> | Inr _ \<Rightarrow> Ok ()) \<and>
            im_byte (snd w) = snd r \<and> im_inv (snd w)"
  using im_write_loop_eq [of m 0 data a oc] assms by (simp add: im_write_def)

section \<open>Anonymous mappings\<close>

definition im_free :: "in_mem_guest \<Rightarrow> u64 \<Rightarrow> nat \<Rightarrow> bool" where
  "im_free m base len \<longleftrightarrow>
     (\<forall>e \<in> set (im_bytes m). fst e \<noteq> base \<and>
        (unat base + len \<le> unat (fst e) \<or> unat (fst e) + length (snd e) \<le> unat base))"

lemma sorted_entries_insert:
  "sorted_wrt entry_before es \<Longrightarrow> (\<forall>e \<in> set es. entry_before e (k, v) \<or> entry_before (k, v) e) \<Longrightarrow>
     sorted_wrt entry_before (bt_insert k v es) \<and> set (bt_insert k v es) = insert (k, v) (set es)"
proof (induction k v es rule: bt_insert.induct)
  case (2 k v k' v' m)
  consider "entry_before (k', v') (k, v)" "\<not> k \<le> k'" | "entry_before (k, v) (k', v')" "k < k'"
    using 2(3) by (auto simp: entry_before_def)
  then show ?case
  proof cases
    case 1
    then show ?thesis using 2 by auto
  next
    case 2
    then have "entry_before (k, v) e" if "e \<in> set m" for e
      using "2.prems"(1) that by (fastforce simp: entry_before_def)
    then show ?thesis using 2 "2.prems"(1) by auto
  qed
qed simp

lemma im_map_anon_free:
  assumes inv: "im_inv m" and free: "im_free m base len"
    and len: "len \<le> isize_max" and fit: "unat base + len \<le> 2 ^ 64"
  shows "\<exists>m'. im_map_anon m base len prot = (Ok (), m') \<and> im_inv m' \<and>
              im_byte m' = upd_bytes (im_byte m) (unat base) (replicate len 0)"
proof -
  let ?v = "replicate len 0 :: bytes"
  let ?m' = "m\<lparr>im_bytes := bt_insert base ?v (im_bytes m)\<rparr>"
  have "\<forall>e \<in> set (im_bytes m). entry_before e (base, ?v) \<or> entry_before (base, ?v) e"
    using free by (auto simp: im_free_def entry_before_def word_less_nat_alt word_unat_eq_iff)
  then have ins: "sorted_wrt entry_before (im_bytes ?m')"
      "set (im_bytes ?m') = insert (base, ?v) (set (im_bytes m))"
    using inv sorted_entries_insert [of "im_bytes m" base ?v] by (simp_all add: im_inv_def)
  then have inv': "im_inv ?m'" using inv fit by (auto simp: im_inv_def)
  have byte: "im_byte ?m' x = upd_bytes (im_byte m) (unat base) ?v x" for x
  proof (cases "in_entry x (base, ?v)")
    case True
    moreover have "(base, ?v) \<in> set (im_bytes ?m')" by (simp only: ins(2) insertI1)
    ultimately have "im_byte ?m' x = Some (?v ! (x - unat base))"
      using im_byte_in_entry [OF inv'] by blast
    then show ?thesis using True by (simp add: upd_bytes_def in_entry_def)
  next
    case False
    have "im_byte ?m' x = im_byte m x"
    proof (cases "im_byte m x")
      case None
      then have "im_byte ?m' x = None" using False ins(2) by (simp add: im_byte_None_iff)
      then show ?thesis using None by simp
    next
      case (Some y)
      then obtain b2 bs2 where e2: "(b2, bs2) \<in> set (im_bytes m)" "in_entry x (b2, bs2)"
        by (metis im_byte_None_iff option.distinct(1) surj_pair)
      then have "(b2, bs2) \<in> set (im_bytes ?m')" using ins(2) by simp
      then show ?thesis using e2 im_byte_in_entry [OF inv e2] im_byte_in_entry [OF inv'] by simp
    qed
    then show ?thesis using False by (auto simp: upd_bytes_def in_entry_def)
  qed
  have "base \<notin> fst ` set (im_bytes m)" using free by (auto simp: im_free_def)
  then have "map_of (im_bytes m) base = None" by (simp add: map_of_eq_None_iff)
  then have "im_map_anon m base len prot = (Ok (), ?m')"
    using len by (simp add: im_map_anon_def vec_zeroed_def)
  with inv' byte show ?thesis by auto
qed

section \<open>The contract of a guest memory\<close>

text \<open>What every backend gives a reader: a successful read has the length asked for, and that
  length could be allocated.\<close>

locale guest_reader =
  fixes gread :: "'m \<Rightarrow> u64 \<Rightarrow> nat \<Rightarrow> (gm_error, bytes) result"
  assumes read_length: "gread m a n = Ok bs \<Longrightarrow> length bs = n"
    and read_bound: "gread m a n = Ok bs \<Longrightarrow> n \<le> isize_max"
begin

lemma read_ret: "gread m a n = Ok bs \<Longrightarrow> length bs = n \<and> length bs < 2 ^ 63"
  using read_length read_bound by (fastforce simp: isize_max_def)

end

text \<open>A memory that reads and writes the bytes of a partial address map.\<close>

locale guest_memory = guest_reader gread
  for gread :: "'m \<Rightarrow> u64 \<Rightarrow> nat \<Rightarrow> (gm_error, bytes) result" +
  fixes gwrite :: "'m \<Rightarrow> u64 \<Rightarrow> bytes \<Rightarrow> (gm_error, unit) result \<times> 'm"
    and byte_at :: "'m \<Rightarrow> nat \<Rightarrow> u8 option"
    and inv :: "'m \<Rightarrow> bool"
  assumes read_ref: "inv m \<Longrightarrow> unat a + n < 2 ^ 64 \<Longrightarrow> n \<le> isize_max \<Longrightarrow>
      (case ref_read (byte_at m) (unat a) n of
         Inl _ \<Rightarrow> is_Err (gread m a n) | Inr bs \<Rightarrow> gread m a n = Ok bs)"
    and write_ok: "inv m \<Longrightarrow> unat a + length d < 2 ^ 64 \<Longrightarrow>
      \<forall>i < length d. byte_at m (unat a + i) \<noteq> None \<Longrightarrow>
      \<exists>m'. gwrite m a d = (Ok (), m') \<and> inv m' \<and> byte_at m' = upd_bytes (byte_at m) (unat a) d"
    and write_err: "inv m \<Longrightarrow> unat a + length d < 2 ^ 64 \<Longrightarrow>
      \<exists>i < length d. byte_at m (unat a + i) = None \<Longrightarrow>
      \<exists>e m'. gwrite m a d = (Err e, m') \<and> inv m' \<and> dom (byte_at m') = dom (byte_at m)"
begin

lemma read_Ok_iff:
  assumes "inv m" and "unat a + n < 2 ^ 64" and "n \<le> isize_max"
  shows "gread m a n = Ok bs \<longleftrightarrow> length bs = n \<and> (\<forall>i < n. byte_at m (unat a + i) = Some (bs ! i))"
proof (cases "ref_read (byte_at m) (unat a) n")
  case (Inl e)
  then have "is_Err (gread m a n)" using read_ref [OF assms] by simp
  then have "gread m a n \<noteq> Ok bs" by auto
  then show ?thesis using Inl ref_read_Inr_iff [of "byte_at m" "unat a" n bs] by simp
next
  case (Inr bs')
  then have "gread m a n = Ok bs'" using read_ref [OF assms] by simp
  then show ?thesis using Inr ref_read_Inr_iff [of "byte_at m" "unat a" n bs] by auto
qed

lemma write_cases:
  assumes "inv m" and "unat a + length d < 2 ^ 64"
  obtains (ok) m' where "gwrite m a d = (Ok (), m')" "inv m'"
      "byte_at m' = upd_bytes (byte_at m) (unat a) d" "\<forall>i < length d. byte_at m (unat a + i) \<noteq> None"
    | (err) e m' where "gwrite m a d = (Err e, m')" "inv m'" "dom (byte_at m') = dom (byte_at m)"
  using write_ok [OF assms] write_err [OF assms] by metis

lemma write_dom:
  assumes "inv m" and "unat a + length d < 2 ^ 64"
  shows "inv (snd (gwrite m a d)) \<and> dom (byte_at (snd (gwrite m a d))) = dom (byte_at m)"
  using assms
proof (cases rule: write_cases)
  case (ok m')
  have "byte_at m x \<noteq> None" if "unat a \<le> x" "x < unat a + length d" for x
    using ok(4) that by (metis le_add_diff_inverse nat_add_left_cancel_less)
  then have "dom (upd_bytes (byte_at m) (unat a) d) = dom (byte_at m)"
    by (auto simp: upd_bytes_def dom_def)
  with ok show ?thesis by simp
qed simp

lemma write_read:
  assumes "inv m" and "unat a + length d < 2 ^ 64" and "length d \<le> isize_max"
    and "gwrite m a d = (Ok (), m')"
  shows "gread m' a (length d) = Ok d"
proof -
  from assms(1,2) have "inv m' \<and> byte_at m' = upd_bytes (byte_at m) (unat a) d"
    by (cases rule: write_cases) (use assms(4) in auto)
  then show ?thesis using assms(2,3) by (simp add: read_Ok_iff upd_bytes_def)
qed

lemma write_frame:
  assumes "inv m" and "unat a + length d < 2 ^ 64" and "gwrite m a d = (Ok (), m')"
    and "unat b + n < 2 ^ 64" and "n \<le> isize_max"
    and "unat b + n \<le> unat a \<or> unat a + length d \<le> unat b"
  shows "gread m' b n = Ok bs \<longleftrightarrow> gread m b n = Ok bs"
proof -
  from assms(1,2) have m': "inv m' \<and> byte_at m' = upd_bytes (byte_at m) (unat a) d"
    by (cases rule: write_cases) (use assms(3) in auto)
  then have "byte_at m' (unat b + i) = byte_at m (unat b + i)" if "i < n" for i
    using assms(6) that by (auto simp: upd_bytes_def)
  then show ?thesis using m' assms(1,4,5) by (simp add: read_Ok_iff)
qed

end

lemma im_read_loop_length: "im_read_loop oc m cursor len out = Ok bs \<Longrightarrow> length out \<le> len \<Longrightarrow> length bs = len"
proof (induction oc m cursor len out rule: im_read_loop.induct)
  case (1 oc m cursor len out)
  then show ?case
    by (auto simp: im_read_loop.simps [of oc m cursor] Let_def split: if_splits option.splits)
qed

interpretation im: guest_memory "im_read oc" "im_write oc" im_byte im_inv for oc
proof unfold_locales
  fix m a n bs
  assume rd: "im_read oc m a n = Ok bs"
  then show "length bs = n" by (auto simp: im_read_def vec_with_capacity_def im_read_loop_length split: if_splits)
  show "n \<le> isize_max" using rd by (auto simp: im_read_def vec_with_capacity_def split: if_splits)
next
  fix m and a :: u64 and n
  assume "im_inv m" and "unat a + n < 2 ^ 64" and "n \<le> isize_max"
  then show "case ref_read (im_byte m) (unat a) n of
         Inl _ \<Rightarrow> is_Err (im_read oc m a n) | Inr bs \<Rightarrow> im_read oc m a n = Ok bs"
    by (simp add: im_read_def vec_with_capacity_def im_read_loop_eq split: sum.split)
next
  fix m and a :: u64 and d :: bytes
  assume m: "im_inv m" "unat a + length d < 2 ^ 64"
  let ?w = "im_write oc m a d" and ?r = "ref_write (im_byte m) (unat a) d"
  have w: "fst ?w = (case fst ?r of Inl (x, k) \<Rightarrow> Err \<lparr>ge_addr = of_nat x, ge_len = k\<rparr> | Inr _ \<Rightarrow> Ok ())"
      "im_byte (snd ?w) = snd ?r" "im_inv (snd ?w)"
    using im_write_loop_eq [of m 0 d a oc] m by (simp_all add: im_write_def Let_def)
  {
    assume "\<forall>i < length d. im_byte m (unat a + i) \<noteq> None"
    then have "?r = (Inr (), upd_bytes (im_byte m) (unat a) d)" by (rule ref_write_all)
    then show "\<exists>m'. ?w = (Ok (), m') \<and> im_inv m' \<and> im_byte m' = upd_bytes (im_byte m) (unat a) d"
      using w by (intro exI [of _ "snd ?w"]) (simp add: prod_eq_iff)
  next
    assume "\<exists>i < length d. im_byte m (unat a + i) = None"
    then have "fst ?r \<noteq> Inr ()" by (auto simp: ref_write_Inr_iff)
    then obtain x k where "fst ?r = Inl (x, k)" by (cases "fst ?r") auto
    then show "\<exists>e m'. ?w = (Err e, m') \<and> im_inv m' \<and> dom (im_byte m') = dom (im_byte m)"
      using w ref_write_dom [of "im_byte m" "unat a" d]
      by (intro exI [of _ "\<lparr>ge_addr = of_nat x, ge_len = k\<rparr>"] exI [of _ "snd ?w"])
         (simp add: prod_eq_iff)
  }
qed

section \<open>Properties\<close>

text \<open>What was written is read back, and reads of ranges that do not meet the written one are
  unchanged.\<close>

theorem im_write_read_roundtrip:
  assumes "im_inv m" and "unat a + length d < 2 ^ 64" and "length d \<le> isize_max"
    and "im_write oc m a d = (Ok (), m')"
  shows "im_read oc m' a (length d) = Ok d \<and>
     (\<forall>b n bs. unat b + n < 2 ^ 64 \<and> n \<le> isize_max \<and>
        (unat b + n \<le> unat a \<or> unat a + length d \<le> unat b) \<longrightarrow>
        (im_read oc m' b n = Ok bs \<longleftrightarrow> im_read oc m b n = Ok bs))"
  using im.write_read [OF assms] im.write_frame [OF assms(1,2,4)] by blast

text \<open>Mapping a free range succeeds, keeps the memory well-formed and adds exactly that range,
  filled with zeros; mapping a base that is already mapped is refused and changes nothing.\<close>

theorem im_map_anon_cases:
  assumes "im_inv m"
  shows "(im_free m base len \<and> len \<le> isize_max \<and> unat base + len \<le> 2 ^ 64 \<longrightarrow>
            (\<exists>m'. im_map_anon m base len prot = (Ok (), m') \<and> im_inv m' \<and>
               im_byte m' = upd_bytes (im_byte m) (unat base) (replicate len 0))) \<and>
         (map_of (im_bytes m) base \<noteq> None \<longrightarrow>
            im_map_anon m base len prot = (Err \<lparr>ge_addr = base, ge_len = len\<rparr>, m))"
  using im_map_anon_free [OF assms, of base len prot] by (auto simp: im_map_anon_def)

text \<open>C38: only an equal base is refused. A second mapping inside the first is accepted, and from
  then on the bytes of the first mapping behind it cannot be reached: the lookup takes the entry
  with the greatest base, not the one that contains the address.\<close>

theorem im_map_anon_overlap_hides:
  assumes "b1 < b2" and "unat b2 + len2 \<le> unat a" and "unat a < unat b1 + len1"
    and "unat b1 + len1 < 2 ^ 64" and "len1 \<le> isize_max" and "len2 \<le> isize_max"
  shows "let (r1, m1) = im_map_anon im_new b1 len1 p1; (r2, m2) = im_map_anon m1 b2 len2 p2
         in r1 = Ok () \<and> r2 = Ok () \<and> im_read oc m1 a 1 = Ok [0] \<and> is_Err (im_read oc m2 a 1)"
proof -
  have "im_free im_new b1 len1" by (simp add: im_free_def im_new_def)
  from im_map_anon_free [OF im_new_inv this assms(5), of p1] assms(4)
  obtain m1 where m1: "im_map_anon im_new b1 len1 p1 = (Ok (), m1)" "im_inv m1"
    "im_byte m1 = upd_bytes (im_byte im_new) (unat b1) (replicate len1 0)" by auto
  have bytes1: "im_bytes m1 = [(b1, replicate len1 0)]"
    using m1(1) assms(5) by (auto simp: im_map_anon_def im_new_def vec_zeroed_def)
  have b2a: "b2 \<le> a" "unat b1 < unat b2" using assms(1,2) by (simp_all add: word_le_nat_alt word_less_nat_alt)
  have read1: "im_read oc m1 a 1 = Ok [0]"
  proof (rule im.read_Ok_iff [THEN iffD2])
    show "im_inv m1" by (rule m1(2))
    show "unat a + 1 < 2 ^ 64" using assms(3,4) by linarith
    show "(1 :: nat) \<le> isize_max" by (simp add: isize_max_def)
    show "length [0 :: u8] = 1 \<and> (\<forall>i < 1. im_byte m1 (unat a + i) = Some ([0] ! i))"
      using assms b2a by (simp add: m1(3) upd_bytes_def)
  qed
  define m2 where "m2 = m1\<lparr>im_bytes := [(b1, replicate len1 0), (b2, replicate len2 0)]\<rparr>"
  have "im_map_anon m1 b2 len2 p2 = (Ok (), m2)"
    using assms(1,6) by (auto simp: im_map_anon_def bytes1 vec_zeroed_def m2_def)
  moreover have "im_region m2 a = None"
  proof -
    have "\<not> unat (a - b2) < len2" using b2a assms(2) by (simp add: unat_sub64)
    moreover have "bt_floor a (im_bytes m2) = Some (b2, replicate len2 0)"
      using b2a assms(1) by (auto simp: m2_def bt_floor_def)
    ultimately show ?thesis by (simp add: im_region_def)
  qed
  then have "is_Err (im_read oc m2 a 1)"
    by (simp add: im_read_def vec_with_capacity_def isize_max_def im_read_loop.simps)
  ultimately show ?thesis using m1(1) read1 by simp
qed

text \<open>A memory for the witnesses: 32 zero bytes at \<open>0x400000\<close>.\<close>

definition sample_mem :: in_mem_guest where
  "sample_mem = \<lparr>im_bytes = [(0x400000, replicate 32 0)]\<rparr>"

lemma sample_mem_inv: "im_inv sample_mem"
  by (simp add: sample_mem_def im_inv_def)

lemma sample_mem_byte: "im_byte sample_mem x = (if 0x400000 \<le> x \<and> x < 0x400020 then Some 0 else None)"
  by (auto simp: im_byte_def sample_mem_def in_entry_def)

theorem im_read_eq_ref_witness: "im_read True sample_mem 0x40001f 2 = Err \<lparr>ge_addr = 0x400020, ge_len = 1\<rparr>"
  using im_read_eq_ref [OF sample_mem_inv, of "0x40001f" 2 True]
  by (simp add: sample_mem_byte isize_max_def ref_read_numeral)

theorem im_write_eq_ref_witness:
  "fst (im_write False sample_mem 0x40001f [7, 8]) = Err \<lparr>ge_addr = 0x400020, ge_len = 1\<rparr> \<and>
   im_byte (snd (im_write False sample_mem 0x40001f [7, 8])) 0x40001f = Some 7"
  using im_write_eq_ref [OF sample_mem_inv, of "0x40001f" "[7, 8]" False]
  by (simp add: sample_mem_byte Let_def)

theorem im_write_read_roundtrip_witness:
  "\<exists>m'. im_write True sample_mem 0x400000 [104, 105] = (Ok (), m') \<and> im_read True m' 0x400000 2 = Ok [104, 105]"
proof -
  have "\<forall>i < length [104, 105 :: u8]. im_byte sample_mem (unat (0x400000 :: u64) + i) \<noteq> None"
    by (simp add: sample_mem_byte)
  then obtain m' where m': "im_write True sample_mem 0x400000 [104, 105] = (Ok (), m')"
    using im.write_ok [OF sample_mem_inv, of "0x400000" "[104, 105]" True] by auto
  have len: "length [104, 105 :: u8] = 2" by simp
  have "im_read True m' 0x400000 (length [104, 105 :: u8]) = Ok [104, 105]"
    using im_write_read_roundtrip [OF sample_mem_inv _ _ m'] by (simp add: isize_max_def)
  then show ?thesis using m' unfolding len by blast
qed

theorem im_map_anon_cases_witness:
  "\<exists>m'. im_map_anon sample_mem 0x1000 16 3 = (Ok (), m') \<and> im_inv m'"
  using im_map_anon_cases [OF sample_mem_inv, of "0x1000" 16 3]
  by (auto simp: im_free_def sample_mem_def isize_max_def)

theorem im_map_anon_overlap_hides_witness:
  "let (r1, m1) = im_map_anon im_new 0x1000 256 3; (r2, m2) = im_map_anon m1 0x1010 1 3
   in is_Err (im_read True m2 0x1020 1)"
  using im_map_anon_overlap_hides [of "0x1000" "0x1010" 1 "0x1020" 256 3 3 True]
  by (auto simp: isize_max_def split: prod.splits)

end
