(* ===== verification/Unicorn.thy ===== *)
theory Unicorn
  imports Vk_Mem
begin

text \<open>
  The emulator, a third-party crate, as a parameter: an \<open>engine\<close> is a record of the operations
  the sources call, over any type \<open>'uc\<close> of engine states. Errors are the strings the sources
  get with \<open>to_string()\<close>. Emulation is given step-wise: \<open>e_start\<close> prepares a run and
  \<open>e_advance\<close> goes on to the next thing the host sees, a trapped \<open>syscall\<close> instruction, the end
  of the run (a stop request, the timeout or the end address), a fault, or \<open>EvSpin\<close>: the guest
  executes for ever without any of these, as a jump to itself does when there is no timeout.

  What properties assume of an engine is named here and never built into a definition. All of it
  is documented behaviour of Unicorn:
  \<^item> \<open>regs_law\<close>: a written register reads back and the other ones stay, among those the sources name,
    none of which overlaps another; writing any register leaves the memory;
  \<^item> \<open>stop_law\<close>: after \<open>emu_stop\<close> the run ends before another instruction is trapped;
  \<^item> \<open>exec_law\<close>: running a guest, or asking it to stop, maps and unmaps no memory (only the host
    can do this);
  \<^item> \<open>mem_law\<close>: memory is a partial byte map; reads and writes succeed on mapped bytes and fail
    otherwise; mapping a page-aligned free range adds zero bytes;
  \<^item> \<open>map_law\<close>: what a mapping does for any arguments: it is refused, and nothing changes, or it was
    given whole free pages inside the address space; a write maps and unmaps nothing;
  \<^item> \<open>prot_law\<close>: mapped pages have the permissions they were mapped with, and nothing else that the
    sources do changes permissions. Reads and writes of the host do not look at permissions.

  \<open>set_up\<close> are the states an engine is in between its creation and its first run: created, with the hook
  installed, memory mapped and written, and registers the sources name written.

  The theory also holds \<open>UnicornGuest\<close>, the \<open>GuestMemory\<close> backend over a live engine
  (\<open>vkernel/mem.rs\<close>), with the contract of \<open>guest_memory\<close> under \<open>mem_law\<close>.
\<close>

section \<open>Registers and permissions\<close>

text \<open>The registers the sources name; \<open>OtherReg\<close> is any other register of \<open>RegisterX86\<close>, by its number.\<close>

datatype reg = RAX | RDI | RSI | RDX | R10 | R8 | R9 | RIP | RSP | OtherReg nat

fun named :: "reg \<Rightarrow> bool" where
  "named (OtherReg _) = False"
| "named _ = True"

datatype prot = Prot (can_read: bool) (can_write: bool) (can_exec: bool)

text \<open>\<open>Prot\<close> is a bit set: \<open>|=\<close> is union, \<open>Prot::NONE\<close> the empty set.\<close>

instantiation prot :: bounded_semilattice_sup_bot
begin

definition bot_prot :: prot where
  "bot_prot = Prot False False False"

definition sup_prot :: "prot \<Rightarrow> prot \<Rightarrow> prot" where
  "sup_prot p q = Prot (can_read p \<or> can_read q) (can_write p \<or> can_write q) (can_exec p \<or> can_exec q)"

definition less_eq_prot :: "prot \<Rightarrow> prot \<Rightarrow> bool" where
  "less_eq_prot p q \<longleftrightarrow>
     (can_read p \<longrightarrow> can_read q) \<and> (can_write p \<longrightarrow> can_write q) \<and> (can_exec p \<longrightarrow> can_exec q)"

definition less_prot :: "prot \<Rightarrow> prot \<Rightarrow> bool" where
  "less_prot p q \<longleftrightarrow> p \<le> q \<and> \<not> q \<le> p"

instance
  by standard
     (auto simp: bot_prot_def sup_prot_def less_eq_prot_def less_prot_def intro: prot.expand)

end

definition PROT_READ :: prot where "PROT_READ = Prot True False False"
definition PROT_WRITE :: prot where "PROT_WRITE = Prot False True False"
definition PROT_EXEC :: prot where "PROT_EXEC = Prot False False True"

lemmas prot_defs = PROT_READ_def PROT_WRITE_def PROT_EXEC_def sup_prot_def bot_prot_def

section \<open>The engine\<close>

datatype uc_event = EvSyscall | EvDone | EvFault string | EvSpin

record 'uc engine =
  e_new :: "string + 'uc"
  e_reg_read :: "'uc \<Rightarrow> reg \<Rightarrow> string + u64"
  e_reg_write :: "'uc \<Rightarrow> reg \<Rightarrow> u64 \<Rightarrow> (string + unit) \<times> 'uc"
  e_mem_map :: "'uc \<Rightarrow> u64 \<Rightarrow> u64 \<Rightarrow> prot \<Rightarrow> (string + unit) \<times> 'uc"
  e_mem_read :: "'uc \<Rightarrow> u64 \<Rightarrow> nat \<Rightarrow> string + (nat \<Rightarrow> u8)"
  e_mem_write :: "'uc \<Rightarrow> u64 \<Rightarrow> bytes \<Rightarrow> (string + unit) \<times> 'uc"
  e_hook_syscall :: "'uc \<Rightarrow> (string + unit) \<times> 'uc"
  e_emu_stop :: "'uc \<Rightarrow> (string + unit) \<times> 'uc"
  e_start :: "'uc \<Rightarrow> u64 \<Rightarrow> u64 \<Rightarrow> u64 \<Rightarrow> nat \<Rightarrow> 'uc"
  e_advance :: "'uc \<Rightarrow> uc_event \<times> 'uc"

definition regs_law :: "'uc engine \<Rightarrow> ('uc \<Rightarrow> nat \<Rightarrow> u8 option) \<Rightarrow> bool" where
  "regs_law E byte_at \<longleftrightarrow>
     (\<forall>uc r v. named r \<longrightarrow>
        fst (e_reg_write E uc r v) = Inr () \<and>
        e_reg_read E (snd (e_reg_write E uc r v)) r = Inr v \<and>
        (\<forall>r'. named r' \<and> r' \<noteq> r \<longrightarrow> e_reg_read E (snd (e_reg_write E uc r v)) r' = e_reg_read E uc r')) \<and>
     (\<forall>uc r v. byte_at (snd (e_reg_write E uc r v)) = byte_at uc)"

definition stop_law :: "'uc engine \<Rightarrow> bool" where
  "stop_law E \<longleftrightarrow> (\<forall>uc. fst (e_advance E (snd (e_emu_stop E uc))) = EvDone)"

definition exec_law :: "'uc engine \<Rightarrow> ('uc \<Rightarrow> nat \<Rightarrow> u8 option) \<Rightarrow> bool" where
  "exec_law E byte_at \<longleftrightarrow>
     (\<forall>uc. (\<forall>start until timeout count.
             dom (byte_at (e_start E uc start until timeout count)) = dom (byte_at uc)) \<and>
           dom (byte_at (snd (e_advance E uc))) = dom (byte_at uc) \<and>
           dom (byte_at (snd (e_emu_stop E uc))) = dom (byte_at uc))"

definition page_aligned :: "u64 \<Rightarrow> bool" where
  "page_aligned a \<longleftrightarrow> 4096 dvd unat a"

definition mem_law :: "'uc engine \<Rightarrow> ('uc \<Rightarrow> nat \<Rightarrow> u8 option) \<Rightarrow> bool" where
  "mem_law E byte_at \<longleftrightarrow>
     (\<forall>uc a n. unat a + n < 2 ^ 64 \<longrightarrow>
        (if \<forall>i < n. byte_at uc (unat a + i) \<noteq> None
         then \<exists>f. e_mem_read E uc a n = Inr f \<and> (\<forall>i < n. byte_at uc (unat a + i) = Some (f i))
         else \<exists>msg. e_mem_read E uc a n = Inl msg)) \<and>
     (\<forall>uc a d. unat a + length d < 2 ^ 64 \<longrightarrow>
        (if \<forall>i < length d. byte_at uc (unat a + i) \<noteq> None
         then fst (e_mem_write E uc a d) = Inr () \<and>
              byte_at (snd (e_mem_write E uc a d)) = upd_bytes (byte_at uc) (unat a) d
         else (\<exists>msg. fst (e_mem_write E uc a d) = Inl msg) \<and>
              dom (byte_at (snd (e_mem_write E uc a d))) = dom (byte_at uc))) \<and>
     (\<forall>uc a s p. page_aligned a \<and> page_aligned s \<and> s \<noteq> 0 \<and> unat a + unat s < 2 ^ 64 \<and>
        (\<forall>i < unat s. byte_at uc (unat a + i) = None) \<longrightarrow>
        fst (e_mem_map E uc a s p) = Inr () \<and>
        byte_at (snd (e_mem_map E uc a s p)) = upd_bytes (byte_at uc) (unat a) (replicate (unat s) 0))"

definition map_law :: "'uc engine \<Rightarrow> ('uc \<Rightarrow> nat \<Rightarrow> u8 option) \<Rightarrow> bool" where
  "map_law E byte_at \<longleftrightarrow>
     (\<forall>uc a s p.
        (case e_mem_map E uc a s p of
           (Inl _, uc') \<Rightarrow> byte_at uc' = byte_at uc
         | (Inr _, uc') \<Rightarrow>
             page_aligned a \<and> page_aligned s \<and> s \<noteq> 0 \<and> unat a + unat s \<le> 2 ^ 64 \<and>
             (\<forall>i < unat s. byte_at uc (unat a + i) = None) \<and>
             byte_at uc' = upd_bytes (byte_at uc) (unat a) (replicate (unat s) 0))) \<and>
     (\<forall>uc a d. dom (byte_at (snd (e_mem_write E uc a d))) = dom (byte_at uc))"

definition prot_law :: "'uc engine \<Rightarrow> ('uc \<Rightarrow> nat \<Rightarrow> prot) \<Rightarrow> bool" where
  "prot_law E prot_at \<longleftrightarrow>
     (\<forall>uc a s p. prot_at (snd (e_mem_map E uc a s p)) =
        (case fst (e_mem_map E uc a s p) of
           Inl _ \<Rightarrow> prot_at uc
         | Inr _ \<Rightarrow> (\<lambda>x. if unat a \<le> x \<and> x < unat a + unat s then p else prot_at uc x))) \<and>
     (\<forall>uc a d. prot_at (snd (e_mem_write E uc a d)) = prot_at uc) \<and>
     (\<forall>uc r v. prot_at (snd (e_reg_write E uc r v)) = prot_at uc)"

inductive set_up :: "'uc engine \<Rightarrow> 'uc \<Rightarrow> bool" for E where
  hooked: "e_new E = Inr uc0 \<Longrightarrow> e_hook_syscall E uc0 = (Inr (), uc) \<Longrightarrow> set_up E uc"
| mapped: "set_up E uc \<Longrightarrow> set_up E (snd (e_mem_map E uc a s p))"
| written: "set_up E uc \<Longrightarrow> set_up E (snd (e_mem_write E uc a d))"
| reg_set: "set_up E uc \<Longrightarrow> named r \<Longrightarrow> set_up E (snd (e_reg_write E uc r x))"

lemma prot_lawD:
  assumes "prot_law E prot_at"
  shows "e_mem_map E uc a s p = (Inr u, uc') \<Longrightarrow>
      prot_at uc' x = (if unat a \<le> x \<and> x < unat a + unat s then p else prot_at uc x)"
    and "e_mem_write E uc a d = (w, uc') \<Longrightarrow> prot_at uc' = prot_at uc"
    and "e_reg_write E uc r v = (q, uc') \<Longrightarrow> prot_at uc' = prot_at uc"
proof -
  note law = assms [unfolded prot_law_def]
  show "prot_at uc' x = (if unat a \<le> x \<and> x < unat a + unat s then p else prot_at uc x)"
    if "e_mem_map E uc a s p = (Inr u, uc')"
    using law [THEN conjunct1, rule_format, of uc a s p] that by simp
  show "prot_at uc' = prot_at uc" if "e_mem_write E uc a d = (w, uc')"
    using law [THEN conjunct2, THEN conjunct1, rule_format, of uc a d] that by simp
  show "prot_at uc' = prot_at uc" if "e_reg_write E uc r v = (q, uc')"
    using law [THEN conjunct2, THEN conjunct2, rule_format, of uc r v] that by simp
qed

lemma map_lawD:
  assumes "map_law E byte_at"
  shows "e_mem_map E uc a s p = (Inl e, uc') \<Longrightarrow> byte_at uc' = byte_at uc"
    and "e_mem_map E uc a s p = (Inr u, uc') \<Longrightarrow>
      page_aligned a \<and> page_aligned s \<and> s \<noteq> 0 \<and> unat a + unat s \<le> 2 ^ 64 \<and>
      (\<forall>i < unat s. byte_at uc (unat a + i) = None) \<and>
      byte_at uc' = upd_bytes (byte_at uc) (unat a) (replicate (unat s) 0)"
    and "dom (byte_at (snd (e_mem_write E uc a d))) = dom (byte_at uc)"
proof -
  note law = assms [unfolded map_law_def]
  show "byte_at uc' = byte_at uc" if "e_mem_map E uc a s p = (Inl e, uc')"
    using law [THEN conjunct1, rule_format, of uc a s p] that by simp
  show "page_aligned a \<and> page_aligned s \<and> s \<noteq> 0 \<and> unat a + unat s \<le> 2 ^ 64 \<and>
      (\<forall>i < unat s. byte_at uc (unat a + i) = None) \<and>
      byte_at uc' = upd_bytes (byte_at uc) (unat a) (replicate (unat s) 0)" if "e_mem_map E uc a s p = (Inr u, uc')"
    using law [THEN conjunct1, rule_format, of uc a s p] that by simp
  show "dom (byte_at (snd (e_mem_write E uc a d))) = dom (byte_at uc)"
    using law by blast
qed

lemma set_up_eqI:
  assumes "set_up E uc"
  shows "e_mem_map E uc a s p = (r, uc') \<Longrightarrow> set_up E uc'" "e_mem_write E uc a d = (r, uc') \<Longrightarrow> set_up E uc'"
    "e_reg_write E uc g x = (r, uc') \<Longrightarrow> named g \<Longrightarrow> set_up E uc'"
  using set_up.mapped [OF assms, of a s p] set_up.written [OF assms, of a d] set_up.reg_set [OF assms, of g x]
  by simp_all

section \<open>The live backend\<close>

definition map_uc_error :: "string \<Rightarrow> u64 \<Rightarrow> nat \<Rightarrow> gm_error" where
  "map_uc_error e addr len = \<lparr>ge_addr = addr, ge_len = len\<rparr>"

definition ug_read :: "'uc engine \<Rightarrow> 'uc \<Rightarrow> u64 \<Rightarrow> nat \<Rightarrow> (gm_error, bytes) result" where
  "ug_read E uc addr len =
     r_bind (vec_zeroed len) (\<lambda>buf.
       of_sum (\<lambda>e. map_uc_error e addr len)
         (map_sum id (\<lambda>f. map f [0..<length buf]) (e_mem_read E uc addr (length buf))))"

definition ug_write :: "'uc engine \<Rightarrow> 'uc \<Rightarrow> u64 \<Rightarrow> bytes \<Rightarrow> (gm_error, unit) result \<times> 'uc" where
  "ug_write E uc addr data =
     (let (r, uc') = e_mem_write E uc addr data
      in (of_sum (\<lambda>e. map_uc_error e addr (length data)) r, uc'))"

definition ug_map_anon :: "'uc \<Rightarrow> u64 \<Rightarrow> nat \<Rightarrow> u32 \<Rightarrow> (gm_error, unit) result \<times> 'uc" where
  "ug_map_anon uc base len prot = (Ok (), uc)"

lemma ug_read_eq_Ok:
  "ug_read E uc a n = Ok bs \<longleftrightarrow>
     n \<le> isize_max \<and> (\<exists>f. e_mem_read E uc a n = Inr f \<and> bs = map f [0..<n])"
  by (cases "e_mem_read E uc a n") (auto simp: ug_read_def vec_zeroed_def)

interpretation ug: guest_reader "ug_read E" for E
  by unfold_locales (auto simp: ug_read_eq_Ok)

text \<open>With \<open>mem_law\<close> the live backend keeps the same contract as the in-memory one.\<close>

lemma ug_read_ref:
  assumes law: "mem_law E byte_at" and fit: "unat a + n < 2 ^ 64" and n: "n \<le> isize_max"
  shows "case ref_read (byte_at uc) (unat a) n of
          Inl _ \<Rightarrow> is_Err (ug_read E uc a n) | Inr bs \<Rightarrow> ug_read E uc a n = Ok bs"
proof -
  have rd: "if \<forall>i < n. byte_at uc (unat a + i) \<noteq> None
         then \<exists>f. e_mem_read E uc a n = Inr f \<and> (\<forall>i < n. byte_at uc (unat a + i) = Some (f i))
         else \<exists>msg. e_mem_read E uc a n = Inl msg"
    using law fit unfolding mem_law_def by blast
  show ?thesis
  proof (cases "ref_read (byte_at uc) (unat a) n")
    case (Inl e)
    then have "\<not> (\<forall>i < n. byte_at uc (unat a + i) \<noteq> None)"
      using ref_read_Inl [of "byte_at uc" "unat a" n "fst e" "snd e"]
      by (metis add_less_cancel_left le_add_diff_inverse less_add_same_cancel1 prod.collapse)
    then obtain msg where "e_mem_read E uc a n = Inl msg"
      using rd by (auto split: if_splits)
    then show ?thesis using Inl n by (simp add: ug_read_def vec_zeroed_def)
  next
    case (Inr bs)
    then have bs: "length bs = n" "\<forall>i < n. byte_at uc (unat a + i) = Some (bs ! i)"
      by (simp_all add: ref_read_Inr_iff)
    then obtain f where "e_mem_read E uc a n = Inr f" "\<forall>i < n. byte_at uc (unat a + i) = Some (f i)"
      using rd by auto
    moreover from this bs have "bs = map f [0..<n]" by (intro nth_equalityI) auto
    ultimately show ?thesis using Inr n by (auto simp: ug_read_eq_Ok)
  qed
qed

lemma ug_write_cases:
  assumes "mem_law E byte_at" and "unat a + length d < 2 ^ 64"
  shows "\<exists>r uc'. ug_write E uc a d = (r, uc') \<and>
     (if \<forall>i < length d. byte_at uc (unat a + i) \<noteq> None
      then r = Ok () \<and> byte_at uc' = upd_bytes (byte_at uc) (unat a) d
      else is_Err r \<and> dom (byte_at uc') = dom (byte_at uc))"
proof -
  have "if \<forall>i < length d. byte_at uc (unat a + i) \<noteq> None
         then fst (e_mem_write E uc a d) = Inr () \<and>
              byte_at (snd (e_mem_write E uc a d)) = upd_bytes (byte_at uc) (unat a) d
         else (\<exists>msg. fst (e_mem_write E uc a d) = Inl msg) \<and>
              dom (byte_at (snd (e_mem_write E uc a d))) = dom (byte_at uc)"
    using assms unfolding mem_law_def by blast
  then show ?thesis by (cases "e_mem_write E uc a d") (auto simp: ug_write_def split: if_splits)
qed

lemma ug_guest_memory:
  assumes law: "mem_law E byte_at"
  shows "guest_memory (ug_read E) (ug_write E) byte_at (\<lambda>_. True)"
proof unfold_locales
  fix uc and a :: u64 and d :: bytes
  assume fit: "unat a + length d < 2 ^ 64"
  show "\<exists>uc'. ug_write E uc a d = (Ok (), uc') \<and> True \<and> byte_at uc' = upd_bytes (byte_at uc) (unat a) d"
    if "\<forall>i < length d. byte_at uc (unat a + i) \<noteq> None"
    using ug_write_cases [OF law fit, of uc] that by auto
  show "\<exists>e uc'. ug_write E uc a d = (Err e, uc') \<and> True \<and> dom (byte_at uc') = dom (byte_at uc)"
    if "\<exists>i < length d. byte_at uc (unat a + i) = None"
    using ug_write_cases [OF law fit, of uc] that by (auto simp: is_Err_def split: if_splits)
qed (rule ug_read_ref [OF law])

end
