(* ===== verification/Syscall_Types.thy ===== *)
theory Syscall_Types
  imports Vk_Process Vk_Io Unicorn
begin

text \<open>
  What the system-call layer passes around: the errno constants (\<open>syscall/errno.rs\<close>), the
  register view, outcomes and dispatcher errors (\<open>syscall/dispatch.rs\<close>), and the context a
  handler works on (\<open>vkernel/mod.rs\<close>). A context owns its guest memory as a
  \<open>Box<dyn GuestMemory>\<close>: \<open>dyn_guest\<close> is that trait object, the backend's state with its
  methods.
\<close>

section \<open>errno\<close>

definition ENOSYS :: i64 where "ENOSYS = 38"
definition EINVAL :: i64 where "EINVAL = 22"
definition EBADF :: i64 where "EBADF = 9"
definition EFAULT :: i64 where "EFAULT = 14"

definition errno_err :: "bool \<Rightarrow> i64 \<Rightarrow> ('e, i64) result" where
  "errno_err oc errno = neg64 oc errno"

lemma errno_err_simps [simp]:
  "errno_err oc ENOSYS = Ok (- 38)" "errno_err oc EINVAL = Ok (- 22)"
  "errno_err oc EBADF = Ok (- 9)" "errno_err oc EFAULT = Ok (- 14)"
  by (simp_all add: errno_err_def neg64_def ENOSYS_def EINVAL_def EBADF_def EFAULT_def)

section \<open>Registers, outcomes, errors\<close>

type_synonym args6 = "u64 \<times> u64 \<times> u64 \<times> u64 \<times> u64 \<times> u64"

record syscall_regs =
  syscall_nr :: i64
  arg0 :: u64
  arg1 :: u64
  arg2 :: u64
  arg3 :: u64
  arg4 :: u64
  arg5 :: u64
  sr_rip :: u64

fun from_regs :: "i64 \<Rightarrow> args6 \<Rightarrow> u64 \<Rightarrow> syscall_regs" where
  "from_regs nr (a0, a1, a2, a3, a4, a5) rip =
     \<lparr>syscall_nr = nr, arg0 = a0, arg1 = a1, arg2 = a2, arg3 = a3, arg4 = a4, arg5 = a5, sr_rip = rip\<rparr>"

definition regs_args :: "syscall_regs \<Rightarrow> args6" where
  "regs_args r = (arg0 r, arg1 r, arg2 r, arg3 r, arg4 r, arg5 r)"

lemma regs_args_from_regs [simp]: "regs_args (from_regs nr args rip) = args"
  by (cases args) (simp add: regs_args_def)

lemma from_regs_simps [simp]:
  "syscall_nr (from_regs nr args rip) = nr" "sr_rip (from_regs nr args rip) = rip"
  by (cases args; simp)+

datatype syscall_outcome = Return i64 | OExit exit_reason

datatype dispatch_error = Mismatch | Engine string

fun show_dispatch_error :: "dispatch_error \<Rightarrow> string" where
  "show_dispatch_error Mismatch = ''E201: syscall handler mismatch''"
| "show_dispatch_error (Engine msg) = ''E202: engine error: '' @ msg"

section \<open>Contexts\<close>

record 'm dyn_guest =
  dg_state :: 'm
  dg_read :: "'m \<Rightarrow> u64 \<Rightarrow> nat \<Rightarrow> (gm_error, bytes) result"
  dg_write :: "'m \<Rightarrow> u64 \<Rightarrow> bytes \<Rightarrow> (gm_error, unit) result \<times> 'm"
  dg_map_anon :: "'m \<Rightarrow> u64 \<Rightarrow> nat \<Rightarrow> u32 \<Rightarrow> (gm_error, unit) result \<times> 'm"

definition in_mem_box :: "bool \<Rightarrow> in_mem_guest \<Rightarrow> in_mem_guest dyn_guest" where
  "in_mem_box oc m = \<lparr>dg_state = m, dg_read = im_read oc, dg_write = im_write oc, dg_map_anon = im_map_anon\<rparr>"

definition unicorn_box :: "'uc engine \<Rightarrow> 'uc \<Rightarrow> 'uc dyn_guest" where
  "unicorn_box E uc = \<lparr>dg_state = uc, dg_read = ug_read E, dg_write = ug_write E, dg_map_anon = ug_map_anon\<rparr>"

record 'm ctxt =
  ctx_process :: process_state
  ctx_mem :: "'m dyn_guest"
  ctx_io :: output_capture

definition ctx_read :: "'m ctxt \<Rightarrow> u64 \<Rightarrow> nat \<Rightarrow> (gm_error, bytes) result" where
  "ctx_read ctx addr len = dg_read (ctx_mem ctx) (dg_state (ctx_mem ctx)) addr len"

definition ctxt_new :: "bool \<Rightarrow> in_mem_guest ctxt" where
  "ctxt_new oc = \<lparr>ctx_process = Running, ctx_mem = in_mem_box oc im_new, ctx_io = capture_new\<rparr>"

definition ctxt_default :: "bool \<Rightarrow> in_mem_guest ctxt" where
  "ctxt_default oc = ctxt_new oc"

end
