(* ===== verification/Trace_Recorder.thy ===== *)
theory Trace_Recorder
  imports Syscall_Types
begin

text \<open>
  \<open>trace/recorder.rs\<close>. A \<open>TraceSink\<close> is an \<open>Arc<Mutex<Vec<TraceRecord>>>\<close>: a handle to a shared
  buffer. The model keeps the buffers in a store and a sink is an index into it, so a clone is
  the same index and sees the same records. The mutex is never poisoned in the model: nothing
  that runs under the lock panics.
\<close>

record trace_record =
  tr_seq :: u64
  tr_nr :: i64
  tr_name :: string
  tr_args :: args6
  tr_ret :: i64
  tr_rip :: u64

type_synonym sink = nat

record trace_store =
  ts_next :: nat
  ts_buf :: "nat \<Rightarrow> trace_record list"

definition sink_new :: "trace_store \<Rightarrow> sink \<times> trace_store" where
  "sink_new ts = (ts_next ts, ts\<lparr>ts_next := Suc (ts_next ts), ts_buf := (ts_buf ts)(ts_next ts := [])\<rparr>)"

definition sink_clone :: "sink \<Rightarrow> sink" where
  "sink_clone s = s"

definition outcome_ret :: "syscall_outcome \<Rightarrow> i64" where
  "outcome_ret outcome = (case outcome of Return ret \<Rightarrow> ret | OExit _ \<Rightarrow> 0)"

definition sink_record ::
  "trace_store \<Rightarrow> sink \<Rightarrow> string \<Rightarrow> i64 \<Rightarrow> args6 \<Rightarrow> u64 \<Rightarrow> syscall_outcome \<Rightarrow> trace_store" where
  "sink_record ts s name nr args rip outcome =
     (let buf = ts_buf ts s;
          rec = \<lparr>tr_seq = of_nat (length buf), tr_nr = nr, tr_name = name, tr_args = args,
                 tr_ret = outcome_ret outcome, tr_rip = rip\<rparr>
      in ts\<lparr>ts_buf := (ts_buf ts)(s := buf @ [rec])\<rparr>)"

definition sink_drain :: "trace_store \<Rightarrow> sink \<Rightarrow> trace_record list \<times> trace_store" where
  "sink_drain ts s = (ts_buf ts s, ts\<lparr>ts_buf := (ts_buf ts)(s := [])\<rparr>)"

definition sink_len :: "trace_store \<Rightarrow> sink \<Rightarrow> nat" where
  "sink_len ts s = length (ts_buf ts s)"

definition sink_is_empty :: "trace_store \<Rightarrow> sink \<Rightarrow> bool" where
  "sink_is_empty ts s \<longleftrightarrow> sink_len ts s = 0"

section \<open>Sequence numbers\<close>

definition numbered :: "trace_record list \<Rightarrow> bool" where
  "numbered buf \<longleftrightarrow> (\<forall>i < length buf. tr_seq (buf ! i) = of_nat i)"

definition trace_inv :: "trace_store \<Rightarrow> bool" where
  "trace_inv ts \<longleftrightarrow> (\<forall>s. numbered (ts_buf ts s))"

lemma numbered_Nil [simp]: "numbered []"
  by (simp add: numbered_def)

lemma numbered_snoc: "numbered (buf @ [r]) \<longleftrightarrow> numbered buf \<and> tr_seq r = of_nat (length buf)"
  by (auto simp: numbered_def nth_append less_Suc_eq)

lemma sink_record_buf:
  "ts_buf (sink_record ts s name nr args rip outcome) s' =
     ts_buf ts s' @ (if s' = s then [\<lparr>tr_seq = of_nat (length (ts_buf ts s)), tr_nr = nr, tr_name = name,
        tr_args = args, tr_ret = outcome_ret outcome, tr_rip = rip\<rparr>] else [])"
  by (simp add: sink_record_def Let_def)

lemma sink_record_inv [inv_intros]: "trace_inv ts \<Longrightarrow> trace_inv (sink_record ts s name nr args rip outcome)"
  by (simp add: trace_inv_def sink_record_buf numbered_snoc)

lemma sink_drain_inv [inv_intros]: "trace_inv ts \<Longrightarrow> trace_inv (snd (sink_drain ts s))"
  by (simp add: trace_inv_def sink_drain_def)

lemma sink_new_inv [inv_intros]: "trace_inv ts \<Longrightarrow> trace_inv (snd (sink_new ts))"
  by (simp add: trace_inv_def sink_new_def)

text \<open>The operations of a sink as values, to speak of sequences of them.\<close>

datatype trace_op =
    TNew
  | TRecord sink string i64 args6 u64 syscall_outcome
  | TDrain sink

fun trace_step :: "trace_store \<Rightarrow> trace_op \<Rightarrow> trace_store" where
  "trace_step ts TNew = snd (sink_new ts)"
| "trace_step ts (TRecord s name nr args rip outcome) = sink_record ts s name nr args rip outcome"
| "trace_step ts (TDrain s) = snd (sink_drain ts s)"

lemma trace_step_inv: "trace_inv ts \<Longrightarrow> trace_inv (trace_step ts op)"
  by (cases op) (simp_all add: inv_intros)

text \<open>Under any sequence of sink operations every buffer stays numbered from 0 without gaps,
  so \<open>seq\<close> is the position of a record since the last drain.\<close>

theorem trace_ops_numbered:
  assumes "trace_inv ts"
  shows "\<forall>i < sink_len (foldl trace_step ts ops) s.
           tr_seq (ts_buf (foldl trace_step ts ops) s ! i) = of_nat i"
proof -
  have "trace_inv (foldl trace_step ts ops)"
    using assms by (induction ops arbitrary: ts) (auto intro: trace_step_inv)
  then show ?thesis by (simp add: trace_inv_def numbered_def sink_len_def)
qed

definition empty_store :: trace_store where
  "empty_store = \<lparr>ts_next = 0, ts_buf = (\<lambda>_. [])\<rparr>"

lemma empty_store_inv [simp]: "trace_inv empty_store"
  by (simp add: trace_inv_def empty_store_def)

theorem trace_ops_numbered_witness:
  "tr_seq (ts_buf (foldl trace_step empty_store
     [TNew, TRecord 0 ''write'' 1 (1, 0, 5, 0, 0, 0) 0 (Return 5),
      TRecord 0 ''exit'' 60 (0, 0, 0, 0, 0, 0) 0 (OExit (Exit 0))]) 0 ! 1) = 1"
  using trace_ops_numbered [OF empty_store_inv, where s = 0 and ops =
     "[TNew, TRecord 0 ''write'' 1 (1, 0, 5, 0, 0, 0) 0 (Return 5),
      TRecord 0 ''exit'' 60 (0, 0, 0, 0, 0, 0) 0 (OExit (Exit 0))]"]
  by (auto simp: sink_len_def sink_record_buf sink_new_def dest: spec [of _ 1])

text \<open>A record made through a clone reaches the original, appended after what was there, and
  no other sink; draining hands all records over once and leaves the sink empty.\<close>

theorem trace_clone_and_drain:
  "let ts' = sink_record ts (sink_clone s) name nr args rip outcome;
       (recs, ts'') = sink_drain ts' s
   in (\<exists>r. recs = ts_buf ts s @ [r] \<and> tr_nr r = nr \<and> tr_name r = name \<and> tr_args r = args \<and>
           tr_rip r = rip \<and> tr_ret r = outcome_ret outcome) \<and>
      sink_is_empty ts'' s \<and> fst (sink_drain ts'' s) = [] \<and>
      (\<forall>s'. s' \<noteq> s \<longrightarrow> ts_buf ts'' s' = ts_buf ts s')"
  by (simp add: sink_clone_def sink_drain_def sink_record_buf sink_is_empty_def sink_len_def)

theorem trace_clone_and_drain_witness:
  "fst (sink_drain (sink_record empty_store (sink_clone 0) ''exit'' 60 (0, 0, 0, 0, 0, 0) 0 (OExit (Exit 0))) 0) \<noteq> []"
  using trace_clone_and_drain [of empty_store 0 "''exit''" 60 "(0, 0, 0, 0, 0, 0)" 0 "OExit (Exit 0)"]
  by (auto simp: Let_def split: prod.splits)

end
