(* ===== verification/Dispatch.thy ===== *)
theory Dispatch
  imports Trace_Recorder
begin

text \<open>
  \<open>syscall/dispatch.rs\<close>: the table of handlers and the routing of a system call. A
  \<open>SyscallHandler\<close> trait object is a record of its methods; \<open>number\<close> and \<open>name\<close> are constant.
  \<open>dispatch_call\<close> is the method \<open>dispatch\<close>: it threads the context and the trace store, and a
  handler's error or panic leaves before the trace is written, as the \<open>?\<close> of the code does.

  \<open>dispatch_inv\<close> says that no two handlers have the same number; every table that \<open>register\<close>
  builds has it, which makes look-up order irrelevant.
\<close>

section \<open>The code\<close>

record 'm handler =
  h_number :: i64
  h_name :: string
  h_handle :: "'m ctxt \<Rightarrow> syscall_regs \<Rightarrow> (dispatch_error, syscall_outcome) result \<times> 'm ctxt"

record 'm dispatch =
  d_handlers :: "'m handler list"
  d_trace :: "sink option"

definition dispatch_new :: "'m dispatch" where
  "dispatch_new = \<lparr>d_handlers = [], d_trace = None\<rparr>"

definition register :: "'m dispatch \<Rightarrow> 'm handler \<Rightarrow> 'm dispatch" where
  "register d h = d\<lparr>d_handlers := [h' \<leftarrow> d_handlers d. h_number h' \<noteq> h_number h] @ [h]\<rparr>"

definition set_trace :: "'m dispatch \<Rightarrow> sink \<Rightarrow> 'm dispatch" where
  "set_trace d s = d\<lparr>d_trace := Some s\<rparr>"

definition find_handler :: "'m dispatch \<Rightarrow> i64 \<Rightarrow> 'm handler option" where
  "find_handler d nr = find (\<lambda>h. h_number h = nr) (d_handlers d)"

definition dispatch_call ::
  "bool \<Rightarrow> 'm dispatch \<Rightarrow> 'm ctxt \<Rightarrow> syscall_regs \<Rightarrow> trace_store \<Rightarrow>
     (dispatch_error, syscall_outcome) result \<times> 'm ctxt \<times> trace_store" where
  "dispatch_call oc d ctx regs ts =
     (let found = find_handler d (syscall_nr regs);
          (res, ctx') = (case found of
              Some h \<Rightarrow> h_handle h ctx regs
            | None \<Rightarrow> (r_bind (errno_err oc ENOSYS) (\<lambda>ret. Ok (Return ret)), ctx))
      in case res of
           Err e \<Rightarrow> (Err e, ctx', ts)
         | Panic p \<Rightarrow> (Panic p, ctx', ts)
         | Ok outcome \<Rightarrow>
             (Ok outcome, ctx',
              (case d_trace d of
                 None \<Rightarrow> ts
               | Some sink \<Rightarrow>
                   sink_record ts sink (case found of Some h \<Rightarrow> h_name h | None \<Rightarrow> ''<unimplemented>'')
                     (syscall_nr regs) (regs_args regs) (sr_rip regs) outcome)))"

definition dispatch_get :: "'m dispatch \<Rightarrow> i64 \<Rightarrow> 'm handler option" where
  "dispatch_get d nr = find_handler d nr"

definition implemented :: "'m dispatch \<Rightarrow> i64 list" where
  "implemented d = remdups_adj (sort (map h_number (d_handlers d)))"

section \<open>The table\<close>

definition dispatch_inv :: "'m dispatch \<Rightarrow> bool" where
  "dispatch_inv d \<longleftrightarrow> distinct (map h_number (d_handlers d))"

lemma dispatch_new_inv [simp, inv_intros]: "dispatch_inv dispatch_new"
  by (simp add: dispatch_inv_def dispatch_new_def)

lemma register_inv [inv_intros]: "dispatch_inv d \<Longrightarrow> dispatch_inv (register d h)"
  by (auto simp: dispatch_inv_def register_def distinct_map intro: inj_on_subset)

lemma set_trace_inv [simp, inv_intros]: "dispatch_inv (set_trace d s) = dispatch_inv d"
  by (simp add: dispatch_inv_def set_trace_def)

lemma find_handler_new [simp]: "find_handler dispatch_new nr = None"
  by (simp add: find_handler_def dispatch_new_def)

lemma find_handler_set_trace [simp]: "find_handler (set_trace d s) = find_handler d"
  by (simp add: find_handler_def set_trace_def fun_eq_iff)

lemma find_append: "find P (xs @ ys) = (case find P xs of None \<Rightarrow> find P ys | Some x \<Rightarrow> Some x)"
  by (induction xs) auto

lemma find_filter_conj: "find P (filter Q xs) = find (\<lambda>x. Q x \<and> P x) xs"
  by (induction xs) auto

lemma find_handler_register:
  "find_handler (register d h) nr = (if nr = h_number h then Some h else find_handler d nr)"
proof (cases "nr = h_number h")
  case True
  have "find (\<lambda>h'. h_number h' \<noteq> h_number h \<and> h_number h' = h_number h) (d_handlers d) = None"
    by (simp add: find_None_iff)
  then show ?thesis using True
    by (simp add: find_handler_def register_def find_append find_filter_conj)
next
  case False
  have "find (\<lambda>h'. h_number h' \<noteq> h_number h \<and> h_number h' = nr) (d_handlers d) =
        find (\<lambda>h'. h_number h' = nr) (d_handlers d)"
    using False by (intro find_cong) auto
  then show ?thesis using False
    by (simp add: find_handler_def register_def find_append find_filter_conj split: option.split)
qed

lemma find_handler_Some: "find_handler d nr = Some h \<Longrightarrow> h \<in> set (d_handlers d) \<and> h_number h = nr"
  by (auto simp: find_handler_def find_Some_iff)

lemma find_handler_None_iff: "find_handler d nr = None \<longleftrightarrow> nr \<notin> h_number ` set (d_handlers d)"
  by (auto simp: find_handler_def find_None_iff)

lemma remdups_adj_distinct_sorted: "sorted xs \<Longrightarrow> distinct (remdups_adj (xs :: 'a::linorder list))"
  by (induction xs rule: remdups_adj.induct) (auto simp: order_le_less)

lemma set_implemented: "set (implemented d) = h_number ` set (d_handlers d)"
  by (simp add: implemented_def)

lemma sorted_implemented: "sorted_wrt (<) (implemented d)"
proof -
  have "sorted (implemented d)" by (simp add: implemented_def sorted_remdups_adj)
  moreover have "distinct (implemented d)"
    by (simp add: implemented_def remdups_adj_distinct_sorted)
  ultimately show ?thesis by (simp add: strict_sorted_iff)
qed

text \<open>A table built by a series of registrations.\<close>

lemma find_handler_registered:
  "find_handler (foldl register d hs) nr =
     (case find (\<lambda>h. h_number h = nr) (rev hs) of Some h \<Rightarrow> Some h | None \<Rightarrow> find_handler d nr)"
  by (induction hs rule: rev_induct) (simp_all add: find_handler_register)

lemma registered_inv [inv_intros]: "dispatch_inv d \<Longrightarrow> dispatch_inv (foldl register d hs)"
  by (induction hs arbitrary: d) (simp_all add: register_inv)

lemma registered_numbers:
  "h_number ` set (d_handlers (foldl register d hs)) = h_number ` set (d_handlers d) \<union> h_number ` set hs"
  by (induction hs arbitrary: d) (auto simp: register_def)

section \<open>Properties\<close>

text \<open>C32: a table built by any series of registrations routes each number to the handler registered for
  it last, holds one handler for each number, and lists as implemented exactly the registered
  numbers in increasing order; a trace sink that is attached changes none of this.\<close>

theorem table_of_registrations:
  "let d = foldl register dispatch_new hs in
     dispatch_inv d \<and> dispatch_get d nr = find (\<lambda>h. h_number h = nr) (rev hs) \<and>
     implemented d = sorted_list_of_set (h_number ` set hs) \<and>
     dispatch_get (set_trace d s) nr = dispatch_get d nr \<and> implemented (set_trace d s) = implemented d"
proof -
  let ?d = "foldl register dispatch_new hs"
  have "set (implemented ?d) = h_number ` set hs"
    by (simp add: set_implemented registered_numbers) (simp add: dispatch_new_def)
  moreover have "sorted_list_of_set (set (implemented ?d)) = implemented ?d"
    using sorted_implemented [of ?d] by (simp add: strict_sorted_iff sorted_list_of_set.idem_if_sorted_distinct)
  ultimately have "implemented ?d = sorted_list_of_set (h_number ` set hs)" by simp
  moreover have "dispatch_get ?d nr = find (\<lambda>h. h_number h = nr) (rev hs)"
    by (simp add: dispatch_get_def find_handler_registered option.case_eq_if)
  moreover have "implemented (set_trace ?d s) = implemented ?d" by (simp add: implemented_def set_trace_def)
  moreover have "dispatch_get (set_trace ?d s) nr = dispatch_get ?d nr" by (simp add: dispatch_get_def)
  ultimately show ?thesis using registered_inv [OF dispatch_new_inv, of hs] by (simp add: Let_def)
qed


lemma dispatch_call_unknown:
  "find_handler d (syscall_nr regs) = None \<Longrightarrow>
     dispatch_call oc d ctx regs ts =
       (Ok (Return (- 38)), ctx,
        (case d_trace d of
           None \<Rightarrow> ts
         | Some s \<Rightarrow> sink_record ts s ''<unimplemented>'' (syscall_nr regs) (regs_args regs) (sr_rip regs)
                       (Return (- 38))))"
  by (simp add: dispatch_call_def split: option.split)

lemma dispatch_call_known:
  "find_handler d (syscall_nr regs) = Some h \<Longrightarrow>
     dispatch_call oc d ctx regs ts =
       (case h_handle h ctx regs of
          (Ok outcome, ctx') \<Rightarrow>
            (Ok outcome, ctx',
             (case d_trace d of
                None \<Rightarrow> ts
              | Some s \<Rightarrow> sink_record ts s (h_name h) (syscall_nr regs) (regs_args regs) (sr_rip regs) outcome))
        | (Err e, ctx') \<Rightarrow> (Err e, ctx', ts)
        | (Panic p, ctx') \<Rightarrow> (Panic p, ctx', ts))"
  by (simp add: dispatch_call_def Let_def split: prod.split result.split option.split)

text \<open>A number without a handler returns \<open>-ENOSYS\<close> to the guest, changes nothing in the
  context and is traced as unimplemented with its number, arguments and \<open>rip\<close>.\<close>

theorem dispatch_unknown_enosys:
  assumes "syscall_nr regs \<notin> set (implemented d)"
  shows "dispatch_call oc d ctx regs ts =
       (Ok (Return (- ENOSYS)), ctx,
        (case d_trace d of
           None \<Rightarrow> ts
         | Some s \<Rightarrow> sink_record ts s ''<unimplemented>'' (syscall_nr regs) (regs_args regs) (sr_rip regs)
                       (Return (- ENOSYS))))"
  unfolding ENOSYS_def
  by (rule dispatch_call_unknown) (use assms in \<open>simp add: set_implemented find_handler_None_iff\<close>)

theorem dispatch_unknown_enosys_witness:
  "fst (dispatch_call True dispatch_new (ctxt_new True) (from_regs 999 (0, 0, 0, 0, 0, 0) 0x400000) empty_store) =
     Ok (Return (- 38))"
  using dispatch_unknown_enosys [of "from_regs 999 (0, 0, 0, 0, 0, 0) 0x400000"
      "dispatch_new :: in_mem_guest dispatch" True "ctxt_new True" empty_store]
  by (simp add: set_implemented dispatch_new_def ENOSYS_def)

lemma dispatch_call_trace_inv [inv_intros]:
  "dispatch_call oc d ctx regs ts = (res, ctx', ts') \<Longrightarrow> trace_inv ts \<Longrightarrow> trace_inv ts'"
  by (cases "find_handler d (syscall_nr regs)")
     (auto simp: dispatch_call_unknown dispatch_call_known sink_record_inv
        split: prod.splits result.splits option.splits)

lemma dispatch_call_traced:
  assumes "d_trace d = Some s" and "dispatch_call oc d ctx regs ts = (res, ctx', ts')"
  shows "case res of
           Ok outcome \<Rightarrow> \<exists>r. ts_buf ts' s = ts_buf ts s @ [r] \<and>
             tr_seq r = of_nat (sink_len ts s) \<and> tr_nr r = syscall_nr regs \<and>
             tr_args r = regs_args regs \<and> tr_rip r = sr_rip regs \<and> tr_ret r = outcome_ret outcome \<and>
             tr_name r = (case dispatch_get d (syscall_nr regs) of
                            Some h \<Rightarrow> h_name h | None \<Rightarrow> ''<unimplemented>'')
         | _ \<Rightarrow> ts' = ts"
proof (cases "find_handler d (syscall_nr regs)")
  case None
  then show ?thesis
    using assms by (auto simp: dispatch_call_unknown sink_record_buf sink_len_def dispatch_get_def)
next
  case (Some h)
  then show ?thesis
    using assms
    by (auto simp: dispatch_call_known sink_record_buf sink_len_def dispatch_get_def
        split: prod.splits result.splits)
qed

text \<open>A traced dispatch that succeeds adds exactly one record, with what was called and what
  the guest sees (0 for an exit); one that fails adds none, so an engine error is missing from
  the trace.\<close>

theorem dispatch_traces_success_only:
  assumes "d_trace d = Some s" and "dispatch_call oc d ctx regs ts = (res, ctx', ts')"
  shows "case res of
           Ok outcome \<Rightarrow> \<exists>r. ts_buf ts' s = ts_buf ts s @ [r] \<and>
             tr_seq r = of_nat (sink_len ts s) \<and> tr_nr r = syscall_nr regs \<and>
             tr_args r = regs_args regs \<and> tr_rip r = sr_rip regs \<and> tr_ret r = outcome_ret outcome \<and>
             tr_name r = (case dispatch_get d (syscall_nr regs) of
                            Some h \<Rightarrow> h_name h | None \<Rightarrow> ''<unimplemented>'')
         | _ \<Rightarrow> ts' = ts"
  using assms by (rule dispatch_call_traced)

theorem dispatch_traces_success_only_witness:
  "let d = set_trace dispatch_new 0 in
   case dispatch_call True d (ctxt_new True) (from_regs 999 (0, 0, 0, 0, 0, 0) 0) empty_store of
     (Ok _, _, ts') \<Rightarrow> length (ts_buf ts' 0) = 1 | _ \<Rightarrow> False"
proof -
  let ?d = "set_trace dispatch_new 0 :: in_mem_guest dispatch"
    and ?r = "from_regs 999 (0, 0, 0, 0, 0, 0) 0"
  have tr: "d_trace ?d = Some 0" by (simp add: set_trace_def)
  have ok: "fst (dispatch_call True ?d (ctxt_new True) ?r empty_store) = Ok (Return (- 38))"
    by (simp add: dispatch_call_unknown)
  obtain res ctx' ts' where call: "dispatch_call True ?d (ctxt_new True) ?r empty_store = (res, ctx', ts')"
    using prod_cases3 by blast
  with ok have "res = Ok (Return (- 38))" by simp
  then show ?thesis
    using dispatch_traces_success_only [OF tr call] call by (auto simp: empty_store_def)
qed

end
