(* ===== verification/Syscall_Handlers.thy ===== *)
theory Syscall_Handlers
  imports Dispatch
begin

text \<open>
  \<open>syscall/dispatch_impl.rs\<close>: the handlers for \<open>write\<close>, \<open>exit\<close> and \<open>exit_group\<close>.

  The locale \<open>syscall_contract\<close> is what the virtual CPU needs of any handler: guest memory is not
  changed, a returned value leaves the process running and accounts for the bytes captured, an
  exit changes the process state and nothing else, a failure changes nothing. The three handlers
  are instances, and a table whose handlers satisfy the contract dispatches within it.
\<close>

section \<open>The code\<close>

definition write_handle ::
  "bool \<Rightarrow> 'm ctxt \<Rightarrow> syscall_regs \<Rightarrow> (dispatch_error, syscall_outcome) result \<times> 'm ctxt" where
  "write_handle oc ctx regs =
     (let fd = u64_as_i64 (arg0 regs); ptr = arg1 regs; count = unat (arg2 regs) in
      if fd \<noteq> 1 \<and> fd \<noteq> 2 then (r_bind (errno_err oc EBADF) (\<lambda>ret. Ok (Return ret)), ctx)
      else case map_err (\<lambda>_. Engine ''guest memory read failed'') (ctx_read ctx ptr count) of
             Err e \<Rightarrow> (Err e, ctx)
           | Panic p \<Rightarrow> (Panic p, ctx)
           | Ok data \<Rightarrow>
               (Ok (Return (u64_as_i64 (of_nat (length data)))),
                ctx\<lparr>ctx_io := capture_write (ctx_io ctx) fd data\<rparr>))"

definition exit_handle ::
  "'m ctxt \<Rightarrow> syscall_regs \<Rightarrow> (dispatch_error, syscall_outcome) result \<times> 'm ctxt" where
  "exit_handle ctx regs =
     (let code = ucast (arg0 regs AND 0xff) :: u8
      in (Ok (OExit (Exit code)), ctx\<lparr>ctx_process := Exited code\<rparr>))"

definition exit_group_handle ::
  "'m ctxt \<Rightarrow> syscall_regs \<Rightarrow> (dispatch_error, syscall_outcome) result \<times> 'm ctxt" where
  "exit_group_handle ctx regs =
     (let code = ucast (arg0 regs AND 0xff) :: u8
      in (Ok (OExit (Exit code)), ctx\<lparr>ctx_process := Exited code\<rparr>))"

definition write_handler :: "bool \<Rightarrow> 'm handler" where
  "write_handler oc = \<lparr>h_number = 1, h_name = ''write'', h_handle = write_handle oc\<rparr>"

definition exit_handler :: "'m handler" where
  "exit_handler = \<lparr>h_number = 60, h_name = ''exit'', h_handle = exit_handle\<rparr>"

definition exit_group_handler :: "'m handler" where
  "exit_group_handler = \<lparr>h_number = 231, h_name = ''exit_group'', h_handle = exit_group_handle\<rparr>"

definition register_all :: "bool \<Rightarrow> 'm dispatch \<Rightarrow> 'm dispatch" where
  "register_all oc d = foldl register d [write_handler oc, exit_handler, exit_group_handler]"

lemmas handler_defs = write_handler_def exit_handler_def exit_group_handler_def

lemma handler_fields [simp]:
  "h_number (write_handler oc) = 1" "h_name (write_handler oc) = ''write''"
  "h_handle (write_handler oc) = write_handle oc"
  "h_number exit_handler = 60" "h_name exit_handler = ''exit''" "h_handle exit_handler = exit_handle"
  "h_number exit_group_handler = 231" "h_name exit_group_handler = ''exit_group''"
  "h_handle exit_group_handler = exit_group_handle"
  by (simp_all add: handler_defs)

section \<open>The contract of a handler\<close>

definition ctx_ok :: "'m ctxt \<Rightarrow> bool" where
  "ctx_ok ctx \<longleftrightarrow> guest_reader (dg_read (ctx_mem ctx)) \<and> capture_inv (ctx_io ctx)"

definition out_len :: "'m ctxt \<Rightarrow> nat" where
  "out_len ctx = length (capture_combined (ctx_io ctx))"

locale syscall_contract =
  fixes handle :: "'m ctxt \<Rightarrow> syscall_regs \<Rightarrow> (dispatch_error, syscall_outcome) result \<times> 'm ctxt"
  assumes mem_same: "ctx_mem (snd (handle ctx regs)) = ctx_mem ctx"
    and returned: "ctx_ok ctx \<Longrightarrow> fst (handle ctx regs) = Ok (Return v) \<Longrightarrow>
      ctx_process (snd (handle ctx regs)) = ctx_process ctx \<and> ctx_ok (snd (handle ctx regs)) \<and>
      out_len (snd (handle ctx regs)) = out_len ctx + nat v"
    and exited: "fst (handle ctx regs) = Ok (OExit r) \<Longrightarrow>
      \<exists>c. r = Exit c \<and> snd (handle ctx regs) = ctx\<lparr>ctx_process := Exited c\<rparr>"
    and failed: "\<not> is_Ok (fst (handle ctx regs)) \<Longrightarrow> snd (handle ctx regs) = ctx"
    and owned: "fst (handle ctx regs) \<noteq> Err Mismatch"
begin

lemma keeps_ok:
  assumes "ctx_ok ctx"
  shows "ctx_ok (snd (handle ctx regs))"
proof (cases "fst (handle ctx regs)")
  case (Ok out)
  show ?thesis
  proof (cases out)
    case (Return v)
    then show ?thesis using returned [OF assms] Ok by blast
  next
    case (OExit r)
    then obtain c where "snd (handle ctx regs) = ctx\<lparr>ctx_process := Exited c\<rparr>"
      using exited [of ctx regs r] Ok by auto
    then show ?thesis using assms by (simp add: ctx_ok_def)
  qed
qed (use assms failed [of ctx regs] in auto)

lemma process_change:
  assumes "ctx_ok ctx"
  shows "case fst (handle ctx regs) of
           Ok (OExit r) \<Rightarrow> \<exists>c. r = Exit c \<and> ctx_process (snd (handle ctx regs)) = Exited c
         | _ \<Rightarrow> ctx_process (snd (handle ctx regs)) = ctx_process ctx"
proof (cases "fst (handle ctx regs)")
  case (Ok out)
  then show ?thesis
    using returned [OF assms, of regs] exited [of ctx regs] by (cases out) auto
qed (use failed [of ctx regs] in auto)

lemma output_growth:
  assumes "ctx_ok ctx"
  shows "out_len (snd (handle ctx regs)) =
     out_len ctx + (case fst (handle ctx regs) of Ok (Return v) \<Rightarrow> nat v | _ \<Rightarrow> 0)"
proof (cases "fst (handle ctx regs)")
  case (Ok out)
  show ?thesis
  proof (cases out)
    case (Return v)
    then show ?thesis using returned [OF assms] Ok by simp
  next
    case (OExit r)
    then obtain c where "snd (handle ctx regs) = ctx\<lparr>ctx_process := Exited c\<rparr>"
      using exited [of ctx regs r] Ok by auto
    then show ?thesis using Ok OExit by (simp add: out_len_def)
  qed
qed (use failed [of ctx regs] in auto)

end

lemma combined_write:
  "capture_inv c \<Longrightarrow> fd = 1 \<or> fd = 2 \<Longrightarrow>
     length (capture_combined (capture_write c fd data)) = length (capture_combined c) + length data"
  by (auto simp: capture_combined_eq capture_stdout_def capture_stderr_def capture_get_write)

lemma low_byte: "unat (ucast (w AND 0xff :: u64) :: u8) = unat w mod 256"
proof -
  have "w AND 0xff = take_bit 8 w" by (simp add: take_bit_eq_mask mask_eq_exp_minus_1)
  then show ?thesis by (simp only: unsigned_ucast_eq unsigned_take_bit_eq) (simp add: take_bit_eq_mod)
qed

lemma usize_as_i64: "n < 2 ^ 63 \<Longrightarrow> u64_as_i64 (of_nat n) = int n"
proof -
  assume "n < 2 ^ 63"
  then have "u64_as_i64 (i64_as_u64 (int n)) = int n" by (intro u64_round) auto
  then show ?thesis by (simp add: i64_as_u64_def)
qed

lemma write_handle_cases:
  "write_handle oc ctx regs =
     (if u64_as_i64 (arg0 regs) \<notin> {1, 2} then (Ok (Return (- 9)), ctx)
      else case ctx_read ctx (arg1 regs) (unat (arg2 regs)) of
             Err e \<Rightarrow> (Err (Engine ''guest memory read failed''), ctx)
           | Panic p \<Rightarrow> (Panic p, ctx)
           | Ok data \<Rightarrow> (Ok (Return (u64_as_i64 (of_nat (length data)))),
                ctx\<lparr>ctx_io := capture_write (ctx_io ctx) (u64_as_i64 (arg0 regs)) data\<rparr>))"
  by (simp add: write_handle_def Let_def split: result.split)

lemma ctx_read_length:
  "ctx_ok ctx \<Longrightarrow> ctx_read ctx a n = Ok data \<Longrightarrow> length data = n \<and> length data < 2 ^ 63"
  by (auto simp: ctx_ok_def ctx_read_def dest: guest_reader.read_ret)

interpretation wr: syscall_contract "write_handle oc" for oc
proof unfold_locales
  fix ctx :: "'m ctxt" and regs :: syscall_regs and v
  assume ok: "ctx_ok ctx" and ret: "fst (write_handle oc ctx regs) = Ok (Return v)"
  let ?fd = "u64_as_i64 (arg0 regs)"
  show "ctx_process (snd (write_handle oc ctx regs)) = ctx_process ctx \<and>
        ctx_ok (snd (write_handle oc ctx regs)) \<and>
        out_len (snd (write_handle oc ctx regs)) = out_len ctx + nat v"
  proof (cases "?fd \<in> {1, 2}")
    case False
    then show ?thesis using ok ret by (auto simp: write_handle_cases)
  next
    case True
    then obtain data where rd: "ctx_read ctx (arg1 regs) (unat (arg2 regs)) = Ok data"
      using ret by (cases "ctx_read ctx (arg1 regs) (unat (arg2 regs))") (auto simp: write_handle_cases)
    with ok have "length data < 2 ^ 63" using ctx_read_length by blast
    then have "u64_as_i64 (of_nat (length data)) = int (length data)" by (rule usize_as_i64)
    with True rd ret ok show ?thesis
      by (auto simp: write_handle_cases ctx_ok_def out_len_def combined_write)
  qed
qed (auto simp: write_handle_cases split: if_splits result.splits)

interpretation ex: syscall_contract exit_handle
  by unfold_locales (auto simp: exit_handle_def Let_def)

interpretation exg: syscall_contract exit_group_handle
  by unfold_locales (auto simp: exit_group_handle_def Let_def)

section \<open>Tables of such handlers\<close>

definition table_ok :: "'m dispatch \<Rightarrow> bool" where
  "table_ok d \<longleftrightarrow> (\<forall>h \<in> set (d_handlers d). syscall_contract (h_handle h))"

lemma table_ok_register [inv_intros]:
  "table_ok d \<Longrightarrow> syscall_contract (h_handle h) \<Longrightarrow> table_ok (register d h)"
  by (auto simp: table_ok_def register_def)

lemma table_ok_new [simp]: "table_ok dispatch_new"
  by (simp add: table_ok_def dispatch_new_def)

lemma table_ok_set_trace [simp]: "table_ok (set_trace d s) = table_ok d"
  by (simp add: table_ok_def set_trace_def)

lemma table_ok_register_all [inv_intros]: "table_ok d \<Longrightarrow> table_ok (register_all oc d)"
  unfolding register_all_def
  by (simp add: table_ok_register wr.syscall_contract_axioms ex.syscall_contract_axioms
      exg.syscall_contract_axioms)

definition dispatch_handle ::
  "bool \<Rightarrow> 'm dispatch \<Rightarrow> trace_store \<Rightarrow> 'm ctxt \<Rightarrow> syscall_regs \<Rightarrow>
     (dispatch_error, syscall_outcome) result \<times> 'm ctxt" where
  "dispatch_handle oc d ts ctx regs = (let (r, ctx', _) = dispatch_call oc d ctx regs ts in (r, ctx'))"

lemma dispatch_handle_eq:
  "dispatch_handle oc d ts ctx regs =
     (case find_handler d (syscall_nr regs) of
        None \<Rightarrow> (Ok (Return (- 38)), ctx) | Some h \<Rightarrow> h_handle h ctx regs)"
  by (auto simp: dispatch_handle_def dispatch_call_unknown dispatch_call_known
      split: option.split prod.split result.split)

text \<open>Dispatching through a table of contract-abiding handlers abides by the contract.\<close>

lemma dispatch_contract:
  assumes "table_ok d"
  shows "syscall_contract (dispatch_handle oc d ts)"
proof
  fix ctx :: "'a ctxt" and regs :: syscall_regs and v r
  have found: "find_handler d (syscall_nr regs) = Some h \<Longrightarrow> syscall_contract (h_handle h)" for h
    using assms find_handler_Some by (auto simp: table_ok_def)
  show "ctx_mem (snd (dispatch_handle oc d ts ctx regs)) = ctx_mem ctx"
    by (auto simp: dispatch_handle_eq split: option.split dest: found syscall_contract.mem_same)
  show "ctx_process (snd (dispatch_handle oc d ts ctx regs)) = ctx_process ctx \<and>
        ctx_ok (snd (dispatch_handle oc d ts ctx regs)) \<and>
        out_len (snd (dispatch_handle oc d ts ctx regs)) = out_len ctx + nat v"
    if "ctx_ok ctx" "fst (dispatch_handle oc d ts ctx regs) = Ok (Return v)"
    using that syscall_contract.returned [OF found that(1)]
    by (auto simp: dispatch_handle_eq split: option.splits)
  show "\<exists>c. r = Exit c \<and> snd (dispatch_handle oc d ts ctx regs) = ctx\<lparr>ctx_process := Exited c\<rparr>"
    if "fst (dispatch_handle oc d ts ctx regs) = Ok (OExit r)"
    using that syscall_contract.exited [OF found] by (auto simp: dispatch_handle_eq split: option.splits)
  show "snd (dispatch_handle oc d ts ctx regs) = ctx" if "\<not> is_Ok (fst (dispatch_handle oc d ts ctx regs))"
    using that syscall_contract.failed [OF found] by (auto simp: dispatch_handle_eq split: option.splits)
  show "fst (dispatch_handle oc d ts ctx regs) \<noteq> Err Mismatch"
    using syscall_contract.owned [OF found] by (auto simp: dispatch_handle_eq split: option.splits)
qed

abbreviation std_table :: "bool \<Rightarrow> sink \<Rightarrow> 'm dispatch" where
  "std_table oc s \<equiv> set_trace (register_all oc dispatch_new) s"

lemma find_handler_std:
  "find_handler (register_all oc dispatch_new) nr =
     (if nr = 1 then Some (write_handler oc) else if nr = 60 then Some exit_handler
      else if nr = 231 then Some exit_group_handler else None)"
  by (simp add: register_all_def find_handler_register)

lemma d_trace_std [simp]: "d_trace (std_table oc s) = Some s"
  by (simp add: set_trace_def)

lemma table_ok_standard [simp]: "table_ok (set_trace (register_all oc dispatch_new) s)"
  by (simp add: table_ok_register_all)

section \<open>Properties\<close>

text \<open>Over a well-formed guest memory, \<open>write\<close> to stdout or stderr captures exactly the bytes of
  the guest's buffer and returns their number; a buffer with an unmapped byte is an engine error
  and captures nothing; any other descriptor returns \<open>-EBADF\<close> whatever the buffer; a count above
  \<open>isize::MAX\<close> is a panic.\<close>

theorem write_on_memory:
  assumes "im_inv m" and "ctx_mem ctx = in_mem_box oc m"
    and "unat (arg1 regs) + unat (arg2 regs) < 2 ^ 64"
  shows "write_handle oc ctx regs =
    (let fd = u64_as_i64 (arg0 regs); count = unat (arg2 regs) in
     if fd \<noteq> 1 \<and> fd \<noteq> 2 then (Ok (Return (- EBADF)), ctx)
     else if isize_max < count then (Panic CapacityOverflow, ctx)
     else case ref_read (im_byte m) (unat (arg1 regs)) count of
            Inl _ \<Rightarrow> (Err (Engine ''guest memory read failed''), ctx)
          | Inr bs \<Rightarrow> (Ok (Return (int count)), ctx\<lparr>ctx_io := capture_write (ctx_io ctx) fd bs\<rparr>))"
proof -
  let ?a = "unat (arg1 regs)" and ?n = "unat (arg2 regs)"
  have rd: "ctx_read ctx (arg1 regs) ?n =
     (if isize_max < ?n then Panic CapacityOverflow
      else case ref_read (im_byte m) ?a ?n of
             Inl (x, k) \<Rightarrow> Err \<lparr>ge_addr = of_nat x, ge_len = k\<rparr> | Inr bs \<Rightarrow> Ok bs)"
    using assms by (simp add: ctx_read_def in_mem_box_def im_read_spec)
  have len: "u64_as_i64 (of_nat (length bs)) = int ?n"
    if "ref_read (im_byte m) ?a ?n = Inr bs" "\<not> isize_max < ?n" for bs
    using that usize_as_i64 [of ?n] by (simp add: ref_read_Inr_iff isize_max_def)
  show ?thesis
    by (auto simp: write_handle_cases rd Let_def len EBADF_def split: sum.split)
qed

definition hello_guest :: in_mem_guest where
  "hello_guest = \<lparr>im_bytes = [(0x1000, [104, 105])]\<rparr>"

lemma hello_guest_inv [simp]: "im_inv hello_guest"
  by (simp add: im_inv_def hello_guest_def)

theorem write_on_memory_witness:
  "fst (write_handle True \<lparr>ctx_process = Running, ctx_mem = in_mem_box True hello_guest, ctx_io = capture_new\<rparr>
          (from_regs 1 (1, 0x1000, 2, 0, 0, 0) 0)) = Ok (Return 2)"
  using write_on_memory [of hello_guest
      "\<lparr>ctx_process = Running, ctx_mem = in_mem_box True hello_guest, ctx_io = capture_new\<rparr>" True
      "from_regs 1 (1, 0x1000, 2, 0, 0, 0) 0"]
    hello_guest_inv
  by (simp add: u64_as_i64_def isize_max_def ref_read_numeral im_byte_def in_entry_def EBADF_def
      hello_guest_def)

text \<open>A guest that passes a count above \<open>isize::MAX\<close> to \<open>write\<close> on stdout or stderr panics the
  host, on both memory backends and for every address, instead of getting an error back.\<close>

theorem write_huge_count_panics:
  assumes "u64_as_i64 (arg0 regs) = 1 \<or> u64_as_i64 (arg0 regs) = 2"
    and "isize_max < unat (arg2 regs)"
    and "ctx_mem c = in_mem_box oc m" and "ctx_mem c' = unicorn_box E uc"
  shows "write_handle oc c regs = (Panic CapacityOverflow, c) \<and>
         write_handle oc c' regs = (Panic CapacityOverflow, c')"
  using assms
  by (auto simp: write_handle_cases ctx_read_def in_mem_box_def unicorn_box_def im_read_def ug_read_def
      vec_with_capacity_def vec_zeroed_def)

definition idle_engine :: "unit engine" where
  "idle_engine = \<lparr>e_new = Inr (), e_reg_read = (\<lambda>_ _. Inr 0), e_reg_write = (\<lambda>uc _ _. (Inr (), uc)),
     e_mem_map = (\<lambda>uc _ _ _. (Inr (), uc)), e_mem_read = (\<lambda>_ _ _. Inl ''READ_UNMAPPED''),
     e_mem_write = (\<lambda>uc _ _. (Inl ''WRITE_UNMAPPED'', uc)), e_hook_syscall = (\<lambda>uc. (Inr (), uc)),
     e_emu_stop = (\<lambda>uc. (Inr (), uc)), e_start = (\<lambda>uc _ _ _ _. uc), e_advance = (\<lambda>uc. (EvDone, uc))\<rparr>"

theorem write_huge_count_panics_witness:
  "fst (write_handle False \<lparr>ctx_process = Running, ctx_mem = unicorn_box idle_engine (), ctx_io = capture_new\<rparr>
          (from_regs 1 (1, 0, 0x8000000000000000, 0, 0, 0) 0)) = Panic CapacityOverflow"
  using write_huge_count_panics [of "from_regs 1 (1, 0, 0x8000000000000000, 0, 0, 0) 0" "ctxt_new False" False im_new
      "\<lparr>ctx_process = Running, ctx_mem = unicorn_box idle_engine (), ctx_io = capture_new\<rparr>" idle_engine "()"]
  by (simp add: u64_as_i64_def isize_max_def ctxt_new_def)

text \<open>\<open>exit\<close> and \<open>exit_group\<close> end the process with the low eight bits of their argument, as the
  wait status of Linux has it, and touch neither memory nor output.\<close>

theorem exit_status:
  "\<exists>code. unat code = unat (arg0 regs) mod 256 \<and>
     exit_handle ctx regs = (Ok (OExit (Exit code)), ctx\<lparr>ctx_process := Exited code\<rparr>) \<and>
     exit_group_handle ctx regs = exit_handle ctx regs"
proof (intro exI conjI)
  show "unat (ucast (arg0 regs AND 0xff) :: u8) = unat (arg0 regs) mod 256"
    by (simp add: low_byte)
qed (simp_all add: exit_handle_def exit_group_handle_def Let_def)

text \<open>\<open>register_all\<close> routes 1, 60 and 231 to the three handlers, keeps every other route, and on an
  empty table makes exactly these numbers implemented.\<close>

theorem register_all_routes:
  "dispatch_get (register_all oc d) nr =
     (if nr = 1 then Some (write_handler oc) else if nr = 60 then Some exit_handler
      else if nr = 231 then Some exit_group_handler else dispatch_get d nr) \<and>
   implemented (register_all oc dispatch_new) = [1, 60, 231]"
  by (simp add: register_all_def dispatch_get_def find_handler_register)
     (simp add: implemented_def register_def dispatch_new_def)

text \<open>A system call through the standard table never reports a handler mismatch, never changes
  guest memory, grows the output by exactly what it returns to the guest (nothing for an error,
  an exit or a negative errno), and changes the process state only by exiting with the reported
  code.\<close>

theorem standard_dispatch_contract:
  assumes "ctx_ok ctx"
    and "dispatch_call oc (set_trace (register_all oc dispatch_new) s) ctx regs ts = (res, ctx', ts')"
  shows "res \<noteq> Err Mismatch \<and> ctx_mem ctx' = ctx_mem ctx \<and> ctx_ok ctx' \<and>
         out_len ctx' = out_len ctx + (case res of Ok (Return v) \<Rightarrow> nat v | _ \<Rightarrow> 0) \<and>
         (case res of
            Ok (OExit r) \<Rightarrow> \<exists>c. r = Exit c \<and> ctx_process ctx' = Exited c
          | _ \<Rightarrow> ctx_process ctx' = ctx_process ctx)"
proof -
  let ?d = "set_trace (register_all oc dispatch_new) s"
  note contract = dispatch_contract [OF table_ok_standard [of oc s], of oc ts]
  have run: "dispatch_handle oc ?d ts ctx regs = (res, ctx')"
    using assms(2) by (simp add: dispatch_handle_def)
  show ?thesis
    using syscall_contract.mem_same [OF contract, of ctx regs]
      syscall_contract.owned [OF contract, of ctx regs]
      syscall_contract.keeps_ok [OF contract assms(1), of regs]
      syscall_contract.output_growth [OF contract assms(1), of regs]
      syscall_contract.process_change [OF contract assms(1), of regs]
    unfolding run fst_conv snd_conv by simp
qed

lemma ctx_ok_boxes [simp]:
  "ctx_ok \<lparr>ctx_process = p, ctx_mem = in_mem_box oc m, ctx_io = capture_new\<rparr>"
  "ctx_ok \<lparr>ctx_process = p, ctx_mem = unicorn_box E uc, ctx_io = capture_new\<rparr>"
  by (simp_all add: ctx_ok_def in_mem_box_def unicorn_box_def ug.guest_reader_axioms im.guest_reader_axioms)

theorem standard_dispatch_contract_witness:
  "let ctx = \<lparr>ctx_process = Running, ctx_mem = in_mem_box True hello_guest, ctx_io = capture_new\<rparr>;
       d = set_trace (register_all True dispatch_new) 0;
       (res, ctx', _) = dispatch_call True d ctx (from_regs 60 (7, 0, 0, 0, 0, 0) 0) empty_store
   in ctx_process ctx' = Exited 7 \<and> out_len ctx' = 0"
proof -
  let ?ctx = "\<lparr>ctx_process = Running, ctx_mem = in_mem_box True hello_guest, ctx_io = capture_new\<rparr>"
    and ?d = "set_trace (register_all True dispatch_new) 0"
    and ?regs = "from_regs 60 (7, 0, 0, 0, 0, 0) 0"
  obtain res ctx' ts' where call: "dispatch_call True ?d ?ctx ?regs empty_store = (res, ctx', ts')"
    using prod_cases3 by blast
  have "find_handler ?d (syscall_nr ?regs) = Some exit_handler"
    by (simp add: register_all_def find_handler_register)
  from dispatch_call_known [OF this, of True ?ctx empty_store] have "res = Ok (OExit (Exit 7))"
    using call by (simp add: exit_handle_def Let_def)
  then show ?thesis
    using standard_dispatch_contract [OF ctx_ok_boxes(1) call] call
    by (simp add: Let_def out_len_def capture_combined_def capture_new_def)
qed

end
