(* ===== verification/Scripted_Engine.thy ===== *)
theory Scripted_Engine
  imports Unicorn
begin

text \<open>
  A concrete engine, for the witnesses: registers, a byte memory and a script of the events a
  guest would cause, each with the registers it sets first. A stop request ends the run before
  the next event. It satisfies \<open>regs_law\<close>, \<open>stop_law\<close>, \<open>exec_law\<close>, \<open>mem_law\<close>, \<open>map_law\<close> and
  \<open>prot_law\<close>, which shows that they can hold together.
\<close>

record ram =
  ram_regs :: "reg \<Rightarrow> u64"
  ram_mem :: "nat \<Rightarrow> u8 option"
  ram_prot :: "nat \<Rightarrow> prot"
  ram_script :: "((reg \<times> u64) list \<times> uc_event) list"
  ram_stopped :: bool

definition ram_mapped :: "ram \<Rightarrow> nat \<Rightarrow> nat \<Rightarrow> bool" where
  "ram_mapped uc a n \<longleftrightarrow> (\<forall>i < n. ram_mem uc (a + i) \<noteq> None)"

definition ram_read :: "ram \<Rightarrow> u64 \<Rightarrow> nat \<Rightarrow> string + (nat \<Rightarrow> u8)" where
  "ram_read uc a n =
     (if ram_mapped uc (unat a) n then Inr (\<lambda>i. the (ram_mem uc (unat a + i)))
      else Inl ''Invalid memory read (UC_ERR_READ_UNMAPPED)'')"

definition ram_write :: "ram \<Rightarrow> u64 \<Rightarrow> bytes \<Rightarrow> (string + unit) \<times> ram" where
  "ram_write uc a d =
     (if ram_mapped uc (unat a) (length d)
      then (Inr (), uc\<lparr>ram_mem := upd_bytes (ram_mem uc) (unat a) d\<rparr>)
      else (Inl ''Invalid memory write (UC_ERR_WRITE_UNMAPPED)'', uc))"

definition ram_map :: "ram \<Rightarrow> u64 \<Rightarrow> u64 \<Rightarrow> prot \<Rightarrow> (string + unit) \<times> ram" where
  "ram_map uc a s p =
     (if page_aligned a \<and> page_aligned s \<and> s \<noteq> 0 \<and> unat a + unat s \<le> 2 ^ 64 \<and>
        (\<forall>i < unat s. ram_mem uc (unat a + i) = None)
      then (Inr (), uc\<lparr>ram_mem := upd_bytes (ram_mem uc) (unat a) (replicate (unat s) 0),
                       ram_prot := (\<lambda>x. if unat a \<le> x \<and> x < unat a + unat s then p else ram_prot uc x)\<rparr>)
      else (Inl ''Invalid memory mapping (UC_ERR_MAP)'', uc))"

definition ram_advance :: "ram \<Rightarrow> uc_event \<times> ram" where
  "ram_advance uc =
     (if ram_stopped uc then (EvDone, uc)
      else case ram_script uc of
             [] \<Rightarrow> (EvDone, uc)
           | (sets, ev) # rest \<Rightarrow>
               (ev, uc\<lparr>ram_regs := foldl (\<lambda>f (r, x). f(r := x)) (ram_regs uc) sets, ram_script := rest\<rparr>))"

definition ram_new :: "((reg \<times> u64) list \<times> uc_event) list \<Rightarrow> ram" where
  "ram_new script = \<lparr>ram_regs = (\<lambda>_. 0), ram_mem = (\<lambda>_. None), ram_prot = (\<lambda>_. bot), ram_script = script, ram_stopped = False\<rparr>"

definition ram_engine :: "((reg \<times> u64) list \<times> uc_event) list \<Rightarrow> ram engine" where
  "ram_engine script =
     \<lparr>e_new = Inr (ram_new script),
      e_reg_read = (\<lambda>uc r. Inr (ram_regs uc r)),
      e_reg_write = (\<lambda>uc r x. (Inr (), uc\<lparr>ram_regs := (ram_regs uc)(r := x)\<rparr>)),
      e_mem_map = ram_map, e_mem_read = ram_read, e_mem_write = ram_write,
      e_hook_syscall = (\<lambda>uc. (Inr (), uc)),
      e_emu_stop = (\<lambda>uc. (Inr (), uc\<lparr>ram_stopped := True\<rparr>)),
      e_start = (\<lambda>uc start until timeout count. uc\<lparr>ram_stopped := False\<rparr>),
      e_advance = ram_advance\<rparr>"

lemma ram_engine_simps [simp]:
  "e_new (ram_engine script) = Inr (ram_new script)"
  "e_reg_read (ram_engine script) uc r = Inr (ram_regs uc r)"
  "e_reg_write (ram_engine script) uc r x = (Inr (), uc\<lparr>ram_regs := (ram_regs uc)(r := x)\<rparr>)"
  "e_mem_map (ram_engine script) = ram_map" "e_mem_read (ram_engine script) = ram_read"
  "e_mem_write (ram_engine script) = ram_write"
  "e_hook_syscall (ram_engine script) uc = (Inr (), uc)"
  "e_emu_stop (ram_engine script) uc = (Inr (), uc\<lparr>ram_stopped := True\<rparr>)"
  "e_start (ram_engine script) uc a b c n = uc\<lparr>ram_stopped := False\<rparr>"
  "e_advance (ram_engine script) = ram_advance"
  by (simp_all add: ram_engine_def)

lemma ram_regs_law [simp]: "regs_law (ram_engine script) ram_mem"
  by (simp add: regs_law_def)

lemma ram_stop_law [simp]: "stop_law (ram_engine script)"
  by (simp add: stop_law_def ram_advance_def)

lemma ram_exec_law [simp]: "exec_law (ram_engine script) ram_mem"
  by (auto simp: exec_law_def ram_advance_def split: list.splits)

lemma ram_write_dom: "dom (ram_mem (snd (ram_write uc a d))) = dom (ram_mem uc)"
proof -
  have "ram_mem uc x \<noteq> None" if "ram_mapped uc (unat a) (length d)" "unat a \<le> x" "x < unat a + length d" for x
    using that unfolding ram_mapped_def by (metis le_add_diff_inverse less_diff_conv2 add.commute)
  then show ?thesis by (auto simp: ram_write_def upd_bytes_def dom_def)
qed

lemma ram_map_law [simp]: "map_law (ram_engine script) ram_mem"
  by (auto simp: map_law_def ram_map_def ram_write_dom)

lemma ram_prot_law [simp]: "prot_law (ram_engine script) ram_prot"
  by (auto simp: prot_law_def ram_map_def ram_write_def)

lemma ram_mem_law [simp]: "mem_law (ram_engine script) ram_mem"
  unfolding mem_law_def
proof (intro conjI allI impI, goal_cases)
  case (1 uc a n)
  then show ?case by (auto simp: ram_read_def ram_mapped_def)
next
  case (2 uc a d)
  then show ?case by (auto simp: ram_write_def ram_mapped_def)
next
  case (3 uc a s p)
  then show ?case by (simp add: ram_map_def)
next
  case (4 uc a s p)
  then show ?case by (simp add: ram_map_def)
qed

end
