(* ===== verification/Backends.thy ===== *)
theory Backends
  imports Syscall_Handlers Scripted_Engine
begin

text \<open>
  System calls on the two memory backends of \<open>vkernel/mem.rs\<close>: the in-memory map that the unit tests
  of the Rust sources use, and the live engine that a run uses.
\<close>

section \<open>One behaviour on both backends\<close>

lemma backends_read:
  assumes "mem_law E byte_at" and "im_inv m" and "byte_at uc = im_byte m"
    and fit: "n \<le> isize_max \<Longrightarrow> unat a + n < 2 ^ 64"
  shows "map_err (\<lambda>_. Engine msg) (im_read oc m a n) = map_err (\<lambda>_. Engine msg) (ug_read E uc a n)"
proof (cases "n \<le> isize_max")
  case True
  note im = im.read_ref [OF assms(2) fit [OF True] True, of oc]
    and ug = guest_memory.read_ref [OF ug_guest_memory [OF assms(1)] TrueI fit [OF True] True, of uc]
  show ?thesis
  proof (cases "ref_read (im_byte m) (unat a) n")
    case (Inl x)
    then obtain e e' where "im_read oc m a n = Err e" "ug_read E uc a n = Err e'"
      using im ug assms(3) by (auto simp: is_Err_def)
    then show ?thesis by simp
  next
    case (Inr bs)
    then have "im_read oc m a n = Ok bs" "ug_read E uc a n = Ok bs" using im ug assms(3) by simp_all
    then show ?thesis by simp
  qed
next
  case False
  then show ?thesis by (simp add: im_read_def ug_read_def vec_with_capacity_def vec_zeroed_def)
qed

text \<open>What a client can tell of a call: its result, the output and the process state.\<close>

definition same_effect ::
  "(dispatch_error, syscall_outcome) result \<times> 'm ctxt \<Rightarrow> (dispatch_error, syscall_outcome) result \<times> 'n ctxt \<Rightarrow> bool" where
  "same_effect x y \<longleftrightarrow>
     fst x = fst y \<and> ctx_io (snd x) = ctx_io (snd y) \<and> ctx_process (snd x) = ctx_process (snd y)"

definition same_handler :: "'m ctxt \<Rightarrow> 'n ctxt \<Rightarrow> syscall_regs \<Rightarrow> 'm handler option \<Rightarrow> 'n handler option \<Rightarrow> bool" where
  "same_handler c c' regs h h' \<longleftrightarrow>
     (case (h, h') of
        (None, None) \<Rightarrow> True
      | (Some h, Some h') \<Rightarrow> h_name h = h_name h' \<and> same_effect (h_handle h c regs) (h_handle h' c' regs)
      | _ \<Rightarrow> False)"

lemma dispatch_same_effect:
  assumes "ctx_io c = ctx_io c'" and "ctx_process c = ctx_process c'" and "d_trace d = d_trace d'"
    and "same_handler c c' regs (find_handler d (syscall_nr regs)) (find_handler d' (syscall_nr regs))"
  shows "case (dispatch_call oc d c regs ts, dispatch_call oc d' c' regs ts) of
           ((res, ctx, ts1), (res', ctx', ts2)) \<Rightarrow>
             res = res' \<and> ctx_io ctx = ctx_io ctx' \<and> ctx_process ctx = ctx_process ctx' \<and> ts1 = ts2"
proof (cases "find_handler d (syscall_nr regs)")
  case None
  then have None': "find_handler d' (syscall_nr regs) = None"
    using assms(4) by (auto simp: same_handler_def split: option.splits)
  show ?thesis unfolding dispatch_call_unknown [OF None] dispatch_call_unknown [OF None'] by (simp add: assms(1-3))
next
  case (Some h)
  then obtain h' where h': "find_handler d' (syscall_nr regs) = Some h'" "h_name h = h_name h'"
      "same_effect (h_handle h c regs) (h_handle h' c' regs)"
    using assms(4) by (auto simp: same_handler_def split: option.splits)
  obtain r x r' x' where eff: "h_handle h c regs = (r, x)" "h_handle h' c' regs = (r', x')" by fastforce
  show ?thesis
    unfolding dispatch_call_known [OF Some] dispatch_call_known [OF h'(1)] eff h'(2)
    using h'(3) by (cases r) (auto simp: eff same_effect_def assms(3))
qed

lemma write_same_effect:
  assumes "ctx_io c = ctx_io c'" and "ctx_process c = ctx_process c'"
    and rd: "\<And>msg. u64_as_i64 (arg0 regs) = 1 \<or> u64_as_i64 (arg0 regs) = 2 \<Longrightarrow> map_err (\<lambda>_. Engine msg) (ctx_read c (arg1 regs) (unat (arg2 regs))) =
            map_err (\<lambda>_. Engine msg) (ctx_read c' (arg1 regs) (unat (arg2 regs)))"
  shows "same_effect (write_handle oc c regs) (write_handle oc c' regs)"
proof (cases "u64_as_i64 (arg0 regs) \<noteq> 1 \<and> u64_as_i64 (arg0 regs) \<noteq> 2")
  case True
  then show ?thesis by (simp add: write_handle_def Let_def same_effect_def assms(1,2))
next
  case False
  then have "u64_as_i64 (arg0 regs) = 1 \<or> u64_as_i64 (arg0 regs) = 2" by blast
  note eq = rd [OF this]
  show ?thesis
    unfolding write_handle_def Let_def if_not_P [OF False] eq
    by (cases "map_err (\<lambda>_. Engine ''guest memory read failed'') (ctx_read c' (arg1 regs) (unat (arg2 regs)))")
       (simp_all add: same_effect_def assms(1,2))
qed

text \<open>C25: system calls do the same on the in-memory backend, which the unit tests use, as on the live
  engine: with the same bytes mapped, the standard table gives the same result, output, process
  state and trace, for any registers but one kind: a \<open>write\<close> to stdout or stderr, with a count that does
  not panic the host, whose buffer reaches to the top of the address space or wraps around it. On
  such a buffer the in-memory map and the emulator may differ.\<close>

theorem backends_agree:
  assumes "mem_law E byte_at" and "im_inv m" and "byte_at uc = im_byte m"
    and "syscall_nr regs = 1 \<and> (u64_as_i64 (arg0 regs) = 1 \<or> u64_as_i64 (arg0 regs) = 2) \<and>
         unat (arg2 regs) \<le> isize_max \<longrightarrow> unat (arg1 regs) + unat (arg2 regs) < 2 ^ 64"
    and "c = \<lparr>ctx_process = p, ctx_mem = in_mem_box oc m, ctx_io = io\<rparr>"
    and "c' = \<lparr>ctx_process = p, ctx_mem = unicorn_box E uc, ctx_io = io\<rparr>"
  shows "case (dispatch_call oc (set_trace (register_all oc dispatch_new) s) c regs ts,
               dispatch_call oc (set_trace (register_all oc dispatch_new) s) c' regs ts) of
           ((res, ctx, ts1), (res', ctx', ts2)) \<Rightarrow>
             res = res' \<and> ctx_io ctx = ctx_io ctx' \<and> ctx_process ctx = ctx_process ctx' \<and> ts1 = ts2"
proof -
  have c: "ctx_io c = ctx_io c'" "ctx_process c = ctx_process c'" by (simp_all add: assms(5,6))
  have rd: "map_err (\<lambda>_. Engine msg) (ctx_read c (arg1 regs) (unat (arg2 regs))) =
            map_err (\<lambda>_. Engine msg) (ctx_read c' (arg1 regs) (unat (arg2 regs)))"
    if "syscall_nr regs = 1" and "u64_as_i64 (arg0 regs) = 1 \<or> u64_as_i64 (arg0 regs) = 2" for msg
    using backends_read [OF assms(1-3), of "unat (arg2 regs)" "arg1 regs" msg oc] assms(4) that
    unfolding assms(5,6) by (simp add: ctx_read_def in_mem_box_def unicorn_box_def)
  have "same_effect (write_handle oc c regs) (write_handle oc c' regs)" if "syscall_nr regs = 1"
    by (rule write_same_effect [OF c rd [OF that]])
  moreover have "same_effect (exit_handle c regs) (exit_handle c' regs)"
      "same_effect (exit_group_handle c regs) (exit_group_handle c' regs)"
    by (simp_all add: same_effect_def exit_handle_def exit_group_handle_def Let_def c)
  ultimately show ?thesis
    by (intro dispatch_same_effect) (simp_all add: find_handler_std same_handler_def c)
qed

text \<open>Both backends hold the bytes 104, 105 at address 4096, and the guest writes them.\<close>

theorem backends_agree_witness:
  "let c = \<lparr>ctx_process = Running, ctx_mem = in_mem_box True hello_guest, ctx_io = capture_new\<rparr>
   in fst (dispatch_call True (set_trace (register_all True dispatch_new) 0) c
        (from_regs 1 (1, 0x1000, 2, 0, 0, 0) 0) empty_store) = Ok (Return 2)"
proof -
  let ?uc = "(ram_new [])\<lparr>ram_mem := im_byte hello_guest\<rparr>"
  let ?c = "\<lparr>ctx_process = Running, ctx_mem = in_mem_box True hello_guest, ctx_io = capture_new\<rparr>"
    and ?c' = "\<lparr>ctx_process = Running, ctx_mem = unicorn_box (ram_engine []) ?uc, ctx_io = capture_new\<rparr>"
  let ?regs = "from_regs 1 (1, 0x1000, 2, 0, 0, 0) 0" and ?d = "std_table True 0"
  have bytes: "im_byte hello_guest 4096 = Some 104" "im_byte hello_guest 4097 = Some 105"
    by (simp_all add: im_byte_def hello_guest_def in_entry_def)
  have "ram_mapped ?uc 4096 2" using bytes by (simp add: ram_mapped_def ram_new_def less_2_cases_iff all_conj_distrib)
  then have "fst (write_handle True ?c' ?regs) = Ok (Return 2)"
    by (simp add: write_handle_def Let_def ctx_read_def unicorn_box_def ug_read_def vec_zeroed_def ram_read_def
        isize_max_def u64_as_i64_def)
  then have live: "fst (dispatch_call True ?d ?c' ?regs empty_store) = Ok (Return 2)"
    using dispatch_call_known [of ?d ?regs "write_handler True" True ?c' empty_store]
    by (auto simp: find_handler_std split: prod.splits)
  show ?thesis
    using backends_agree [OF ram_mem_law hello_guest_inv, of ?uc ?regs ?c Running True capture_new ?c' "[]" 0 empty_store] live
    by (auto simp: Let_def split: prod.splits)
qed

end
