(* ===== verification/Elf_Loader.thy ===== *)
theory Elf_Loader
  imports Memory_Map
begin

text \<open>
  \<open>elf/loader.rs\<close>: from image bytes to loadable segments. The parser is goblin's
  \<open>Elf::parse\<close>, a third-party crate: it is the parameter \<open>parse\<close>, from the bytes to an error
  message or to the header fields the loader reads (\<open>goblin_elf\<close>, \<open>program_header\<close>). The
  numbers \<open>EM_X86_64\<close>, \<open>ET_EXEC\<close>, \<open>ET_DYN\<close>, \<open>PT_LOAD\<close> and the \<open>PF_\<close> bits are those of the ELF
  standard.

  \<open>load_segment\<close> is the body of the loop over \<open>PT_LOAD\<close> headers, with the error paths in the
  order of the code; \<open>load_elf\<close> is the whole function. \<open>segment_outcome\<close> restates one
  iteration by cases on plain arithmetic, and \<open>elf_accepts\<close> says declaratively which images
  load; the theorems relate the code to the two, for every branch.
\<close>

section \<open>The code\<close>

record program_header =
  p_type :: u32
  p_flags :: u32
  p_offset :: u64
  p_vaddr :: u64
  p_filesz :: u64
  p_memsz :: u64
  p_align :: u64

record goblin_elf =
  is_64 :: bool
  e_machine :: u16
  e_type :: u16
  e_entry :: u64
  program_headers :: "program_header list"

abbreviation EM_X86_64 :: u16 where "EM_X86_64 \<equiv> 62"
abbreviation ET_EXEC :: u16 where "ET_EXEC \<equiv> 2"
abbreviation ET_DYN :: u16 where "ET_DYN \<equiv> 3"
abbreviation PT_LOAD :: u32 where "PT_LOAD \<equiv> 1"
abbreviation PF_X :: u32 where "PF_X \<equiv> 1"
abbreviation PF_W :: u32 where "PF_W \<equiv> 2"
abbreviation PF_R :: u32 where "PF_R \<equiv> 4"

record segment =
  s_vaddr :: u64
  s_memsz :: u64
  s_filesz :: u64
  s_data :: bytes
  s_flags :: u32
  s_align :: u64

definition file_bytes :: "segment \<Rightarrow> ('e, bytes) result" where
  "file_bytes seg = slice_index 0 (unat (s_filesz seg)) (s_data seg)"

record loaded_elf =
  le_entry :: u64
  le_segments :: "segment list"
  le_is_pie :: bool

datatype elf_error =
    NotElf
  | UnsupportedFormat string
  | UnsupportedMachine
  | UnsupportedType u16
  | BadPhdr string
  | Truncated string
  | SegmentOverlap u64 u64

fun elf_code :: "elf_error \<Rightarrow> string" where
  "elf_code NotElf = ''E001''"
| "elf_code (UnsupportedFormat _) = ''E002''"
| "elf_code UnsupportedMachine = ''E003''"
| "elf_code (UnsupportedType _) = ''E004''"
| "elf_code (BadPhdr _) = ''E005''"
| "elf_code (Truncated _) = ''E006''"
| "elf_code (SegmentOverlap _ _) = ''E007''"

fun show_elf_error :: "elf_error \<Rightarrow> string" where
  "show_elf_error NotElf = elf_code NotElf @ '': not an ELF file (bad magic)''"
| "show_elf_error (UnsupportedFormat what) =
     elf_code (UnsupportedFormat what) @ '': unsupported image format: '' @ what"
| "show_elf_error UnsupportedMachine =
     elf_code UnsupportedMachine @ '': unsupported machine (stage 1 supports x86_64)''"
| "show_elf_error (UnsupportedType found) =
     elf_code (UnsupportedType found) @ '': unsupported ELF type '' @ fmt_dec (unat found) @
       '' (stage 1 supports static ET_EXEC)''"
| "show_elf_error (BadPhdr reason) =
     elf_code (BadPhdr reason) @ '': malformed program header: '' @ reason"
| "show_elf_error (Truncated reason) =
     elf_code (Truncated reason) @ '': truncated image: '' @ reason"
| "show_elf_error (SegmentOverlap vaddr other) =
     elf_code (SegmentOverlap vaddr other) @ '': loadable segment at 0x'' @ fmt_hex (unat vaddr) @
       '' overlaps segment at 0x'' @ fmt_hex (unat other)"

text \<open>The region a failed insertion blames: the first that contains the new segment's
  address, 0 when there is none.\<close>

definition overlap_other :: "bool \<Rightarrow> memory_map \<Rightarrow> u64 \<Rightarrow> (elf_error, u64) result" where
  "overlap_other oc m vaddr =
     r_bind (find_res (\<lambda>r. r_bind (region_contains oc r vaddr) (\<lambda>c. Ok (c \<or> vaddr = r_base r)))
               (mm_regions m))
       (\<lambda>found. Ok (case found of Some r \<Rightarrow> r_base r | None \<Rightarrow> 0))"

definition load_segment ::
  "bool \<Rightarrow> bytes \<Rightarrow> program_header \<Rightarrow> memory_map \<times> segment list \<Rightarrow>
     (elf_error, memory_map \<times> segment list) result" where
  "load_segment oc img phdr st =
     r_bind (ok_or_else (BadPhdr ''PT_LOAD vaddr+memsz overflows'')
               (checked_add64 (p_vaddr phdr) (p_memsz phdr))) (\<lambda>vend.
     r_bind (sub64 oc vend (p_vaddr phdr)) (\<lambda>sz.
     case mm_insert oc (fst st) (p_vaddr phdr) sz (p_flags phdr) of
       (Panic q, _) \<Rightarrow> Panic q
     | (Err _, m) \<Rightarrow> r_bind (overlap_other oc m (p_vaddr phdr)) (\<lambda>other.
         Err (SegmentOverlap (p_vaddr phdr) other))
     | (Ok _, m) \<Rightarrow>
         r_bind (ok_or_else (Truncated ''PT_LOAD offset+filesz overflows'')
                   (checked_add64 (p_offset phdr) (p_filesz phdr))) (\<lambda>file_end.
         if length img < unat file_end
         then Err (Truncated (''PT_LOAD file range '' @ fmt_hex_alt (unat (p_offset phdr)) @ ''..'' @
                fmt_hex_alt (unat file_end) @ '' exceeds image size '' @ fmt_hex_alt (length img)))
         else
           r_bind (vec_zeroed (unat (p_memsz phdr))) (\<lambda>data.
           r_bind (slice_index (unat (p_offset phdr)) (unat file_end) img) (\<lambda>file.
           r_bind (copy_at 0 file data) (\<lambda>data'.
             Ok (m, snd st @ [\<lparr>s_vaddr = p_vaddr phdr, s_memsz = p_memsz phdr,
               s_filesz = p_filesz phdr, s_data = data', s_flags = p_flags phdr,
               s_align = p_align phdr\<rparr>])))))))"

fun load_segments ::
  "bool \<Rightarrow> bytes \<Rightarrow> program_header list \<Rightarrow> memory_map \<times> segment list \<Rightarrow>
     (elf_error, memory_map \<times> segment list) result" where
  "load_segments oc img [] st = Ok st"
| "load_segments oc img (phdr # phdrs) st =
     r_bind (load_segment oc img phdr st) (load_segments oc img phdrs)"

definition has_magic :: "bytes \<Rightarrow> bool" where
  "has_magic img \<longleftrightarrow> \<not> (length img < 4 \<or> take 4 img \<noteq> [0x7f, 0x45, 0x4c, 0x46])"

definition pt_loads :: "goblin_elf \<Rightarrow> program_header list" where
  "pt_loads elf = [p \<leftarrow> program_headers elf. p_type p = PT_LOAD]"

definition load_elf ::
  "bool \<Rightarrow> (bytes \<Rightarrow> string + goblin_elf) \<Rightarrow> bytes \<Rightarrow> (elf_error, loaded_elf) result" where
  "load_elf oc parse img =
     (if \<not> has_magic img then Err NotElf
      else r_bind (of_sum BadPhdr (parse img)) (\<lambda>elf.
        if \<not> is_64 elf then Err (UnsupportedFormat ''32-bit ELF (stage 1 is x86_64 only)'')
        else if e_machine elf \<noteq> EM_X86_64 then Err UnsupportedMachine
        else let is_pie = (e_type elf = ET_DYN) in
          if e_type elf \<noteq> ET_EXEC then
            (if is_pie then Err (UnsupportedType (e_type elf)) else Err (UnsupportedType (e_type elf)))
          else
            r_bind (load_segments oc img (pt_loads elf) (mm_new, [])) (\<lambda>(_, segments).
              if segments = [] then Err (BadPhdr ''no PT_LOAD segments'')
              else Ok \<lparr>le_entry = e_entry elf, le_segments = segments, le_is_pie = is_pie\<rparr>)))"

definition perms_string :: "u32 \<Rightarrow> string" where
  "perms_string flags =
     [if flags AND PF_R \<noteq> 0 then CHR ''R'' else CHR ''-'',
      if flags AND PF_W \<noteq> 0 then CHR ''W'' else CHR ''-'',
      if flags AND PF_X \<noteq> 0 then CHR ''X'' else CHR ''-'']"

section \<open>One header, by cases\<close>

abbreviation phdr_range :: "program_header \<Rightarrow> nat set" where
  "phdr_range p \<equiv> addr_range (p_vaddr p) (p_memsz p)"

definition phdr_region :: "program_header \<Rightarrow> region" where
  "phdr_region p = \<lparr>r_base = p_vaddr p, r_size = p_memsz p, r_prot = p_flags p\<rparr>"

definition phdr_claim :: "memory_map \<Rightarrow> program_header \<Rightarrow> memory_map" where
  "phdr_claim m p = (if p_memsz p = 0 then m else mm_added m (phdr_region p))"

definition phdr_segment :: "bytes \<Rightarrow> program_header \<Rightarrow> segment" where
  "phdr_segment img p =
     \<lparr>s_vaddr = p_vaddr p, s_memsz = p_memsz p, s_filesz = p_filesz p,
      s_data = sub_slice (unat (p_offset p)) (unat (p_offset p) + unat (p_filesz p)) img @
               replicate (unat (p_memsz p) - unat (p_filesz p)) 0,
      s_flags = p_flags p, s_align = p_align p\<rparr>"

definition blamed :: "memory_map \<Rightarrow> u64 \<Rightarrow> u64" where
  "blamed m a = (case find (\<lambda>r. unat a \<in> region_range r) (mm_regions m) of
                   Some r \<Rightarrow> r_base r | None \<Rightarrow> 0)"

definition segment_outcome ::
  "bytes \<Rightarrow> program_header \<Rightarrow> memory_map \<times> segment list \<Rightarrow>
     (elf_error, memory_map \<times> segment list) result" where
  "segment_outcome img p st =
     (let off = unat (p_offset p); fsz = unat (p_filesz p); msz = unat (p_memsz p) in
      if \<not> no_wrap (p_vaddr p) (p_memsz p) then Err (BadPhdr ''PT_LOAD vaddr+memsz overflows'')
      else if mm_claimed (fst st) \<inter> phdr_range p \<noteq> {}
        then Err (SegmentOverlap (p_vaddr p) (blamed (fst st) (p_vaddr p)))
      else if \<not> no_wrap (p_offset p) (p_filesz p)
        then Err (Truncated ''PT_LOAD offset+filesz overflows'')
      else if length img < off + fsz
        then Err (Truncated (''PT_LOAD file range '' @ fmt_hex_alt off @ ''..'' @
               fmt_hex_alt (off + fsz) @ '' exceeds image size '' @ fmt_hex_alt (length img)))
      else if isize_max < msz then Panic CapacityOverflow
      else if msz < fsz then Panic SliceOutOfRange
      else Ok (phdr_claim (fst st) p, snd st @ [phdr_segment img p]))"

lemma overlap_other_eq:
  assumes "mm_inv m"
  shows "overlap_other oc m a = Ok (blamed m a)"
proof -
  have contains: "r_bind (region_contains oc r a) (\<lambda>c. Ok (c \<or> a = r_base r)) =
      (Ok (unat a \<in> region_range r) :: (elf_error, bool) result)" if "r \<in> set (mm_regions m)" for r
  proof -
    have "region_ok r" using assms that by (simp add: mm_inv_def)
    then show ?thesis
      by (auto simp: region_contains_iff addr_range_mem region_ok_def unat_gt_0)
  qed
  show ?thesis
    by (simp add: overlap_other_def blamed_def find_res_pure [OF contains])
qed

lemma phdr_claimed [simp]: "mm_claimed (phdr_claim m p) = mm_claimed m \<union> phdr_range p"
  by (simp add: phdr_claim_def phdr_region_def)

lemma phdr_claim_inv [inv_intros]:
  "mm_inv m \<Longrightarrow> no_wrap (p_vaddr p) (p_memsz p) \<Longrightarrow> mm_claimed m \<inter> phdr_range p = {} \<Longrightarrow>
     mm_inv (phdr_claim m p)"
  by (simp add: phdr_claim_def phdr_region_def mm_inv_added region_ok_def)

lemma mm_insert_phdr:
  "mm_inv m \<Longrightarrow> no_wrap (p_vaddr p) (p_memsz p) \<Longrightarrow> mm_claimed m \<inter> phdr_range p = {} \<Longrightarrow>
     mm_insert oc m (p_vaddr p) (p_memsz p) (p_flags p) = (Ok (), phdr_claim m p)"
  by (simp add: mm_insert_free phdr_claim_def phdr_region_def)

lemma load_segment_eq:
  assumes inv: "mm_inv (fst st)"
  shows "load_segment oc img p st = segment_outcome img p st"
proof (cases "no_wrap (p_vaddr p) (p_memsz p)")
  case False
  then show ?thesis
    by (simp add: load_segment_def segment_outcome_def no_wrap_def checked_add64_def)
next
  case nw: True
  then have vend: "checked_add64 (p_vaddr p) (p_memsz p) = Some (p_vaddr p + p_memsz p)"
    by (simp add: no_wrap_def)
  have size: "sub64 oc (p_vaddr p + p_memsz p) (p_vaddr p) = Ok (p_memsz p)"
    using nw by (simp add: sub64_def no_wrap_def word_less_nat_alt unat_add64)
  show ?thesis
  proof (cases "mm_claimed (fst st) \<inter> phdr_range p = {}")
    case False
    then show ?thesis using inv nw
      by (simp add: load_segment_def segment_outcome_def vend size mm_insert_taken overlap_other_eq)
  next
    case free: True
    have ins: "mm_insert oc (fst st) (p_vaddr p) (p_memsz p) (p_flags p) =
        (Ok (), phdr_claim (fst st) p)"
      using inv nw free by (rule mm_insert_phdr)
    show ?thesis
    proof (cases "no_wrap (p_offset p) (p_filesz p)")
      case False
      then show ?thesis using nw free ins
        by (simp add: load_segment_def segment_outcome_def vend size no_wrap_def checked_add64_def)
    next
      case True
      then have fe: "checked_add64 (p_offset p) (p_filesz p) = Some (p_offset p + p_filesz p)"
        and ufe: "unat (p_offset p + p_filesz p) = unat (p_offset p) + unat (p_filesz p)"
        by (simp_all add: no_wrap_def unat_add64)
      show ?thesis using nw free ins True
        by (simp add: load_segment_def segment_outcome_def vend size fe ufe Let_def vec_zeroed_def
            slice_index_def copy_at_def phdr_segment_def)
    qed
  qed
qed

section \<open>The loop over the headers\<close>

definition phdr_fits :: "bytes \<Rightarrow> program_header \<Rightarrow> bool" where
  "phdr_fits img p \<longleftrightarrow>
     no_wrap (p_vaddr p) (p_memsz p) \<and> no_wrap (p_offset p) (p_filesz p) \<and>
     unat (p_offset p) + unat (p_filesz p) \<le> length img \<and>
     p_filesz p \<le> p_memsz p \<and> unat (p_memsz p) \<le> isize_max"

definition phdrs_disjoint :: "program_header list \<Rightarrow> bool" where
  "phdrs_disjoint ps \<longleftrightarrow> sorted_wrt (\<lambda>p q. phdr_range p \<inter> phdr_range q = {}) ps"

lemma segment_outcome_Ok_iff:
  "segment_outcome img p st = Ok st' \<longleftrightarrow>
     phdr_fits img p \<and> mm_claimed (fst st) \<inter> phdr_range p = {} \<and>
     st' = (phdr_claim (fst st) p, snd st @ [phdr_segment img p])"
  by (auto simp: segment_outcome_def phdr_fits_def Let_def word_le_nat_alt)

lemma load_segment_Ok_iff:
  "mm_inv (fst st) \<Longrightarrow> load_segment oc img p st = Ok st' \<longleftrightarrow>
     phdr_fits img p \<and> mm_claimed (fst st) \<inter> phdr_range p = {} \<and>
     st' = (phdr_claim (fst st) p, snd st @ [phdr_segment img p])"
  by (simp add: load_segment_eq segment_outcome_Ok_iff)

lemma load_segment_inv:
  "mm_inv (fst st) \<Longrightarrow> load_segment oc img p st = Ok st' \<Longrightarrow> mm_inv (fst st')"
  by (auto simp: load_segment_Ok_iff phdr_fits_def intro: inv_intros)

fun segments_outcome ::
  "bytes \<Rightarrow> program_header list \<Rightarrow> memory_map \<times> segment list \<Rightarrow>
     (elf_error, memory_map \<times> segment list) result" where
  "segments_outcome img [] st = Ok st"
| "segments_outcome img (p # ps) st = r_bind (segment_outcome img p st) (segments_outcome img ps)"

lemma load_segments_eq:
  "mm_inv (fst st) \<Longrightarrow> load_segments oc img ps st = segments_outcome img ps st"
proof (induction ps arbitrary: st)
  case Nil
  then show ?case by simp
next
  case (Cons p ps)
  have "r_bind (load_segment oc img p st) (load_segments oc img ps) =
        r_bind (segment_outcome img p st) (segments_outcome img ps)"
  proof (rule r_bind_cong)
    show "load_segment oc img p st = segment_outcome img p st"
      using Cons.prems by (rule load_segment_eq)
    show "load_segments oc img ps st' = segments_outcome img ps st'"
      if "segment_outcome img p st = Ok st'" for st'
      using Cons.IH Cons.prems load_segment_inv load_segment_eq that by metis
  qed
  then show ?case by simp
qed

lemma segments_outcome_Ok_iff:
  "segments_outcome img ps st = Ok st' \<longleftrightarrow>
     (\<forall>p \<in> set ps. phdr_fits img p) \<and> phdrs_disjoint ps \<and>
     (\<forall>p \<in> set ps. mm_claimed (fst st) \<inter> phdr_range p = {}) \<and>
     st' = (foldl phdr_claim (fst st) ps, snd st @ map (phdr_segment img) ps)"
proof (induction ps arbitrary: st)
  case Nil
  then show ?case by (auto simp: phdrs_disjoint_def)
next
  case (Cons p ps)
  show ?case
    by (auto simp: segment_outcome_Ok_iff Cons.IH phdrs_disjoint_def Int_Un_distrib2)
qed

text \<open>A run that does not end in \<open>Ok\<close> is decided by one header: those before it were
  accepted, and the outcome is that of its iteration.\<close>

lemma segments_outcome_stops:
  assumes "segments_outcome img ps st = r" and "\<not> is_Ok r"
  shows "\<exists>qs p rs st'. ps = qs @ p # rs \<and> segments_outcome img qs st = Ok st' \<and>
           segment_outcome img p st' = r"
  using assms
proof (induction ps arbitrary: st)
  case Nil
  then show ?case by auto
next
  case (Cons p ps)
  show ?case
  proof (cases "segment_outcome img p st")
    case (Ok st1)
    with Cons.prems have "segments_outcome img ps st1 = r" by simp
    from Cons.IH [OF this Cons.prems(2)] obtain qs q rs st' where
      "ps = qs @ q # rs" "segments_outcome img qs st1 = Ok st'" "segment_outcome img q st' = r"
      by blast
    then show ?thesis using Ok by (intro exI [of _ "p # qs"]) auto
  next
    case (Err e)
    with Cons.prems show ?thesis by (intro exI [of _ "[]"]) auto
  next
    case (Panic q)
    with Cons.prems show ?thesis by (intro exI [of _ "[]"]) auto
  qed
qed

lemma segments_outcome_append:
  "segments_outcome img (ps @ qs) st = r_bind (segments_outcome img ps st) (segments_outcome img qs)"
proof (induction ps arbitrary: st)
  case (Cons p ps)
  then show ?case by (cases "segment_outcome img p st") auto
qed simp

lemma segments_outcome_inv:
  "mm_inv (fst st) \<Longrightarrow> segments_outcome img ps st = Ok st' \<Longrightarrow> mm_inv (fst st')"
proof (induction ps arbitrary: st)
  case (Cons p ps)
  then obtain st1 where st1: "segment_outcome img p st = Ok st1"
      and rest: "segments_outcome img ps st1 = Ok st'" by auto
  from Cons.prems(1) st1 have "mm_inv (fst st1)"
    using load_segment_inv load_segment_eq by metis
  then show ?case using rest by (rule Cons.IH)
qed simp

lemma claimed_foldl_phdr_claim:
  "mm_claimed (foldl phdr_claim m ps) = mm_claimed m \<union> (\<Union>p \<in> set ps. phdr_range p)"
  by (induction ps arbitrary: m) auto

section \<open>The whole loader\<close>

text \<open>An image loads when it has the magic bytes, goblin parses it as a 64-bit x86-64
  \<open>ET_EXEC\<close>, and its \<open>PT_LOAD\<close> headers (at least one) each fit and do not overlap.\<close>

definition elf_accepts :: "(bytes \<Rightarrow> string + goblin_elf) \<Rightarrow> bytes \<Rightarrow> goblin_elf \<Rightarrow> bool" where
  "elf_accepts parse img elf \<longleftrightarrow>
     has_magic img \<and> parse img = Inr elf \<and> is_64 elf \<and> e_machine elf = EM_X86_64 \<and>
     e_type elf = ET_EXEC \<and> pt_loads elf \<noteq> [] \<and>
     (\<forall>p \<in> set (pt_loads elf). phdr_fits img p) \<and> phdrs_disjoint (pt_loads elf)"

definition elf_image :: "bytes \<Rightarrow> goblin_elf \<Rightarrow> loaded_elf" where
  "elf_image img elf =
     \<lparr>le_entry = e_entry elf, le_segments = map (phdr_segment img) (pt_loads elf), le_is_pie = False\<rparr>"

definition elf_checked :: "(bytes \<Rightarrow> string + goblin_elf) \<Rightarrow> bytes \<Rightarrow> goblin_elf \<Rightarrow> bool" where
  "elf_checked parse img elf \<longleftrightarrow>
     has_magic img \<and> parse img = Inr elf \<and> is_64 elf \<and> e_machine elf = EM_X86_64 \<and>
     e_type elf = ET_EXEC"

lemma load_elf_checked:
  "elf_checked parse img elf \<Longrightarrow>
     load_elf oc parse img =
       r_bind (segments_outcome img (pt_loads elf) (mm_new, [])) (\<lambda>(_, segs).
         if segs = [] then Err (BadPhdr ''no PT_LOAD segments'')
         else Ok \<lparr>le_entry = e_entry elf, le_segments = segs, le_is_pie = False\<rparr>)"
  by (simp add: load_elf_def elf_checked_def load_segments_eq)

lemma load_elf_unchecked:
  "(\<And>elf. \<not> elf_checked parse img elf) \<Longrightarrow> \<exists>e. \<forall>oc. load_elf oc parse img = Err e"
  by (cases "parse img") (auto simp: load_elf_def elf_checked_def Let_def)

lemma load_elf_Ok_char:
  "load_elf oc parse img = Ok le \<longleftrightarrow> (\<exists>elf. elf_accepts parse img elf \<and> le = elf_image img elf)"
proof (cases "\<exists>elf. elf_checked parse img elf")
  case True
  then obtain elf where elf: "elf_checked parse img elf" ..
  then have "(\<exists>elf. elf_accepts parse img elf \<and> le = elf_image img elf) \<longleftrightarrow>
               elf_accepts parse img elf \<and> le = elf_image img elf"
    by (auto simp: elf_checked_def elf_accepts_def)
  also have "\<dots> \<longleftrightarrow> load_elf oc parse img = Ok le"
    using elf by (auto simp: load_elf_checked segments_outcome_Ok_iff elf_accepts_def elf_image_def
        elf_checked_def split: if_splits)
  finally show ?thesis by blast
next
  case False
  then obtain e where "load_elf oc parse img = Err e"
    using load_elf_unchecked [of parse img] by blast
  then show ?thesis using False by (auto simp: elf_checked_def elf_accepts_def)
qed

text \<open>C13: the loader is correct and complete. It returns an image exactly for the inputs that
  \<open>elf_accepts\<close> describes, and the image holds the entry point and one segment per \<open>PT_LOAD\<close>
  header, in header order, with the file bytes followed by zeros up to the memory size. Both
  builds agree.\<close>

theorem load_elf_Ok_iff:
  "load_elf oc parse img = Ok le \<longleftrightarrow> (\<exists>elf. elf_accepts parse img elf \<and> le = elf_image img elf)"
  by (rule load_elf_Ok_char)

text \<open>The address arithmetic of the loader never overflows, so the checked and the release
  build return the same outcome on every input, errors and panics included.\<close>

theorem load_elf_same_in_both_builds: "load_elf True parse img = load_elf False parse img"
proof (cases "\<exists>elf. elf_checked parse img elf")
  case True
  then show ?thesis by (auto simp: load_elf_checked)
next
  case False
  then show ?thesis using load_elf_unchecked [of parse img] by auto
qed

text \<open>What a client may rely on in one segment: it lies inside the address space and carries
  exactly \<open>memsz\<close> bytes, the first \<open>filesz\<close> of them a slice of the file and the rest zero.\<close>

definition segment_ok :: "bytes \<Rightarrow> segment \<Rightarrow> bool" where
  "segment_ok img seg \<longleftrightarrow>
     no_wrap (s_vaddr seg) (s_memsz seg) \<and> length (s_data seg) = unat (s_memsz seg) \<and>
     s_filesz seg \<le> s_memsz seg \<and>
     (\<exists>off. off + unat (s_filesz seg) \<le> length img \<and>
        take (unat (s_filesz seg)) (s_data seg) = sub_slice off (off + unat (s_filesz seg)) img) \<and>
     (\<forall>i. unat (s_filesz seg) \<le> i \<and> i < unat (s_memsz seg) \<longrightarrow> s_data seg ! i = 0)"

abbreviation seg_range :: "segment \<Rightarrow> nat set" where
  "seg_range seg \<equiv> addr_range (s_vaddr seg) (s_memsz seg)"

lemma phdr_segment_ok: "phdr_fits img p \<Longrightarrow> segment_ok img (phdr_segment img p)"
  by (auto simp: phdr_fits_def segment_ok_def phdr_segment_def word_le_nat_alt nth_append
      intro!: exI [of _ "unat (p_offset p)"])

lemma file_bytes_ok:
  "segment_ok img seg \<Longrightarrow> file_bytes seg = Ok (take (unat (s_filesz seg)) (s_data seg))"
  by (simp add: segment_ok_def file_bytes_def slice_index_def sub_slice_def word_le_nat_alt)

lemma phdr_segment_range [simp]: "seg_range (phdr_segment img p) = phdr_range p"
  by (simp add: phdr_segment_def)

text \<open>C14: a loaded image has at least one segment and is never position-independent; its
  segments do not overlap, every one is well-formed as \<open>segment_ok\<close> says, and \<open>file_bytes\<close> never
  panics on one of them.\<close>

theorem load_elf_sound:
  assumes "load_elf oc parse img = Ok le"
  shows "le_segments le \<noteq> [] \<and> \<not> le_is_pie le \<and>
     sorted_wrt (\<lambda>a b. seg_range a \<inter> seg_range b = {}) (le_segments le) \<and>
     (\<forall>seg \<in> set (le_segments le). segment_ok img seg \<and> is_Ok (file_bytes seg))"
proof -
  obtain elf where "elf_accepts parse img elf" and "le = elf_image img elf"
    using assms by (auto simp: load_elf_Ok_char)
  then show ?thesis
    by (auto simp: elf_accepts_def elf_image_def phdrs_disjoint_def sorted_wrt_map phdr_segment_ok
        file_bytes_ok [OF phdr_segment_ok])
qed

lemma phdrs_disjoint_snoc:
  "phdrs_disjoint (qs @ [p]) \<longleftrightarrow>
     phdrs_disjoint qs \<and> (\<Union>x \<in> set qs. phdr_range x) \<inter> phdr_range p = {}"
  by (auto simp: phdrs_disjoint_def sorted_wrt_append)

text \<open>The map after an accepted prefix of the headers, and the iteration that follows it.\<close>

definition claimed_by :: "program_header list \<Rightarrow> memory_map" where
  "claimed_by qs = foldl phdr_claim mm_new qs"

lemma mm_claimed_by [simp]: "mm_claimed (claimed_by qs) = (\<Union>x \<in> set qs. phdr_range x)"
  by (simp add: claimed_by_def claimed_foldl_phdr_claim)

lemma segments_outcome_prefix:
  "segments_outcome img qs (mm_new, []) = Ok st \<longleftrightarrow>
     (\<forall>x \<in> set qs. phdr_fits img x) \<and> phdrs_disjoint qs \<and>
     st = (claimed_by qs, map (phdr_segment img) qs)"
  by (auto simp: segments_outcome_Ok_iff claimed_by_def)

lemma load_elf_at_header:
  assumes "elf_checked parse img elf" and "pt_loads elf = qs @ p # rs"
    and "\<forall>x \<in> set qs. phdr_fits img x" and "phdrs_disjoint qs"
    and "segment_outcome img p (claimed_by qs, map (phdr_segment img) qs) = r" and "\<not> is_Ok r"
  shows "load_elf oc parse img = (case r of Err e \<Rightarrow> Err e | Panic q \<Rightarrow> Panic q)"
proof -
  have "segments_outcome img qs (mm_new, []) = Ok (claimed_by qs, map (phdr_segment img) qs)"
    using assms(3,4) by (simp add: segments_outcome_prefix)
  then show ?thesis
    using assms by (cases r) (auto simp: load_elf_checked segments_outcome_append)
qed

lemma load_elf_stops_at_header:
  assumes "elf_checked parse img elf"
    and "segments_outcome img (pt_loads elf) (mm_new, []) = r" and "\<not> is_Ok r"
  obtains qs p rs where "pt_loads elf = qs @ p # rs" "\<forall>x \<in> set qs. phdr_fits img x"
    "phdrs_disjoint qs" "segment_outcome img p (claimed_by qs, map (phdr_segment img) qs) = r"
  using segments_outcome_stops [OF assms(2,3)] by (auto simp: segments_outcome_prefix)

lemma segment_outcome_Panic_iff:
  "segment_outcome img p st = Panic q \<longleftrightarrow>
     no_wrap (p_vaddr p) (p_memsz p) \<and> mm_claimed (fst st) \<inter> phdr_range p = {} \<and>
     no_wrap (p_offset p) (p_filesz p) \<and> unat (p_offset p) + unat (p_filesz p) \<le> length img \<and>
     (if isize_max < unat (p_memsz p) then q = CapacityOverflow
      else p_memsz p < p_filesz p \<and> q = SliceOutOfRange)"
  by (auto simp: segment_outcome_def Let_def word_less_nat_alt)

text \<open>C29: exactly when the loader panics instead of reporting an error. The decisive header is the
  first that is not accepted: its memory range is free, its file range lies in the image, and
  either its memory size is above \<open>isize::MAX\<close> or its file size is larger than its memory
  size. Nothing checks \<open>filesz \<le> memsz\<close>, so a malformed image reaches the copy.\<close>

theorem load_elf_Panic_iff:
  "load_elf oc parse img = Panic q \<longleftrightarrow>
     (\<exists>elf qs p rs. elf_checked parse img elf \<and> pt_loads elf = qs @ p # rs \<and>
        (\<forall>x \<in> set qs. phdr_fits img x) \<and> phdrs_disjoint (qs @ [p]) \<and>
        no_wrap (p_vaddr p) (p_memsz p) \<and> no_wrap (p_offset p) (p_filesz p) \<and>
        unat (p_offset p) + unat (p_filesz p) \<le> length img \<and>
        (if isize_max < unat (p_memsz p) then q = CapacityOverflow
         else p_memsz p < p_filesz p \<and> q = SliceOutOfRange))" (is "?L \<longleftrightarrow> ?R")
proof
  assume L: ?L
  then obtain elf where elf: "elf_checked parse img elf"
    using load_elf_unchecked [of parse img] by fastforce
  with L have "segments_outcome img (pt_loads elf) (mm_new, []) = Panic q"
    by (auto simp: load_elf_checked r_bind_eq_Panic split: if_splits)
  from load_elf_stops_at_header [OF elf this] obtain qs p rs where
    "pt_loads elf = qs @ p # rs" "\<forall>x \<in> set qs. phdr_fits img x" "phdrs_disjoint qs"
    "segment_outcome img p (claimed_by qs, map (phdr_segment img) qs) = Panic q" by auto
  then show ?R using elf
    by (intro exI [of _ elf] exI [of _ qs] exI [of _ p] exI [of _ rs])
       (simp add: segment_outcome_Panic_iff phdrs_disjoint_snoc)
next
  assume ?R
  then obtain elf qs p rs where R: "elf_checked parse img elf" "pt_loads elf = qs @ p # rs"
    "\<forall>x \<in> set qs. phdr_fits img x" "phdrs_disjoint qs"
    "segment_outcome img p (claimed_by qs, map (phdr_segment img) qs) = Panic q"
    by (auto simp: segment_outcome_Panic_iff phdrs_disjoint_snoc)
  show ?L using load_elf_at_header [OF R] by simp
qed

text \<open>Which images the header checks reject, and with which error. The magic bytes come
  first, whatever the parser would say; then the parser's own message, the class, the machine and
  the type, in that order.\<close>

theorem load_elf_header_errors:
  "(load_elf oc parse img = Err NotElf \<longleftrightarrow> \<not> has_magic img) \<and>
   (parse img = Inl msg \<and> load_elf oc parse img = Err (BadPhdr msg) \<longleftrightarrow> parse img = Inl msg \<and> has_magic img) \<and>
   (load_elf oc parse img = Err (UnsupportedFormat w) \<longleftrightarrow>
      w = ''32-bit ELF (stage 1 is x86_64 only)'' \<and> has_magic img \<and>
      (\<exists>elf. parse img = Inr elf \<and> \<not> is_64 elf)) \<and>
   (load_elf oc parse img = Err UnsupportedMachine \<longleftrightarrow>
      has_magic img \<and> (\<exists>elf. parse img = Inr elf \<and> is_64 elf \<and> e_machine elf \<noteq> EM_X86_64)) \<and>
   (load_elf oc parse img = Err (UnsupportedType t) \<longleftrightarrow>
      has_magic img \<and> (\<exists>elf. parse img = Inr elf \<and> is_64 elf \<and> e_machine elf = EM_X86_64 \<and>
                            e_type elf \<noteq> ET_EXEC \<and> t = e_type elf))"
proof -
  have seg: "segment_outcome img p st \<noteq> Err NotElf \<and> segment_outcome img p st \<noteq> Err (UnsupportedFormat w) \<and>
      segment_outcome img p st \<noteq> Err UnsupportedMachine \<and>
      segment_outcome img p st \<noteq> Err (UnsupportedType t)" for p st w t
    by (auto simp: segment_outcome_def Let_def)
  have segs: "segments_outcome img ps st \<noteq> Err NotElf \<and>
      segments_outcome img ps st \<noteq> Err (UnsupportedFormat w) \<and>
      segments_outcome img ps st \<noteq> Err UnsupportedMachine \<and>
      segments_outcome img ps st \<noteq> Err (UnsupportedType t)" for ps st w t
    by (induction ps arbitrary: st) (auto simp: r_bind_eq_Err seg)
  show ?thesis
  proof (cases "\<exists>elf. elf_checked parse img elf")
    case True
    then obtain elf' where elf': "elf_checked parse img elf'" ..
    then have "load_elf oc parse img \<noteq> Err NotElf \<and> load_elf oc parse img \<noteq> Err (UnsupportedFormat w) \<and>
       load_elf oc parse img \<noteq> Err UnsupportedMachine \<and> load_elf oc parse img \<noteq> Err (UnsupportedType t)"
      for w t
      using segs by (auto simp: load_elf_checked r_bind_eq_Err split: if_splits)
    then show ?thesis using elf' by (auto simp: elf_checked_def)
  next
    case False
    then show ?thesis
      by (cases "parse img") (auto simp: load_elf_def elf_checked_def Let_def)
  qed
qed

lemma set_claimed_by:
  "set (mm_regions (claimed_by qs)) = phdr_region ` {x \<in> set qs. p_memsz x \<noteq> 0}"
proof -
  have "set (mm_regions (foldl phdr_claim m qs)) =
          set (mm_regions m) \<union> phdr_region ` {x \<in> set qs. p_memsz x \<noteq> 0}" for m
    by (induction qs arbitrary: m) (auto simp: phdr_claim_def)
  then show ?thesis by (simp add: claimed_by_def)
qed

lemma blamed_cases:
  "(\<exists>x \<in> set qs. unat a \<in> phdr_range x \<and> blamed (claimed_by qs) a = p_vaddr x) \<or>
   (\<forall>x \<in> set qs. unat a \<notin> phdr_range x) \<and> blamed (claimed_by qs) a = 0"
proof (cases "find (\<lambda>r. unat a \<in> region_range r) (mm_regions (claimed_by qs))")
  case None
  then have "\<forall>r \<in> set (mm_regions (claimed_by qs)). unat a \<notin> region_range r"
    by (simp add: find_None_iff)
  then have "\<forall>x \<in> set qs. unat a \<notin> phdr_range x"
    by (fastforce simp: set_claimed_by phdr_region_def)
  with None show ?thesis by (simp add: blamed_def)
next
  case (Some r)
  then have "r \<in> set (mm_regions (claimed_by qs))" and "unat a \<in> region_range r"
    by (auto simp: find_Some_iff)
  with Some show ?thesis by (auto simp: blamed_def set_claimed_by phdr_region_def)
qed

text \<open>At most one earlier header contains the address, so the order of the look-up does not matter.\<close>

lemma phdrs_disjoint_unique:
  assumes "phdrs_disjoint qs" and "x \<in> set qs" and "y \<in> set qs" and "a \<in> phdr_range x" and "a \<in> phdr_range y"
  shows "x = y"
  using assms unfolding phdrs_disjoint_def by (induction qs) auto

lemma blamed_find:
  assumes "phdrs_disjoint qs"
  shows "blamed (claimed_by qs) a =
     (case find (\<lambda>x. unat a \<in> phdr_range x) qs of Some x \<Rightarrow> p_vaddr x | None \<Rightarrow> 0)"
proof (cases "find (\<lambda>x. unat a \<in> phdr_range x) qs")
  case None
  then have "\<forall>x \<in> set qs. unat a \<notin> phdr_range x" by (simp add: find_None_iff)
  then show ?thesis using None blamed_cases [of qs a] by auto
next
  case (Some x)
  then have x: "x \<in> set qs" "unat a \<in> phdr_range x" by (auto simp: find_Some_iff)
  then obtain y where "y \<in> set qs" "unat a \<in> phdr_range y" "blamed (claimed_by qs) a = p_vaddr y"
    using blamed_cases [of qs a] by blast
  then show ?thesis using Some phdrs_disjoint_unique [OF assms x(1) _ x(2)] by auto
qed

text \<open>C23: what the loader returns for an image that passes the header checks and has a header it does
  not accept. The first such header decides, and of its defects the first in this order: the
  memory range wraps; it meets the range of an earlier header, in which case the error names the
  earlier header that contains its address, or address 0 when it starts below the one it runs
  into; the file range wraps; the file range ends behind the image; the memory size is above
  \<open>isize::MAX\<close>, a panic; the file size is above the memory size, a panic.\<close>

theorem load_elf_first_bad_header:
  assumes "elf_checked parse img elf" and "pt_loads elf = qs @ p # rs"
    and "\<forall>x \<in> set qs. phdr_fits img x" and "phdrs_disjoint qs"
    and "\<not> (phdr_fits img p \<and> phdrs_disjoint (qs @ [p]))"
  shows "load_elf oc parse img =
     (let off = unat (p_offset p); fsz = unat (p_filesz p) in
      if \<not> no_wrap (p_vaddr p) (p_memsz p) then Err (BadPhdr ''PT_LOAD vaddr+memsz overflows'')
      else if \<exists>x \<in> set qs. phdr_range x \<inter> phdr_range p \<noteq> {}
        then Err (SegmentOverlap (p_vaddr p)
               (case find (\<lambda>x. unat (p_vaddr p) \<in> phdr_range x) qs of Some x \<Rightarrow> p_vaddr x | None \<Rightarrow> 0))
      else if \<not> no_wrap (p_offset p) (p_filesz p) then Err (Truncated ''PT_LOAD offset+filesz overflows'')
      else if length img < off + fsz
        then Err (Truncated (''PT_LOAD file range '' @ fmt_hex_alt off @ ''..'' @ fmt_hex_alt (off + fsz) @
               '' exceeds image size '' @ fmt_hex_alt (length img)))
      else if isize_max < unat (p_memsz p) then Panic CapacityOverflow
      else Panic SliceOutOfRange)"
proof -
  let ?st = "(claimed_by qs, map (phdr_segment img) qs)"
    and ?meets = "\<exists>x \<in> set qs. phdr_range x \<inter> phdr_range p \<noteq> {}"
  have overlap: "(mm_claimed (claimed_by qs) \<inter> phdr_range p \<noteq> {}) = ?meets" by auto
  have bad: "\<not> is_Ok (segment_outcome img p ?st)"
    using assms(4,5) segment_outcome_Ok_iff [of img p ?st]
    by (cases "segment_outcome img p ?st") (auto simp: phdrs_disjoint_snoc)
  note load = load_elf_at_header [OF assms(1-4) refl bad, of oc,
      unfolded segment_outcome_def fst_conv overlap blamed_find [OF assms(4)] Let_def]
  have last: "p_memsz p < p_filesz p"
    if "no_wrap (p_vaddr p) (p_memsz p)" "\<not> ?meets" "no_wrap (p_offset p) (p_filesz p)"
      "\<not> length img < unat (p_offset p) + unat (p_filesz p)" "\<not> isize_max < unat (p_memsz p)"
    using that assms(4,5) by (auto simp: phdr_fits_def phdrs_disjoint_snoc not_le)
  show ?thesis
  proof (cases "no_wrap (p_vaddr p) (p_memsz p) \<and> \<not> ?meets \<and> no_wrap (p_offset p) (p_filesz p) \<and>
      \<not> length img < unat (p_offset p) + unat (p_filesz p)")
    case True
    then show ?thesis
      unfolding load Let_def using last
      by (cases "isize_max < unat (p_memsz p)") (simp_all add: word_less_nat_alt)
  next
    case False
    then show ?thesis
      unfolding load Let_def
      by (cases "no_wrap (p_vaddr p) (p_memsz p)"; cases ?meets; cases "no_wrap (p_offset p) (p_filesz p)") simp_all
  qed
qed

text \<open>Every loader error displays as its stable code, a colon and a message, and different
  kinds of error have different codes.\<close>

theorem elf_error_codes:
  "take 6 (show_elf_error e) = elf_code e @ '': '' \<and>
   (elf_code e = elf_code e' \<longleftrightarrow>
      (case (e, e') of
         (NotElf, NotElf) \<Rightarrow> True | (UnsupportedFormat _, UnsupportedFormat _) \<Rightarrow> True
       | (UnsupportedMachine, UnsupportedMachine) \<Rightarrow> True
       | (UnsupportedType _, UnsupportedType _) \<Rightarrow> True | (BadPhdr _, BadPhdr _) \<Rightarrow> True
       | (Truncated _, Truncated _) \<Rightarrow> True | (SegmentOverlap _ _, SegmentOverlap _ _) \<Rightarrow> True
       | _ \<Rightarrow> False))"
  by (cases e; cases e'; simp)

section \<open>Concrete images\<close>

text \<open>Images for the witnesses: the magic bytes and a few more, with headers given by the
  instance of the parser.\<close>

definition sample_bytes :: bytes where
  "sample_bytes = [0x7f, 0x45, 0x4c, 0x46, 1, 2, 3, 4]"

definition sample_phdr :: "u64 \<Rightarrow> u64 \<Rightarrow> u64 \<Rightarrow> program_header" where
  "sample_phdr vaddr filesz memsz =
     \<lparr>p_type = PT_LOAD, p_flags = 5, p_offset = 4, p_vaddr = vaddr, p_filesz = filesz,
      p_memsz = memsz, p_align = 0x1000\<rparr>"

definition sample_elf :: "program_header list \<Rightarrow> goblin_elf" where
  "sample_elf ps = \<lparr>is_64 = True, e_machine = EM_X86_64, e_type = ET_EXEC, e_entry = 0x401000,
                   program_headers = ps\<rparr>"

definition sample_parse :: "program_header list \<Rightarrow> bytes \<Rightarrow> string + goblin_elf" where
  "sample_parse ps img = Inr (sample_elf ps)"

lemmas sample_defs = sample_bytes_def sample_phdr_def sample_elf_def sample_parse_def

lemma sample_checked: "elf_checked (sample_parse ps) sample_bytes (sample_elf ps)"
  by (simp add: elf_checked_def sample_defs has_magic_def)

lemma load_sample:
  "load_elf oc (sample_parse [sample_phdr 0x401000 2 4]) sample_bytes =
     Ok \<lparr>le_entry = 0x401000,
         le_segments = [\<lparr>s_vaddr = 0x401000, s_memsz = 4, s_filesz = 2, s_data = [1, 2, 0, 0],
                        s_flags = 5, s_align = 0x1000\<rparr>],
         le_is_pie = False\<rparr>"
  unfolding load_elf_Ok_char
  by (rule exI [of _ "sample_elf [sample_phdr 0x401000 2 4]"])
     (simp add: elf_accepts_def elf_image_def sample_defs has_magic_def pt_loads_def phdr_fits_def
        phdrs_disjoint_def phdr_segment_def no_wrap_def isize_max_def sub_slice_def
        replicate_numeral)

theorem load_elf_sound_witness:
  "\<exists>le. load_elf True (sample_parse [sample_phdr 0x401000 2 4]) sample_bytes = Ok le \<and>
        le_segments le \<noteq> [] \<and> \<not> le_is_pie le"
  using load_elf_sound [OF load_sample] load_sample by blast

theorem load_elf_first_bad_header_witness:
  "load_elf True (sample_parse [sample_phdr 0x2000 2 0x1000, sample_phdr 0x1000 2 0x2000]) sample_bytes =
     Err (SegmentOverlap 0x1000 0)"
proof -
  let ?q = "sample_phdr 0x2000 2 0x1000" and ?p = "sample_phdr 0x1000 2 0x2000"
  have fits: "\<forall>x \<in> set [?q]. phdr_fits sample_bytes x"
    by (simp add: phdr_fits_def sample_defs no_wrap_def isize_max_def)
  have meets: "phdr_range ?q \<inter> phdr_range ?p \<noteq> {}" by (simp add: sample_defs addr_range_disjoint)
  then have "\<not> (phdr_fits sample_bytes ?p \<and> phdrs_disjoint ([?q] @ [?p]))" by (simp add: phdrs_disjoint_def)
  moreover have "pt_loads (sample_elf [?q, ?p]) = [?q] @ ?p # []" "phdrs_disjoint [?q]"
    by (simp_all add: pt_loads_def phdrs_disjoint_def sample_elf_def sample_phdr_def)
  ultimately have "load_elf True (sample_parse [?q, ?p]) sample_bytes =
      Err (SegmentOverlap (p_vaddr ?p)
        (case find (\<lambda>x. unat (p_vaddr ?p) \<in> phdr_range x) [?q] of Some x \<Rightarrow> p_vaddr x | None \<Rightarrow> 0))"
    using load_elf_first_bad_header [OF sample_checked [of "[?q, ?p]"] _ fits, where p = ?p and rs = "[]" and oc = True]
      meets by (simp add: sample_phdr_def no_wrap_def)
  then show ?thesis by (simp add: sample_phdr_def addr_range_mem)
qed

theorem load_elf_Panic_iff_witness:
  "load_elf True (sample_parse [sample_phdr 0x401000 4 2]) sample_bytes = Panic SliceOutOfRange"
  unfolding load_elf_Panic_iff
  by (intro exI [of _ "sample_elf [sample_phdr 0x401000 4 2]"] exI [of _ "[]"]
        exI [of _ "sample_phdr 0x401000 4 2"])
     (simp add: sample_checked, simp add: sample_defs pt_loads_def phdrs_disjoint_def no_wrap_def
        isize_max_def)

end
