(* ===== verification/Cpu_Context.thy ===== *)
theory Cpu_Context
  imports Syscall_Types
begin

text \<open>
  \<open>cpu/context.rs\<close>: the general-purpose register view \<open>CpuContext\<close> and its snapshot of the
  argument registers in the order of the system-call ABI. The virtual CPU does not use the
  struct (it reads the engine's registers one by one); \<open>cpu_context_of\<close> relates the two: it is
  the view one gets by reading every register of it through a function.
\<close>

record cpu_context =
  cc_rax :: u64
  cc_rbx :: u64
  cc_rcx :: u64
  cc_rdx :: u64
  cc_rsi :: u64
  cc_rdi :: u64
  cc_rbp :: u64
  cc_rsp :: u64
  cc_r8 :: u64
  cc_r9 :: u64
  cc_r10 :: u64
  cc_r11 :: u64
  cc_r12 :: u64
  cc_r13 :: u64
  cc_r14 :: u64
  cc_r15 :: u64
  cc_rip :: u64
  cc_rflags :: u64

definition cpu_context_new :: cpu_context where
  "cpu_context_new =
     \<lparr>cc_rax = 0, cc_rbx = 0, cc_rcx = 0, cc_rdx = 0, cc_rsi = 0, cc_rdi = 0, cc_rbp = 0, cc_rsp = 0,
      cc_r8 = 0, cc_r9 = 0, cc_r10 = 0, cc_r11 = 0, cc_r12 = 0, cc_r13 = 0, cc_r14 = 0, cc_r15 = 0,
      cc_rip = 0, cc_rflags = 0\<rparr>"

definition cpu_context_default :: cpu_context where
  "cpu_context_default = cpu_context_new"

definition cc_syscall_regs :: "cpu_context \<Rightarrow> args6" where
  "cc_syscall_regs c = (cc_rdi c, cc_rsi c, cc_rdx c, cc_r10 c, cc_r8 c, cc_r9 c)"

definition cpu_context_of :: "(reg \<Rightarrow> u64) \<Rightarrow> cpu_context" where
  "cpu_context_of f = cpu_context_new
     \<lparr>cc_rax := f RAX, cc_rdi := f RDI, cc_rsi := f RSI, cc_rdx := f RDX, cc_r10 := f R10,
      cc_r8 := f R8, cc_r9 := f R9, cc_rip := f RIP, cc_rsp := f RSP\<rparr>"

lemma cc_syscall_regs_of [simp]:
  "cc_syscall_regs (cpu_context_of f) = (f RDI, f RSI, f RDX, f R10, f R8, f R9)"
  by (simp add: cc_syscall_regs_def cpu_context_of_def)

end
