(* ===== verification/Vcpu.thy ===== *)
theory Vcpu
  imports Syscall_Handlers Elf_Loader Cpu_Context
begin

text \<open>
  The code of \<open>cpu/unicorn_engine.rs\<close>, over the engine parameter of theory \<open>Unicorn\<close>. The
  record \<open>vcpu\<close> is the struct \<open>Vcpu\<close>; the state the hook shares with its owner is the field
  \<open>v_shared\<close> (the \<open>Rc<RefCell<_>>\<close> has one owner besides the hook, and no two borrows meet), and
  the dispatch table the hook closes over is \<open>v_hook\<close>.

  \<open>syscall_hook\<close> is the hook's body; \<open>emu_loop\<close> is what \<open>emu_start\<close> does with it: go to the next
  trapped instruction, call the hook, go on. A guest may run forever, with system calls or without, so
  \<open>emu_loop\<close> is a partial function and \<open>vcpu_run\<close> returns \<open>None\<close> when it does. A method returns its outcome and the new
  state; a panic inside the hook, which the engine calls
  from C, ends the run and the process (\<open>Aborted\<close>).
\<close>

section \<open>Errors\<close>

definition PAGE_SIZE :: u64 where "PAGE_SIZE = 0x1000"
definition STACK_BASE :: u64 where "STACK_BASE = 0x7ffffffde000"
definition STACK_SIZE :: u64 where "STACK_SIZE = 0x20000"

datatype vcpu_error =
    Init string
  | Map u64 string
  | RegOp string
  | Exec string
  | NotLoaded

fun vcpu_code :: "vcpu_error \<Rightarrow> string" where
  "vcpu_code (Init _) = ''E501''"
| "vcpu_code (Map _ _) = ''E502''"
| "vcpu_code (RegOp _) = ''E503''"
| "vcpu_code (Exec _) = ''E504''"
| "vcpu_code NotLoaded = ''E505''"

fun show_vcpu_error :: "vcpu_error \<Rightarrow> string" where
  "show_vcpu_error (Init msg) = vcpu_code (Init msg) @ '': failed to initialize emulator: '' @ msg"
| "show_vcpu_error (Map base reason) =
     vcpu_code (Map base reason) @ '': cannot map guest region at 0x'' @ fmt_hex (unat base) @ '': '' @ reason"
| "show_vcpu_error (RegOp msg) = vcpu_code (RegOp msg) @ '': register/memory error: '' @ msg"
| "show_vcpu_error (Exec msg) = vcpu_code (Exec msg) @ '': execution error: '' @ msg"
| "show_vcpu_error NotLoaded = vcpu_code NotLoaded @ '': image not loaded''"

definition vcpu_error_of_mmap :: "mmap_error \<Rightarrow> vcpu_error" where
  "vcpu_error_of_mmap e = Map (me_base e) ''guest address space overlap''"

section \<open>State\<close>

record shared_state =
  sh_output :: bytes
  sh_exit :: "exit_reason option"
  sh_error :: "string option"

definition shared_new :: shared_state where
  "shared_new = \<lparr>sh_output = [], sh_exit = None, sh_error = None\<rparr>"

record 'uc vcpu =
  v_uc :: "'uc option"
  v_hook :: "'uc dispatch option"
  v_shared :: shared_state
  v_map :: memory_map
  v_regions :: "(u64 \<times> u64 \<times> u32) list"

definition install_syscall_hook ::
  "'uc engine \<Rightarrow> 'uc vcpu \<Rightarrow> 'uc dispatch \<Rightarrow> (vcpu_error, unit) result \<times> 'uc vcpu" where
  "install_syscall_hook E v d =
     (case v_uc v of
        None \<Rightarrow> (Panic ExpectFailed, v)
      | Some uc \<Rightarrow>
          (case e_hook_syscall E uc of
             (Inl e, uc') \<Rightarrow> (Err (Init e), v\<lparr>v_uc := Some uc'\<rparr>)
           | (Inr _, uc') \<Rightarrow> (Ok (), v\<lparr>v_uc := Some uc', v_hook := Some d\<rparr>)))"

definition vcpu_new :: "'uc engine \<Rightarrow> 'uc dispatch \<Rightarrow> (vcpu_error, 'uc vcpu) result" where
  "vcpu_new E d =
     r_bind (of_sum Init (e_new E)) (\<lambda>uc.
       let (r, v) = install_syscall_hook E
             \<lparr>v_uc = Some uc, v_hook = None, v_shared = shared_new, v_map = mm_new, v_regions = []\<rparr> d
       in r_bind r (\<lambda>_. Ok v))"

section \<open>Mapping\<close>

text \<open>The page range of a segment: \<open>end + PAGE_SIZE - 1\<close> is evaluated from the left.\<close>

definition seg_pages :: "bool \<Rightarrow> segment \<Rightarrow> (vcpu_error, u64 \<times> u64) result" where
  "seg_pages oc seg =
     (let start = s_vaddr seg AND NOT (PAGE_SIZE - 1) in
      r_bind (add64 oc (s_vaddr seg) (s_memsz seg)) (\<lambda>mem_end.
      r_bind (add64 oc (s_vaddr seg) (s_filesz seg)) (\<lambda>file_end.
      r_bind (add64 oc (max mem_end file_end) PAGE_SIZE) (\<lambda>e.
      r_bind (sub64 oc e 1) (\<lambda>e'.
      r_bind (sub64 oc (e' AND NOT (PAGE_SIZE - 1)) start) (\<lambda>sz.
        Ok (start, sz)))))))"

definition seg_prot :: "u32 \<Rightarrow> prot" where
  "seg_prot flags =
     (let p0 = bot;
          p1 = (if flags AND 0x4 \<noteq> 0 then sup p0 PROT_READ else p0);
          p2 = (if flags AND 0x2 \<noteq> 0 then sup p1 PROT_WRITE else p1)
      in if flags AND 0x1 \<noteq> 0 then sup p2 PROT_EXEC else p2)"

text \<open>\<open>self.map.insert(..)?\<close> and then \<open>uc.mem_map(..).map_err(..)?\<close>, which \<open>map_elf\<close> and
  \<open>map_memory\<close> share.\<close>

definition claim_and_map ::
  "'uc engine \<Rightarrow> bool \<Rightarrow> 'uc vcpu \<Rightarrow> 'uc \<Rightarrow> u64 \<Rightarrow> u64 \<Rightarrow> u32 \<Rightarrow> prot \<Rightarrow>
     (vcpu_error, 'uc) result \<times> 'uc vcpu" where
  "claim_and_map E oc v uc base sz flags prot =
     (case mm_insert oc (v_map v) base sz flags of
        (Panic p, m) \<Rightarrow> (Panic p, v\<lparr>v_map := m\<rparr>)
      | (Err e, m) \<Rightarrow> (Err (vcpu_error_of_mmap e), v\<lparr>v_map := m\<rparr>)
      | (Ok _, m) \<Rightarrow>
          (case e_mem_map E uc base sz prot of
             (Inl e, uc') \<Rightarrow> (Err (Map base e), v\<lparr>v_map := m, v_uc := Some uc'\<rparr>)
           | (Inr _, uc') \<Rightarrow> (Ok uc', v\<lparr>v_map := m, v_uc := Some uc'\<rparr>)))"

text \<open>One iteration of the loop of \<open>map_elf\<close>.\<close>

definition map_segment ::
  "'uc engine \<Rightarrow> bool \<Rightarrow> 'uc vcpu \<Rightarrow> 'uc \<Rightarrow> segment \<Rightarrow> (vcpu_error, 'uc) result \<times> 'uc vcpu" where
  "map_segment E oc v uc seg =
     (case seg_pages oc seg of
        Panic p \<Rightarrow> (Panic p, v)
      | Err e \<Rightarrow> (Err e, v)
      | Ok (start, sz) \<Rightarrow>
          (case claim_and_map E oc v uc start sz (s_flags seg) (seg_prot (s_flags seg)) of
             (Panic p, v1) \<Rightarrow> (Panic p, v1)
           | (Err e, v1) \<Rightarrow> (Err e, v1)
           | (Ok uc1, v1) \<Rightarrow>
               (case r_bind (sub64 oc (s_vaddr seg) start) (\<lambda>offset.
                     r_bind (file_bytes seg) (\<lambda>data.
                     r_bind (add64 oc start offset) (\<lambda>dest. Ok (dest, data)))) of
                  Panic p \<Rightarrow> (Panic p, v1)
                | Err e \<Rightarrow> (Err e, v1)
                | Ok (dest, data) \<Rightarrow>
                    (case e_mem_write E uc1 dest data of
                       (Inl e, uc2) \<Rightarrow> (Err (Map start e), v1\<lparr>v_uc := Some uc2\<rparr>)
                     | (Inr _, uc2) \<Rightarrow>
                         (Ok uc2, v1\<lparr>v_uc := Some uc2,
                                    v_regions := v_regions v1 @ [(start, sz, s_flags seg)]\<rparr>)))))"

fun map_segments ::
  "'uc engine \<Rightarrow> bool \<Rightarrow> 'uc vcpu \<Rightarrow> 'uc \<Rightarrow> segment list \<Rightarrow> (vcpu_error, unit) result \<times> 'uc vcpu" where
  "map_segments E oc v uc [] = (Ok (), v)"
| "map_segments E oc v uc (seg # segs) =
     (case map_segment E oc v uc seg of
        (Panic p, v') \<Rightarrow> (Panic p, v')
      | (Err e, v') \<Rightarrow> (Err e, v')
      | (Ok uc', v') \<Rightarrow> map_segments E oc v' uc' segs)"

definition map_elf ::
  "'uc engine \<Rightarrow> bool \<Rightarrow> 'uc vcpu \<Rightarrow> loaded_elf \<Rightarrow> (vcpu_error, unit) result \<times> 'uc vcpu" where
  "map_elf E oc v img =
     (case v_uc v of
        None \<Rightarrow> (Panic ExpectFailed, v)
      | Some uc \<Rightarrow> map_segments E oc v uc (le_segments img))"

definition map_memory ::
  "'uc engine \<Rightarrow> bool \<Rightarrow> 'uc vcpu \<Rightarrow> u64 \<Rightarrow> u64 \<Rightarrow> prot \<Rightarrow> (vcpu_error, unit) result \<times> 'uc vcpu" where
  "map_memory E oc v base sz prot =
     (case v_uc v of
        None \<Rightarrow> (Panic ExpectFailed, v)
      | Some uc \<Rightarrow>
          (case claim_and_map E oc v uc base sz 0 prot of
             (Panic p, v') \<Rightarrow> (Panic p, v')
           | (Err e, v') \<Rightarrow> (Err e, v')
           | (Ok _, v') \<Rightarrow> (Ok (), v'\<lparr>v_regions := v_regions v' @ [(base, sz, 0)]\<rparr>)))"

definition map_stack ::
  "'uc engine \<Rightarrow> bool \<Rightarrow> 'uc vcpu \<Rightarrow> u64 \<Rightarrow> u64 \<Rightarrow> (vcpu_error, unit) result \<times> 'uc vcpu" where
  "map_stack E oc v base sz = map_memory E oc v base sz (sup PROT_READ PROT_WRITE)"

section \<open>Registers and memory\<close>

definition reg_op :: "'uc vcpu \<Rightarrow> (string + unit) \<times> 'uc \<Rightarrow> (vcpu_error, unit) result \<times> 'uc vcpu" where
  "reg_op v res = (of_sum RegOp (fst res), v\<lparr>v_uc := Some (snd res)\<rparr>)"

definition write_guest :: "'uc engine \<Rightarrow> 'uc vcpu \<Rightarrow> u64 \<Rightarrow> bytes \<Rightarrow> (vcpu_error, unit) result \<times> 'uc vcpu" where
  "write_guest E v addr data =
     (case v_uc v of
        None \<Rightarrow> (Err NotLoaded, v)
      | Some uc \<Rightarrow> reg_op v (e_mem_write E uc addr data))"

definition setup_initial_state ::
  "'uc engine \<Rightarrow> bool \<Rightarrow> 'uc vcpu \<Rightarrow> u64 \<Rightarrow> u64 \<Rightarrow> (vcpu_error, unit) result \<times> 'uc vcpu" where
  "setup_initial_state E oc v entry stack_top =
     (case v_uc v of
        None \<Rightarrow> (Panic ExpectFailed, v)
      | Some uc \<Rightarrow>
          (case sub64 oc stack_top 0x20 of
             Panic p \<Rightarrow> (Panic p, v)
           | Err e \<Rightarrow> (Err e, v)
           | Ok argc_addr \<Rightarrow>
               (case e_mem_write E uc argc_addr (replicate 0x20 0) of
                  (Inl e, uc1) \<Rightarrow> (Err (RegOp e), v\<lparr>v_uc := Some uc1\<rparr>)
                | (Inr _, uc1) \<Rightarrow>
                    (case e_reg_write E uc1 RSP argc_addr of
                       (Inl e, uc2) \<Rightarrow> (Err (RegOp e), v\<lparr>v_uc := Some uc2\<rparr>)
                     | (Inr _, uc2) \<Rightarrow> reg_op v (e_reg_write E uc2 RIP entry)))))"

definition vcpu_reg :: "'uc engine \<Rightarrow> 'uc vcpu \<Rightarrow> reg \<Rightarrow> (vcpu_error, u64) result" where
  "vcpu_reg E v r =
     (case v_uc v of None \<Rightarrow> Err NotLoaded | Some uc \<Rightarrow> of_sum RegOp (e_reg_read E uc r))"

definition vcpu_set_reg :: "'uc engine \<Rightarrow> 'uc vcpu \<Rightarrow> reg \<Rightarrow> u64 \<Rightarrow> (vcpu_error, unit) result \<times> 'uc vcpu" where
  "vcpu_set_reg E v r val =
     (case v_uc v of None \<Rightarrow> (Err NotLoaded, v) | Some uc \<Rightarrow> reg_op v (e_reg_write E uc r val))"

definition read_guest :: "'uc engine \<Rightarrow> 'uc vcpu \<Rightarrow> u64 \<Rightarrow> nat \<Rightarrow> (vcpu_error, bytes) result" where
  "read_guest E v addr len =
     (case v_uc v of
        None \<Rightarrow> Err NotLoaded
      | Some uc \<Rightarrow>
          r_bind (vec_zeroed len) (\<lambda>buf.
          r_bind (of_sum RegOp (e_mem_read E uc addr (length buf))) (\<lambda>f.
            Ok (map f [0..<length buf]))))"

definition vcpu_output :: "'uc vcpu \<Rightarrow> bytes" where
  "vcpu_output v = sh_output (v_shared v)"

definition vcpu_exit_reason :: "'uc vcpu \<Rightarrow> exit_reason option" where
  "vcpu_exit_reason v = sh_exit (v_shared v)"

definition vcpu_drop :: "'uc vcpu \<Rightarrow> 'uc vcpu" where
  "vcpu_drop v = v\<lparr>v_uc := None\<rparr>"

section \<open>The system-call hook\<close>

definition reg_or_0 :: "'uc engine \<Rightarrow> 'uc \<Rightarrow> reg \<Rightarrow> u64" where
  "reg_or_0 E uc r = (case e_reg_read E uc r of Inr x \<Rightarrow> x | Inl _ \<Rightarrow> 0)"

definition hook_regs :: "'uc engine \<Rightarrow> 'uc \<Rightarrow> syscall_regs" where
  "hook_regs E uc =
     from_regs (u64_as_i64 (reg_or_0 E uc RAX))
       (reg_or_0 E uc RDI, reg_or_0 E uc RSI, reg_or_0 E uc RDX, reg_or_0 E uc R10, reg_or_0 E uc R8,
        reg_or_0 E uc R9)
       (reg_or_0 E uc RIP)"

definition hook_ctx :: "'uc engine \<Rightarrow> 'uc \<Rightarrow> 'uc ctxt" where
  "hook_ctx E uc = \<lparr>ctx_process = Running, ctx_mem = unicorn_box E uc, ctx_io = capture_new\<rparr>"

definition hook_apply ::
  "'uc engine \<Rightarrow> (dispatch_error, syscall_outcome) result \<Rightarrow> 'uc \<Rightarrow> shared_state \<Rightarrow> 'uc \<times> shared_state" where
  "hook_apply E outcome uc sh =
     (case outcome of
        Ok (Return ret) \<Rightarrow> (snd (e_reg_write E uc RAX (i64_as_u64 ret)), sh)
      | Ok (OExit reason) \<Rightarrow> (snd (e_emu_stop E uc), sh\<lparr>sh_exit := Some reason\<rparr>)
      | Err e \<Rightarrow> (snd (e_emu_stop E uc), sh\<lparr>sh_error := Some (show_dispatch_error e)\<rparr>)
      | Panic _ \<Rightarrow> (uc, sh))"

definition syscall_hook ::
  "'uc engine \<Rightarrow> bool \<Rightarrow> 'uc dispatch \<Rightarrow> 'uc \<Rightarrow> shared_state \<Rightarrow> trace_store \<Rightarrow>
     panic option \<times> 'uc \<times> shared_state \<times> trace_store" where
  "syscall_hook E oc d uc sh ts =
     (case dispatch_call oc d (hook_ctx E uc) (hook_regs E uc) ts of
        (Panic p, ctx, ts') \<Rightarrow> (Some p, dg_state (ctx_mem ctx), sh, ts')
      | (outcome, ctx, ts') \<Rightarrow>
          (let combined = capture_combined (ctx_io ctx);
               sh' = (if combined \<noteq> [] then sh\<lparr>sh_output := sh_output sh @ combined\<rparr> else sh);
               (uc', sh'') = hook_apply E outcome (dg_state (ctx_mem ctx)) sh'
           in (None, uc', sh'', ts')))"

section \<open>Running\<close>

datatype emu_end = EmuDone | EmuFault string | EmuPanic panic

partial_function (option) emu_loop ::
  "'uc engine \<Rightarrow> bool \<Rightarrow> 'uc dispatch option \<Rightarrow> 'uc \<Rightarrow> shared_state \<Rightarrow> trace_store \<Rightarrow>
     (emu_end \<times> 'uc \<times> shared_state \<times> trace_store) option" where
  "emu_loop E oc hook uc sh ts =
     (case e_advance E uc of
        (EvDone, uc1) \<Rightarrow> Some (EmuDone, uc1, sh, ts)
      | (EvFault msg, uc1) \<Rightarrow> Some (EmuFault msg, uc1, sh, ts)
      | (EvSpin, _) \<Rightarrow> None
      | (EvSyscall, uc1) \<Rightarrow>
          (case hook of
             None \<Rightarrow> emu_loop E oc hook uc1 sh ts
           | Some d \<Rightarrow>
               (case syscall_hook E oc d uc1 sh ts of
                  (Some p, uc2, sh2, ts2) \<Rightarrow> Some (EmuPanic p, uc2, sh2, ts2)
                | (None, uc2, sh2, ts2) \<Rightarrow> emu_loop E oc hook uc2 sh2 ts2)))"

fun str_contains :: "string \<Rightarrow> string \<Rightarrow> bool" where
  "str_contains pat [] = (pat = [])"
| "str_contains pat (c # cs) = (take (length pat) (c # cs) = pat \<or> str_contains pat cs)"

definition falloff_message :: "string \<Rightarrow> bool" where
  "falloff_message msg \<longleftrightarrow>
     str_contains ''READ_PROTECT'' msg \<or> str_contains ''FETCH_PROTECT'' msg \<or>
     str_contains ''READ_UNMAPPED'' msg \<or> str_contains ''FETCH_UNMAPPED'' msg \<or>
     str_contains ''WRITE_UNMAPPED'' msg"

definition run_outcome ::
  "'uc engine \<Rightarrow> emu_end \<Rightarrow> 'uc \<Rightarrow> shared_state \<Rightarrow> (vcpu_error, exit_reason) result" where
  "run_outcome E e uc sh =
     (case e of
        EmuPanic p \<Rightarrow> Panic (Aborted p)
      | EmuFault msg \<Rightarrow>
          if falloff_message msg then Ok (Falloff (reg_or_0 E uc RIP)) else Err (Exec msg)
      | EmuDone \<Rightarrow>
          (case sh_exit sh of
             Some reason \<Rightarrow> Ok reason
           | None \<Rightarrow> (case sh_error sh of Some msg \<Rightarrow> Err (Exec msg) | None \<Rightarrow> Ok Stopped)))"

definition vcpu_run ::
  "'uc engine \<Rightarrow> bool \<Rightarrow> 'uc vcpu \<Rightarrow> trace_store \<Rightarrow> u64 \<Rightarrow>
     ((vcpu_error, exit_reason) result \<times> 'uc vcpu \<times> trace_store) option" where
  "vcpu_run E oc v ts timeout_ms =
     (case v_uc v of
        None \<Rightarrow> Some (Panic ExpectFailed, v, ts)
      | Some uc \<Rightarrow>
          (let start = reg_or_0 E uc RIP in
           map_option (\<lambda>(e, uc', sh', ts').
               (run_outcome E e uc' sh', v\<lparr>v_uc := Some uc', v_shared := sh'\<rparr>, ts'))
             (emu_loop E oc (v_hook v) (e_start E uc start (- 1) timeout_ms 0) (v_shared v) ts)))"

end
