(* ===== verification/Vcpu_Memory.thy ===== *)
theory Vcpu_Memory
  imports Vcpu Scripted_Engine
begin

text \<open>
  What \<open>map_elf\<close>, \<open>map_memory\<close> and \<open>setup_initial_state\<close> make of the guest's memory.

  \<open>vcpu_inv\<close> ties the bookkeeping of the virtual CPU to the engine: the engine's mapped bytes are
  exactly the addresses claimed in the memory map, and the public list of regions is the map's.
  Mapping a segment is compared with an insertion of its page range (\<open>seg_claim\<close>) into the
  address space, so the contract \<open>address_space\<close> decides which images can be mapped; the bytes
  are given by \<open>seg_load\<close> and, pointwise, by \<open>image_byte\<close>, the page permissions by \<open>seg_protect\<close>. All
  these operations leave the engine in a set-up state.
\<close>

section \<open>Pages\<close>

definition page_floor :: "u64 \<Rightarrow> u64" where
  "page_floor a = a AND NOT (PAGE_SIZE - 1)"

lemma unat_page_floor: "unat (page_floor a) = unat a div 4096 * 4096"
proof -
  have "page_floor a = push_bit 12 (drop_bit 12 a)"
  proof (rule bit_word_eqI)
    fix n assume "n < LENGTH(64)"
    have "PAGE_SIZE - 1 = mask 12" by (simp add: PAGE_SIZE_def mask_eq_exp_minus_1)
    then show "bit (page_floor a) n \<longleftrightarrow> bit (push_bit 12 (drop_bit 12 a)) n"
      using \<open>n < LENGTH(64)\<close> by (auto simp: page_floor_def bit_simps)
  qed
  moreover have "take_bit 64 (push_bit 12 (drop_bit 12 (unat a))) = unat a div 4096 * 4096"
  proof -
    have "unat a div 4096 * 4096 < 2 ^ 64" using unat_less64 [of a] by simp
    then show ?thesis by (simp add: push_bit_eq_mult drop_bit_eq_div take_bit_eq_mod)
  qed
  moreover have "take_bit 64 (unat a) = unat a"
    using unat_less64 [of a] by (simp add: take_bit_nat_eq_self)
  ultimately show ?thesis by (simp add: unsigned_push_bit_eq unsigned_drop_bit_eq)
qed

lemma page_floor_le: "page_floor a \<le> a"
  by (simp add: word_le_nat_alt unat_page_floor)

lemma page_aligned_floor [simp]: "page_aligned (page_floor a)"
  by (simp add: page_aligned_def unat_page_floor)

lemma page_floor_mono: "a \<le> b \<Longrightarrow> page_floor a \<le> page_floor b"
  by (simp add: word_le_nat_alt unat_page_floor div_le_mono)

text \<open>The page range of a segment and when its computation does not overflow.\<close>

definition seg_claim :: "segment \<Rightarrow> u64 \<times> u64 \<times> u32" where
  "seg_claim seg =
     (page_floor (s_vaddr seg),
      page_floor (s_vaddr seg + s_memsz seg + PAGE_SIZE - 1) - page_floor (s_vaddr seg), s_flags seg)"

abbreviation claim_range :: "segment \<Rightarrow> nat set" where
  "claim_range seg \<equiv> addr_range (fst (seg_claim seg)) (fst (snd (seg_claim seg)))"

definition seg_room :: "segment \<Rightarrow> bool" where
  "seg_room seg \<longleftrightarrow> s_filesz seg \<le> s_memsz seg \<and> unat (s_vaddr seg) + unat (s_memsz seg) + 4096 < 2 ^ 64"

lemma unat_page_size [simp]: "unat PAGE_SIZE = 4096"
  by (simp add: PAGE_SIZE_def)

lemma seg_end_unat:
  assumes "seg_room seg"
  shows "unat (s_vaddr seg + s_memsz seg) = unat (s_vaddr seg) + unat (s_memsz seg)"
    and "unat (s_vaddr seg + s_memsz seg + PAGE_SIZE) = unat (s_vaddr seg) + unat (s_memsz seg) + 4096"
    and "unat (s_vaddr seg + s_memsz seg + PAGE_SIZE - 1) = unat (s_vaddr seg) + unat (s_memsz seg) + 4095"
    and "unat (s_vaddr seg + s_filesz seg) = unat (s_vaddr seg) + unat (s_filesz seg)"
proof -
  have room: "unat (s_vaddr seg) + unat (s_memsz seg) + 4096 < 2 ^ 64" and
      "unat (s_filesz seg) \<le> unat (s_memsz seg)"
    using assms by (simp_all add: seg_room_def word_le_nat_alt)
  then show a: "unat (s_vaddr seg + s_memsz seg) = unat (s_vaddr seg) + unat (s_memsz seg)"
    and "unat (s_vaddr seg + s_filesz seg) = unat (s_vaddr seg) + unat (s_filesz seg)"
    by (simp_all add: unat_add64)
  show b: "unat (s_vaddr seg + s_memsz seg + PAGE_SIZE) = unat (s_vaddr seg) + unat (s_memsz seg) + 4096"
    using room a by (simp add: unat_add64)
  have "(1 :: u64) \<le> s_vaddr seg + s_memsz seg + PAGE_SIZE" by (simp add: word_le_nat_alt b)
  then show "unat (s_vaddr seg + s_memsz seg + PAGE_SIZE - 1) = unat (s_vaddr seg) + unat (s_memsz seg) + 4095"
    by (simp add: unat_sub64 b)
qed

lemma seg_claim_range:
  assumes "seg_room seg"
  shows "unat (fst (seg_claim seg)) = unat (s_vaddr seg) div 4096 * 4096"
    and "unat (fst (seg_claim seg)) + unat (fst (snd (seg_claim seg))) =
           (unat (s_vaddr seg) + unat (s_memsz seg) + 4095) div 4096 * 4096"
    and "page_aligned (fst (snd (seg_claim seg)))"
    and "no_wrap (fst (seg_claim seg)) (fst (snd (seg_claim seg)))"
proof -
  note u = seg_end_unat [OF assms]
  show s: "unat (fst (seg_claim seg)) = unat (s_vaddr seg) div 4096 * 4096"
    by (simp add: seg_claim_def unat_page_floor)
  have "s_vaddr seg \<le> s_vaddr seg + s_memsz seg + PAGE_SIZE - 1" by (simp add: word_le_nat_alt u)
  note le = page_floor_mono [OF this]
  then have sz: "unat (fst (snd (seg_claim seg))) =
      (unat (s_vaddr seg) + unat (s_memsz seg) + 4095) div 4096 * 4096 - unat (s_vaddr seg) div 4096 * 4096"
    by (simp add: seg_claim_def unat_sub64 unat_page_floor u)
  show e: "unat (fst (seg_claim seg)) + unat (fst (snd (seg_claim seg))) =
           (unat (s_vaddr seg) + unat (s_memsz seg) + 4095) div 4096 * 4096"
    unfolding s sz by (simp add: div_le_mono)
  show "page_aligned (fst (snd (seg_claim seg)))"
    unfolding page_aligned_def sz by (simp add: dvd_diff_nat)
  show "no_wrap (fst (seg_claim seg)) (fst (snd (seg_claim seg)))"
    using assms unfolding no_wrap_def e seg_room_def by linarith
qed

lemma seg_pages_eq:
  assumes "seg_room seg"
  shows "seg_pages oc seg = Ok (fst (seg_claim seg), fst (snd (seg_claim seg)))"
proof -
  note u = seg_end_unat [OF assms]
  have fm: "unat (s_filesz seg) \<le> unat (s_memsz seg)" and
      room: "unat (s_vaddr seg) + unat (s_memsz seg) + 4096 < 2 ^ 64"
    using assms by (simp_all add: seg_room_def word_le_nat_alt)
  then have mx: "max (s_vaddr seg + s_memsz seg) (s_vaddr seg + s_filesz seg) = s_vaddr seg + s_memsz seg"
    by (intro max_absorb1) (simp add: word_le_nat_alt u)
  have one: "(1 :: u64) \<le> s_vaddr seg + s_memsz seg + PAGE_SIZE" by (simp add: word_le_nat_alt u)
  have "s_vaddr seg \<le> s_vaddr seg + s_memsz seg + PAGE_SIZE - 1" by (simp add: word_le_nat_alt u)
  note le = page_floor_mono [OF this]
  show ?thesis
    using fm room le one
    by (simp add: seg_pages_def Let_def add64_exact mx u sub64_exact seg_claim_def flip: page_floor_def)
qed

lemma page_round_up: "(n :: nat) \<le> (n + 4095) div 4096 * 4096"
  using div_mult_mod_eq [of "n + 4095" 4096] mod_less_divisor [of 4096 "n + 4095"] by linarith

lemma seg_range_sub_claim: "seg_room seg \<Longrightarrow> seg_range seg \<subseteq> claim_range seg"
proof
  fix x assume room: "seg_room seg" and x: "x \<in> seg_range seg"
  note r = seg_claim_range(1,2) [OF room] page_round_up [of "unat (s_vaddr seg) + unat (s_memsz seg)"]
    div_times_less_eq_dividend [of "unat (s_vaddr seg)" 4096] x [unfolded addr_range_mem]
  show "x \<in> claim_range seg"
    unfolding addr_range_mem by (intro conjI) (use r in linarith)+
qed

section \<open>Mapping one range\<close>

definition as_region :: "u64 \<times> u64 \<times> u32 \<Rightarrow> region" where
  "as_region = (\<lambda>(b, s, p). \<lparr>r_base = b, r_size = s, r_prot = p\<rparr>)"

definition vcpu_inv :: "('uc \<Rightarrow> nat \<Rightarrow> u8 option) \<Rightarrow> 'uc vcpu \<Rightarrow> bool" where
  "vcpu_inv byte_at v \<longleftrightarrow>
     (case v_uc v of None \<Rightarrow> False | Some uc \<Rightarrow> dom (byte_at uc) = mm_claimed (v_map v)) \<and>
     mm_inv (v_map v) \<and> set (mm_regions (v_map v)) = as_region ` set (v_regions v)"

lemma vcpu_invD:
  assumes "vcpu_inv byte_at v"
  obtains uc where "v_uc v = Some uc" "dom (byte_at uc) = mm_claimed (v_map v)" "mm_inv (v_map v)"
    "set (mm_regions (v_map v)) = as_region ` set (v_regions v)"
  using assms by (auto simp: vcpu_inv_def split: option.splits)

text \<open>A range that can be given to the engine: whole pages that end inside the address space.\<close>

definition range_ok :: "u64 \<Rightarrow> u64 \<Rightarrow> bool" where
  "range_ok b s \<longleftrightarrow> page_aligned b \<and> page_aligned s \<and> s \<noteq> 0 \<and> no_wrap b s"

lemma claim_and_map_taken:
  "mm_inv (v_map v) \<Longrightarrow> no_wrap b s \<Longrightarrow> mm_claimed (v_map v) \<inter> addr_range b s \<noteq> {} \<Longrightarrow>
     claim_and_map E oc v uc b s fl pr = (Err (Map b ''guest address space overlap''), v)"
  by (simp add: claim_and_map_def mm_insert_taken vcpu_error_of_mmap_def)

lemma claim_and_map_free:
  assumes law: "mem_law E byte_at" and inv: "mm_inv (v_map v)"
    and dom: "dom (byte_at uc) = mm_claimed (v_map v)"
    and ok: "range_ok b s" and free: "mm_claimed (v_map v) \<inter> addr_range b s = {}"
  obtains uc' where "claim_and_map E oc v uc b s fl pr =
       (Ok uc', v\<lparr>v_map := mm_added (v_map v) (as_region (b, s, fl)), v_uc := Some uc'\<rparr>)"
    and "byte_at uc' = upd_bytes (byte_at uc) (unat b) (replicate (unat s) 0)"
proof -
  have "byte_at uc (unat b + i) = None" if "i < unat s" for i
  proof -
    have "unat b + i \<in> addr_range b s" using that by (simp add: addr_range_mem)
    then have "unat b + i \<notin> dom (byte_at uc)" using free dom by blast
    then show ?thesis by blast
  qed
  then have fr: "\<forall>i < unat s. byte_at uc (unat b + i) = None" by blast
  have lim: "page_aligned b \<and> page_aligned s \<and> s \<noteq> 0 \<and> unat b + unat s < 2 ^ 64"
    using ok by (simp add: range_ok_def no_wrap_def)
  have "fst (e_mem_map E uc b s pr) = Inr () \<and>
        byte_at (snd (e_mem_map E uc b s pr)) = upd_bytes (byte_at uc) (unat b) (replicate (unat s) 0)"
    using law fr lim unfolding mem_law_def by blast
  then show ?thesis
    using that [of "snd (e_mem_map E uc b s pr)"] inv ok free
    by (cases "e_mem_map E uc b s pr")
       (simp add: claim_and_map_def range_ok_def mm_insert_free as_region_def)
qed

lemma dom_upd_bytes: "dom (upd_bytes f a bs) = dom f \<union> {a ..< a + length bs}"
  by (auto simp: upd_bytes_def dom_def)

lemma region_ok_range: "range_ok b s \<Longrightarrow> region_ok (as_region (b, s, fl))"
  by (simp add: range_ok_def region_ok_def as_region_def)

lemma as_region_range [simp]: "region_range (as_region (b, s, fl)) = addr_range b s"
  by (simp add: as_region_def)

text \<open>Claiming a free range keeps the invariant, once the region is recorded.\<close>

lemma vcpu_inv_claimed:
  assumes "vcpu_inv byte_at v" and "range_ok b s" and "mm_claimed (v_map v) \<inter> addr_range b s = {}"
    and "dom (byte_at uc') = mm_claimed (v_map v) \<union> addr_range b s"
  shows "vcpu_inv byte_at (v\<lparr>v_map := mm_added (v_map v) (as_region (b, s, fl)), v_uc := Some uc',
            v_regions := v_regions v @ [(b, s, fl)]\<rparr>)"
  using assms by (auto simp: vcpu_inv_def mm_inv_added region_ok_range split: option.splits)

section \<open>Mapping a segment\<close>

definition seg_mappable :: "segment \<Rightarrow> bool" where
  "seg_mappable seg \<longleftrightarrow>
     seg_room seg \<and> length (s_data seg) = unat (s_memsz seg) \<and> fst (snd (seg_claim seg)) \<noteq> 0"

definition seg_load :: "(nat \<Rightarrow> u8 option) \<Rightarrow> segment \<Rightarrow> nat \<Rightarrow> u8 option" where
  "seg_load f seg =
     upd_bytes (upd_bytes f (unat (fst (seg_claim seg))) (replicate (unat (fst (snd (seg_claim seg)))) 0))
       (unat (s_vaddr seg)) (take (unat (s_filesz seg)) (s_data seg))"

lemma seg_mappable_range_ok: "seg_mappable seg \<Longrightarrow> range_ok (fst (seg_claim seg)) (fst (snd (seg_claim seg)))"
  using seg_claim_range(3,4) by (auto simp: seg_mappable_def range_ok_def seg_claim_def)

lemma seg_data_length: "seg_mappable seg \<Longrightarrow> length (take (unat (s_filesz seg)) (s_data seg)) = unat (s_filesz seg)"
  by (simp add: seg_mappable_def seg_room_def word_le_nat_alt)

lemma seg_file_sub_claim:
  "seg_mappable seg \<Longrightarrow> x < unat (s_filesz seg) \<Longrightarrow> unat (s_vaddr seg) + x \<in> claim_range seg"
proof -
  assume seg: "seg_mappable seg" and x: "x < unat (s_filesz seg)"
  then have "unat (s_vaddr seg) + x \<in> seg_range seg"
    by (simp add: seg_mappable_def seg_room_def word_le_nat_alt addr_range_mem)
  then show ?thesis using seg_range_sub_claim [of seg] seg by (auto simp: seg_mappable_def)
qed

lemma dom_seg_load:
  assumes "seg_mappable seg"
  shows "dom (seg_load f seg) = dom f \<union> claim_range seg"
proof -
  have "{unat (s_vaddr seg) ..< unat (s_vaddr seg) + unat (s_filesz seg)} \<subseteq> claim_range seg"
  proof
    fix x assume "x \<in> {unat (s_vaddr seg) ..< unat (s_vaddr seg) + unat (s_filesz seg)}"
    then show "x \<in> claim_range seg"
      using seg_file_sub_claim [OF assms, of "x - unat (s_vaddr seg)"] by auto
  qed
  moreover have "claim_range seg =
      {unat (fst (seg_claim seg)) ..< unat (fst (seg_claim seg)) + unat (fst (snd (seg_claim seg)))}"
    by (simp add: addr_range_def)
  ultimately show ?thesis
    unfolding seg_load_def dom_upd_bytes seg_data_length [OF assms] by auto
qed

lemma file_bytes_mappable:
  "seg_mappable seg \<Longrightarrow> file_bytes seg = Ok (take (unat (s_filesz seg)) (s_data seg))"
  by (simp add: seg_mappable_def seg_room_def file_bytes_def slice_index_def sub_slice_def word_le_nat_alt)

lemma map_segment_taken:
  assumes "seg_mappable seg" and "mm_inv (v_map v)" and "mm_claimed (v_map v) \<inter> claim_range seg \<noteq> {}"
  shows "map_segment E oc v uc seg = (Err (Map (fst (seg_claim seg)) ''guest address space overlap''), v)"
  using assms seg_claim_range(4) [of seg]
  by (simp add: map_segment_def seg_mappable_def seg_pages_eq claim_and_map_taken)

lemma mem_law_write:
  "mem_law E byte_at \<Longrightarrow> unat a + length d < 2 ^ 64 \<Longrightarrow>
     \<forall>i < length d. byte_at uc (unat a + i) \<noteq> None \<Longrightarrow>
     \<exists>uc'. e_mem_write E uc a d = (Inr (), uc') \<and> byte_at uc' = upd_bytes (byte_at uc) (unat a) d"
  unfolding mem_law_def by (metis (no_types, lifting) prod.collapse)

lemma mem_law_read:
  "mem_law E byte_at \<Longrightarrow> unat a + n < 2 ^ 64 \<Longrightarrow> \<forall>i < n. byte_at uc (unat a + i) \<noteq> None \<Longrightarrow>
     \<exists>f. e_mem_read E uc a n = Inr f \<and> (\<forall>i < n. byte_at uc (unat a + i) = Some (f i))"
  unfolding mem_law_def by (metis (no_types, lifting))

text \<open>Where the file bytes go, and what is in memory once they are there.\<close>

lemma seg_dest:
  assumes "seg_mappable seg"
  shows "r_bind (sub64 oc (s_vaddr seg) (fst (seg_claim seg))) (\<lambda>offset.
         r_bind (file_bytes seg) (\<lambda>data.
         r_bind (add64 oc (fst (seg_claim seg)) offset) (\<lambda>dest. Ok (dest, data)))) =
       (Ok (s_vaddr seg, take (unat (s_filesz seg)) (s_data seg)) :: (vcpu_error, u64 \<times> bytes) result)"
proof -
  let ?b = "fst (seg_claim seg)"
  have dest: "?b \<le> s_vaddr seg" by (simp add: seg_claim_def page_floor_le)
  then have "unat ?b + unat (s_vaddr seg - ?b) < 2 ^ 64"
    using unat_less64 [of "s_vaddr seg"] by (simp add: unat_sub64 word_le_nat_alt)
  then have "add64 oc ?b (s_vaddr seg - ?b) = (Ok (s_vaddr seg) :: (vcpu_error, u64) result)"
    by (simp add: add64_exact)
  moreover have "sub64 oc (s_vaddr seg) ?b = (Ok (s_vaddr seg - ?b) :: (vcpu_error, u64) result)"
    using dest by (simp add: sub64_exact)
  ultimately show ?thesis by (simp add: file_bytes_mappable [OF assms])
qed

lemma seg_written:
  assumes law: "mem_law E byte_at" and seg: "seg_mappable seg"
    and b1: "byte_at uc = upd_bytes f (unat (fst (seg_claim seg))) (replicate (unat (fst (snd (seg_claim seg)))) 0)"
  obtains uc' where "e_mem_write E uc (s_vaddr seg) (take (unat (s_filesz seg)) (s_data seg)) = (Inr (), uc')"
    "byte_at uc' = seg_load f seg"
proof -
  let ?d = "take (unat (s_filesz seg)) (s_data seg)"
  have mapped: "\<forall>i < length ?d. byte_at uc (unat (s_vaddr seg) + i) \<noteq> None"
    using seg_file_sub_claim [OF seg]
    by (auto simp: b1 seg_data_length [OF seg] addr_range_mem upd_bytes_def)
  have "unat (s_vaddr seg) + length ?d < 2 ^ 64"
    using seg unfolding seg_data_length [OF seg] by (simp add: seg_mappable_def seg_room_def word_le_nat_alt)
  then show ?thesis using mem_law_write [OF law _ mapped] that by (auto simp: seg_load_def b1)
qed

lemma map_segment_free:
  assumes law: "mem_law E byte_at" and seg: "seg_mappable seg" and inv: "vcpu_inv byte_at v"
    and uc: "v_uc v = Some uc" and free: "mm_claimed (v_map v) \<inter> claim_range seg = {}"
  obtains uc' where "map_segment E oc v uc seg =
       (Ok uc', v\<lparr>v_map := mm_added (v_map v) (as_region (seg_claim seg)), v_uc := Some uc',
                  v_regions := v_regions v @ [seg_claim seg]\<rparr>)"
    and "byte_at uc' = seg_load (byte_at uc) seg"
    and "vcpu_inv byte_at (v\<lparr>v_map := mm_added (v_map v) (as_region (seg_claim seg)), v_uc := Some uc',
                  v_regions := v_regions v @ [seg_claim seg]\<rparr>)"
proof -
  let ?b = "fst (seg_claim seg)" and ?s = "fst (snd (seg_claim seg))" and ?f = "s_flags seg"
  have claim: "seg_claim seg = (?b, ?s, ?f)" by (simp add: seg_claim_def)
  have room: "seg_room seg" using seg by (simp add: seg_mappable_def)
  note rok = seg_mappable_range_ok [OF seg]
  obtain dom: "dom (byte_at uc) = mm_claimed (v_map v)" and minv: "mm_inv (v_map v)"
    using inv uc by (auto elim: vcpu_invD)
  obtain uc1 where m: "claim_and_map E oc v uc ?b ?s ?f (seg_prot ?f) =
       (Ok uc1, v\<lparr>v_map := mm_added (v_map v) (as_region (?b, ?s, ?f)), v_uc := Some uc1\<rparr>)"
    and b1: "byte_at uc1 = upd_bytes (byte_at uc) (unat ?b) (replicate (unat ?s) 0)"
    using claim_and_map_free [OF law minv dom rok free] by blast
  obtain uc' where w: "e_mem_write E uc1 (s_vaddr seg) (take (unat (s_filesz seg)) (s_data seg)) = (Inr (), uc')"
    and bytes: "byte_at uc' = seg_load (byte_at uc) seg" by (rule seg_written [OF law seg b1])
  show ?thesis
  proof (rule that)
    show "map_segment E oc v uc seg =
       (Ok uc', v\<lparr>v_map := mm_added (v_map v) (as_region (seg_claim seg)), v_uc := Some uc',
                  v_regions := v_regions v @ [seg_claim seg]\<rparr>)"
      using claim by (simp add: map_segment_def seg_pages_eq [OF room] m seg_dest [OF seg] w)
    show "byte_at uc' = seg_load (byte_at uc) seg" by (rule bytes)
    have "dom (byte_at uc') = mm_claimed (v_map v) \<union> addr_range ?b ?s"
      by (simp add: bytes dom_seg_load [OF seg] dom)
    from vcpu_inv_claimed [OF inv rok free this, of ?f]
    show "vcpu_inv byte_at (v\<lparr>v_map := mm_added (v_map v) (as_region (seg_claim seg)), v_uc := Some uc',
                  v_regions := v_regions v @ [seg_claim seg]\<rparr>)" by (simp add: claim [symmetric])
  qed
qed

section \<open>Mapping an image\<close>

definition image_byte :: "(nat \<Rightarrow> u8 option) \<Rightarrow> segment list \<Rightarrow> nat \<Rightarrow> u8 option" where
  "image_byte f segs x =
     (case find (\<lambda>seg. x \<in> claim_range seg) segs of
        None \<Rightarrow> f x
      | Some seg \<Rightarrow>
          Some (if unat (s_vaddr seg) \<le> x \<and> x < unat (s_vaddr seg) + unat (s_filesz seg)
                then s_data seg ! (x - unat (s_vaddr seg)) else 0))"

lemma seg_load_byte:
  assumes "seg_mappable seg"
  shows "seg_load f seg x = (if x \<in> claim_range seg then image_byte f [seg] x else f x)"
proof -
  have "x \<in> claim_range seg" if "unat (s_vaddr seg) \<le> x" "x < unat (s_vaddr seg) + unat (s_filesz seg)"
    using seg_file_sub_claim [OF assms, of "x - unat (s_vaddr seg)"] that by auto
  then show ?thesis
    using seg_data_length [OF assms]
    by (auto simp: seg_load_def upd_bytes_def image_byte_def addr_range_mem)
qed

lemma ranges_disjoint_Cons:
  "ranges_disjoint (c # cs) \<longleftrightarrow>
     (\<forall>c' \<in> set cs. addr_range (fst c) (fst (snd c)) \<inter> addr_range (fst c') (fst (snd c')) = {}) \<and>
     ranges_disjoint cs"
  by (simp add: ranges_disjoint_def split_beta)

lemma image_byte_Cons:
  assumes "seg_mappable seg" and "ranges_disjoint (map seg_claim (seg # segs))"
  shows "image_byte (seg_load f seg) segs x = image_byte f (seg # segs) x"
proof (cases "x \<in> claim_range seg")
  case True
  then have "\<forall>seg' \<in> set segs. x \<notin> claim_range seg'"
    using assms(2) by (auto simp: ranges_disjoint_Cons)
  then have "find (\<lambda>seg'. x \<in> claim_range seg') segs = None" by (simp add: find_None_iff)
  with True show ?thesis using seg_load_byte [OF assms(1), of f x] by (simp add: image_byte_def)
next
  case False
  then show ?thesis
    using seg_load_byte [OF assms(1), of f x] by (simp add: image_byte_def split: option.split)
qed

lemma foldl_seg_load:
  "\<forall>seg \<in> set segs. seg_mappable seg \<Longrightarrow> ranges_disjoint (map seg_claim segs) \<Longrightarrow>
     foldl seg_load f segs = image_byte f segs"
proof (induction segs arbitrary: f)
  case Nil
  then show ?case by (simp add: image_byte_def fun_eq_iff)
next
  case (Cons seg segs)
  then have "foldl seg_load (seg_load f seg) segs = image_byte (seg_load f seg) segs"
    by (simp add: ranges_disjoint_Cons)
  then show ?case using image_byte_Cons [of seg segs f] Cons.prems by (simp add: fun_eq_iff)
qed

text \<open>The loop of \<open>map_elf\<close> follows the insertion of the page ranges into the address space.\<close>

lemma map_segments_refines:
  assumes law: "mem_law E byte_at"
  shows "\<forall>seg \<in> set segs. seg_mappable seg \<Longrightarrow> vcpu_inv byte_at v \<Longrightarrow> v_uc v = Some uc \<Longrightarrow>
     \<exists>v'. vcpu_inv byte_at v' \<and> v_hook v' = v_hook v \<and> v_shared v' = v_shared v \<and>
       (case fst (insert_all (mm_insert oc) (v_map v) (map seg_claim segs)) of
          Ok _ \<Rightarrow> map_segments E oc v uc segs = (Ok (), v') \<and>
            v_regions v' = v_regions v @ map seg_claim segs \<and>
            (\<exists>uc'. v_uc v' = Some uc' \<and> byte_at uc' = foldl seg_load (byte_at uc) segs)
        | Err e \<Rightarrow> map_segments E oc v uc segs = (Err (vcpu_error_of_mmap e), v')
        | Panic _ \<Rightarrow> False)"
proof (induction segs arbitrary: v uc)
  case Nil
  then show ?case by (auto intro: exI [of _ v])
next
  case (Cons seg segs)
  obtain b s p where claim: "seg_claim seg = (b, s, p)" by (cases "seg_claim seg")
  have seg: "seg_mappable seg" using Cons.prems by simp
  have rng: "claim_range seg = addr_range b s" by (simp add: claim)
  have nw: "no_wrap b s" using seg_mappable_range_ok [OF seg] by (simp add: claim range_ok_def)
  have s0: "s \<noteq> 0" using seg_mappable_range_ok [OF seg] by (simp add: claim range_ok_def)
  have minv: "mm_inv (v_map v)" using Cons.prems(2) by (simp add: vcpu_inv_def)
  show ?case
  proof (cases "mm_claimed (v_map v) \<inter> addr_range b s = {}")
    case True
    then have free: "mm_claimed (v_map v) \<inter> claim_range seg = {}" by (simp add: rng)
    have ins: "mm_insert oc (v_map v) b s p = (Ok (), mm_added (v_map v) (as_region (b, s, p)))"
      using True by (simp add: mm_insert_free minv nw s0 as_region_def)
    let ?v = "\<lambda>uc'. v\<lparr>v_map := mm_added (v_map v) (as_region (seg_claim seg)), v_uc := Some uc',
                  v_regions := v_regions v @ [seg_claim seg]\<rparr>"
    obtain uc' where m: "map_segment E oc v uc seg = (Ok uc', ?v uc')"
      and bts: "byte_at uc' = seg_load (byte_at uc) seg" and inv': "vcpu_inv byte_at (?v uc')"
      using map_segment_free [OF law seg Cons.prems(2,3) free] by blast
    have "v_uc (?v uc') = Some uc'" by simp
    note ih = Cons.IH [OF _ inv' this]
    show ?thesis
      by (cases "fst (insert_all (mm_insert oc) (mm_added (v_map v) (as_region (b, s, p))) (map seg_claim segs))";
          use ih Cons.prems(1) in \<open>simp add: m bts ins claim\<close>)
  next
    case False
    then have "map_segment E oc v uc seg = (Err (Map b ''guest address space overlap''), v)"
      using map_segment_taken [OF seg minv] by (simp add: claim)
    moreover have "mm_insert oc (v_map v) b s p = (Err \<lparr>me_base = b\<rparr>, v_map v)"
      using False by (simp add: mm_insert_taken minv nw)
    ultimately show ?thesis
      using Cons.prems(2) by (intro exI [of _ v]) (simp add: claim vcpu_error_of_mmap_def)
  qed
qed

text \<open>Segments as the loader makes them, not empty and with a free page above them.\<close>

definition seg_placed :: "segment \<Rightarrow> bool" where
  "seg_placed seg \<longleftrightarrow> s_memsz seg \<noteq> 0 \<and> unat (s_vaddr seg) + unat (s_memsz seg) + 4096 < 2 ^ 64"

lemma seg_placed_mappable:
  assumes "segment_ok img seg" and "seg_placed seg"
  shows "seg_mappable seg"
proof -
  have room: "seg_room seg" using assms by (simp add: segment_ok_def seg_placed_def seg_room_def)
  have "unat (s_memsz seg) \<noteq> 0" using assms(2) by (simp add: seg_placed_def unat_eq_zero)
  then have "unat (s_vaddr seg) \<in> seg_range seg" by (simp add: addr_range_mem)
  then have "unat (s_vaddr seg) \<in> claim_range seg" using seg_range_sub_claim [OF room] by blast
  then have "fst (snd (seg_claim seg)) \<noteq> 0" by auto
  then show ?thesis using room assms(1) by (simp add: seg_mappable_def segment_ok_def)
qed

lemma load_elf_segments_ok: "load_elf oc parse img = Ok le \<Longrightarrow> \<forall>seg \<in> set (le_segments le). segment_ok img seg"
  by (auto simp: load_elf_Ok_char elf_accepts_def elf_image_def phdr_segment_ok)

lemma load_elf_memsz: "load_elf oc parse img = Ok le \<Longrightarrow> \<forall>seg \<in> set (le_segments le). unat (s_memsz seg) \<le> isize_max"
  by (auto simp: load_elf_Ok_char elf_accepts_def elf_image_def phdr_segment_def phdr_fits_def)

lemma insert_segs_Ok_iff:
  assumes "mm_inv m" and "\<forall>seg \<in> set segs. seg_mappable seg"
  shows "fst (insert_all (mm_insert oc) m (map seg_claim segs)) = Ok () \<longleftrightarrow>
     ranges_disjoint (map seg_claim segs) \<and> (\<forall>seg \<in> set segs. mm_claimed m \<inter> claim_range seg = {})"
proof -
  have "\<forall>(b, s, p) \<in> set (map seg_claim segs). no_wrap b s"
    using assms(2) seg_mappable_range_ok by (simp add: split_beta range_ok_def)
  from mm.insert_all_Ok_iff [OF assms(1) this] show ?thesis by (simp add: split_beta)
qed

lemma map_segments_spec:
  assumes law: "mem_law E byte_at" and segs: "\<forall>seg \<in> set segs. seg_mappable seg"
    and inv: "vcpu_inv byte_at v" and uc: "v_uc v = Some uc"
  shows "\<exists>v'. vcpu_inv byte_at v' \<and> v_hook v' = v_hook v \<and> v_shared v' = v_shared v \<and>
     (if ranges_disjoint (map seg_claim segs) \<and> (\<forall>seg \<in> set segs. mm_claimed (v_map v) \<inter> claim_range seg = {})
      then map_segments E oc v uc segs = (Ok (), v') \<and> v_regions v' = v_regions v @ map seg_claim segs \<and>
           (\<exists>uc'. v_uc v' = Some uc' \<and> byte_at uc' = image_byte (byte_at uc) segs)
      else \<exists>b. map_segments E oc v uc segs = (Err (Map b ''guest address space overlap''), v'))"
proof -
  have minv: "mm_inv (v_map v)" using inv by (simp add: vcpu_inv_def)
  from map_segments_refines [OF law segs inv uc, of oc] insert_segs_Ok_iff [OF minv segs, of oc]
  show ?thesis
    using foldl_seg_load [OF segs, of "byte_at uc"]
    by (cases "fst (insert_all (mm_insert oc) (v_map v) (map seg_claim segs))")
       (auto simp: vcpu_error_of_mmap_def)
qed

lemma claim_range_pages:
  assumes "seg_room seg" and "x \<in> claim_range seg" and "x div 4096 = y div 4096"
  shows "y \<in> claim_range seg"
proof -
  let ?a = "unat (s_vaddr seg) div 4096" and ?b = "(unat (s_vaddr seg) + unat (s_memsz seg) + 4095) div 4096"
  have in_pages: "z \<in> claim_range seg \<longleftrightarrow> ?a \<le> z div 4096 \<and> z div 4096 < ?b" for z
    unfolding addr_range_mem seg_claim_range(2) [OF assms(1)] unfolding seg_claim_range(1) [OF assms(1)]
    by (simp add: less_eq_div_iff_mult_less_eq div_less_iff_less_mult)
  show ?thesis using assms(2,3) unfolding in_pages by simp
qed

lemma ranges_disjoint_nth:
  assumes "ranges_disjoint (map seg_claim segs)" and "i < j" and "j < length segs"
  shows "claim_range (segs ! i) \<inter> claim_range (segs ! j) = {}"
  using sorted_wrt_nth_less [OF assms(1) [unfolded ranges_disjoint_def] assms(2)] assms(2,3)
  by (simp add: split_beta)

lemma map_memory_cases:
  assumes law: "mem_law E byte_at" and inv: "vcpu_inv byte_at v" and uc: "v_uc v = Some uc" and ok: "range_ok b s"
  shows "if mm_claimed (v_map v) \<inter> addr_range b s = {}
     then \<exists>v' uc'. map_memory E oc v b s pr = (Ok (), v') \<and> vcpu_inv byte_at v' \<and> v_uc v' = Some uc' \<and>
            byte_at uc' = upd_bytes (byte_at uc) (unat b) (replicate (unat s) 0) \<and>
            mm_claimed (v_map v') = mm_claimed (v_map v) \<union> addr_range b s \<and>
            v_regions v' = v_regions v @ [(b, s, 0)]
     else map_memory E oc v b s pr = (Err (Map b ''guest address space overlap''), v)"
proof (cases "mm_claimed (v_map v) \<inter> addr_range b s = {}")
  case True
  obtain dom: "dom (byte_at uc) = mm_claimed (v_map v)" and minv: "mm_inv (v_map v)"
    using inv uc by (auto elim: vcpu_invD)
  obtain uc' where m: "claim_and_map E oc v uc b s 0 pr =
       (Ok uc', v\<lparr>v_map := mm_added (v_map v) (as_region (b, s, 0)), v_uc := Some uc'\<rparr>)"
    and bts: "byte_at uc' = upd_bytes (byte_at uc) (unat b) (replicate (unat s) 0)"
    using claim_and_map_free [OF law minv dom ok True] by blast
  have "dom (byte_at uc') = mm_claimed (v_map v) \<union> addr_range b s"
    by (simp add: bts dom_upd_bytes dom addr_range_def)
  from vcpu_inv_claimed [OF inv ok True this, of 0] show ?thesis
    using True by (simp add: map_memory_def uc m bts)
next
  case False
  then show ?thesis
    using inv uc ok by (simp add: map_memory_def claim_and_map_taken vcpu_inv_def range_ok_def)
qed

lemma stack_range_ok: "range_ok STACK_BASE STACK_SIZE"
  by (simp add: range_ok_def STACK_BASE_def STACK_SIZE_def page_aligned_def no_wrap_def)

lemma regs_lawD:
  assumes "regs_law E byte_at"
  shows "named r \<Longrightarrow> fst (e_reg_write E uc r x) = Inr ()"
    "named r \<Longrightarrow> e_reg_read E (snd (e_reg_write E uc r x)) r = Inr x"
    "named r \<Longrightarrow> named r' \<Longrightarrow> r' \<noteq> r \<Longrightarrow> e_reg_read E (snd (e_reg_write E uc r x)) r' = e_reg_read E uc r'"
    "byte_at (snd (e_reg_write E uc r x)) = byte_at uc"
  using assms unfolding regs_law_def by blast+

lemma mem_law_write_dom:
  assumes "mem_law E byte_at" and "unat a + length d < 2 ^ 64"
  shows "dom (byte_at (snd (e_mem_write E uc a d))) = dom (byte_at uc)"
proof (cases "\<forall>i < length d. byte_at uc (unat a + i) \<noteq> None")
  case True
  then obtain uc' where "e_mem_write E uc a d = (Inr (), uc')"
      "byte_at uc' = upd_bytes (byte_at uc) (unat a) d" using mem_law_write [OF assms] by blast
  moreover have "x \<in> dom (byte_at uc)" if "x \<in> {unat a ..< unat a + length d}" for x
    using True [rule_format, of "x - unat a"] that by auto
  moreover from this have "{unat a ..< unat a + length d} \<subseteq> dom (byte_at uc)" by blast
  ultimately show ?thesis by (simp add: dom_upd_bytes Un_absorb2)
next
  case False
  then show ?thesis using assms unfolding mem_law_def by meson
qed

section \<open>Reading guest memory\<close>

lemma read_guest_is_Ok:
  assumes "mem_law E byte_at" and "v_uc v = Some uc" and "unat a + n < 2 ^ 64" and "n \<le> isize_max"
  shows "is_Ok (read_guest E v a n) \<longleftrightarrow> (\<forall>i < n. byte_at uc (unat a + i) \<noteq> None)"
proof (cases "\<forall>i < n. byte_at uc (unat a + i) \<noteq> None")
  case True
  then show ?thesis
    using mem_law_read [OF assms(1,3) True] assms(2,4) by (auto simp: read_guest_def vec_zeroed_def)
next
  case False
  then obtain msg where "e_mem_read E uc a n = Inl msg" using assms(1,3) unfolding mem_law_def by meson
  then show ?thesis unfolding read_guest_def assms(2) option.case using assms(4) False by (simp add: vec_zeroed_def)
qed

lemma read_guest_Ok_iff:
  assumes "mem_law E byte_at" and "v_uc v = Some uc" and "unat a + n < 2 ^ 64"
  shows "read_guest E v a n = Ok bs \<longleftrightarrow>
     n \<le> isize_max \<and> length bs = n \<and> (\<forall>i < n. byte_at uc (unat a + i) = Some (bs ! i))"
proof (cases "n \<le> isize_max \<and> (\<forall>i < n. byte_at uc (unat a + i) \<noteq> None)")
  case True
  then obtain f where f: "e_mem_read E uc a n = Inr f" "\<forall>i < n. byte_at uc (unat a + i) = Some (f i)"
    using mem_law_read [OF assms(1,3)] by blast
  then have "read_guest E v a n = Ok (map f [0..<n])"
    using True by (simp add: read_guest_def assms(2) vec_zeroed_def)
  then show ?thesis using f(2) True by (auto intro: nth_equalityI)
next
  case False
  then show ?thesis
  proof (cases "n \<le> isize_max")
    case True
    then show ?thesis using read_guest_is_Ok [OF assms True] False by force
  qed (simp add: read_guest_def assms(2) vec_zeroed_def)
qed

section \<open>The initial state\<close>

lemma setup_on_zeros:
  assumes "mem_law E byte_at" and "regs_law E byte_at" and "v_uc v = Some uc" and "0x20 \<le> stk"
    and zero: "\<forall>i < 32. byte_at uc (unat (stk - 0x20) + i) = Some 0"
  obtains uc' where "setup_initial_state E oc v entry stk = (Ok (), v\<lparr>v_uc := Some uc'\<rparr>)"
    "byte_at uc' = byte_at uc" "e_reg_read E uc' RSP = Inr (stk - 0x20)" "e_reg_read E uc' RIP = Inr entry"
proof -
  let ?a = "stk - 0x20" and ?d = "replicate 0x20 (0 :: u8)"
  have sub: "sub64 oc stk 0x20 = (Ok ?a :: (vcpu_error, u64) result)" using assms(4) by (simp add: sub64_exact)
  have room: "unat ?a + length ?d < 2 ^ 64"
    using assms(4) unat_less64 [of stk] by (simp add: unat_sub64 word_le_nat_alt)
  have "\<forall>i < length ?d. byte_at uc (unat ?a + i) \<noteq> None" using zero by simp
  from mem_law_write [OF assms(1) room this] obtain uc2 where w: "e_mem_write E uc ?a ?d = (Inr (), uc2)"
    and "byte_at uc2 = upd_bytes (byte_at uc) (unat ?a) ?d" by blast
  then have same: "byte_at uc2 = byte_at uc" using zero by (auto simp: upd_bytes_def fun_eq_iff le_iff_add)
  define uc3 where "uc3 = snd (e_reg_write E uc2 RSP ?a)"
  define uc4 where "uc4 = snd (e_reg_write E uc3 RIP entry)"
  have r3: "e_reg_write E uc2 RSP ?a = (Inr (), uc3)" "e_reg_read E uc3 RSP = Inr ?a" "byte_at uc3 = byte_at uc2"
    using regs_lawD [OF assms(2), where uc = uc2 and r = RSP and x = ?a] by (simp_all add: uc3_def prod_eq_iff)
  have r4: "e_reg_write E uc3 RIP entry = (Inr (), uc4)" "e_reg_read E uc4 RIP = Inr entry"
      "e_reg_read E uc4 RSP = Inr ?a" "byte_at uc4 = byte_at uc2"
    using regs_lawD [OF assms(2), where uc = uc3 and r = RIP and x = entry] r3 by (simp_all add: uc4_def prod_eq_iff)
  show ?thesis
  proof (rule that)
    show "setup_initial_state E oc v entry stk = (Ok (), v\<lparr>v_uc := Some uc4\<rparr>)"
      by (simp add: setup_initial_state_def assms(3) sub w r3(1) r4(1) reg_op_def)
  qed (simp_all add: r4 same)
qed

lemma stack_prepared:
  assumes "mem_law E byte_at" and "regs_law E byte_at" and "vcpu_inv byte_at v" and uc: "v_uc v = Some uc"
    and "mm_claimed (v_map v) \<inter> addr_range STACK_BASE STACK_SIZE = {}"
  shows "\<exists>v1 v2 uc'. map_stack E oc v STACK_BASE STACK_SIZE = (Ok (), v1) \<and>
     setup_initial_state E oc v1 entry (STACK_BASE + STACK_SIZE) = (Ok (), v2) \<and>
     vcpu_inv byte_at v2 \<and> vcpu_reg E v2 RSP = Ok 0x7fffffffdfe0 \<and> vcpu_reg E v2 RIP = Ok entry \<and>
     read_guest E v2 0x7fffffffdfe0 32 = Ok (replicate 32 0) \<and> v_uc v2 = Some uc' \<and>
     byte_at uc' = upd_bytes (byte_at uc) (unat STACK_BASE) (replicate (unat STACK_SIZE) 0)"
proof -
  let ?stk = "STACK_BASE + STACK_SIZE"
  obtain v1 uc1 where v1: "map_stack E oc v STACK_BASE STACK_SIZE = (Ok (), v1)" "vcpu_inv byte_at v1"
      "v_uc v1 = Some uc1"
    and b1: "byte_at uc1 = upd_bytes (byte_at uc) (unat STACK_BASE) (replicate (unat STACK_SIZE) 0)"
    using map_memory_cases [OF assms(1,3) uc stack_range_ok, of oc "sup PROT_READ PROT_WRITE"] assms(5)
    unfolding map_stack_def by auto
  have stk: "0x20 \<le> ?stk" "?stk - 0x20 = 0x7fffffffdfe0" by (simp_all add: STACK_BASE_def STACK_SIZE_def)
  have zero: "\<forall>i < 32. byte_at uc1 (unat (?stk - 0x20) + i) = Some 0"
    unfolding stk(2) by (simp add: b1 upd_bytes_def STACK_BASE_def STACK_SIZE_def)
  obtain uc2 where prep: "setup_initial_state E oc v1 entry ?stk = (Ok (), v1\<lparr>v_uc := Some uc2\<rparr>)"
    and uc2: "byte_at uc2 = byte_at uc1" "e_reg_read E uc2 RSP = Inr (?stk - 0x20)" "e_reg_read E uc2 RIP = Inr entry"
    by (rule setup_on_zeros [OF assms(1,2) v1(3) stk(1) zero])
  let ?v2 = "v1\<lparr>v_uc := Some uc2\<rparr>"
  have "read_guest E ?v2 0x7fffffffdfe0 32 = Ok (replicate 32 0)"
    by (subst read_guest_Ok_iff [OF assms(1), of _ uc2])
       (use zero in \<open>simp_all add: isize_max_def uc2(1) stk(2) del: replicate_numeral\<close>)
  moreover have "vcpu_inv byte_at ?v2" using v1(2,3) by (simp add: vcpu_inv_def uc2(1))
  ultimately show ?thesis using v1(1) prep uc2 by (simp add: vcpu_reg_def stk(2) b1)
qed

section \<open>Permissions and set-up states\<close>

text \<open>What claiming and mapping a range does to the engine, when the engine's operations are only
  composed: the state stays a set-up one, and the permissions are those that were asked for.\<close>

lemma claim_and_map_engine:
  assumes "claim_and_map E oc v uc b s f pr = (Ok uc1, v1)"
  shows "v_uc v1 = Some uc1" "set_up E uc \<Longrightarrow> set_up E uc1"
    "prot_law E prot_at \<Longrightarrow> prot_at uc1 x = (if x \<in> addr_range b s then pr else prot_at uc x)"
proof -
  obtain m where m: "mm_insert oc (v_map v) b s f = (Ok (), m)"
    using assms by (cases "mm_insert oc (v_map v) b s f"; cases "fst (mm_insert oc (v_map v) b s f)")
      (auto simp: claim_and_map_def)
  have map: "e_mem_map E uc b s pr = (Inr (), uc1)" and v1: "v1 = v\<lparr>v_map := m, v_uc := Some uc1\<rparr>"
    using assms by (auto simp: claim_and_map_def m split: prod.splits sum.splits)
  show "v_uc v1 = Some uc1" by (simp add: v1)
  show "set_up E uc1" if "set_up E uc" by (rule set_up_eqI(1) [OF that map])
  show "prot_at uc1 x = (if x \<in> addr_range b s then pr else prot_at uc x)" if "prot_law E prot_at"
    using prot_lawD(1) [OF that map] by (simp add: addr_range_mem)
qed

lemma map_memory_engine:
  assumes "map_memory E oc v b s pr = (Ok (), v')" and "v_uc v = Some uc"
  shows "\<exists>uc'. v_uc v' = Some uc' \<and> (set_up E uc \<longrightarrow> set_up E uc') \<and>
     (prot_law E prot_at \<longrightarrow> (\<forall>x. prot_at uc' x = (if x \<in> addr_range b s then pr else prot_at uc x)))"
proof -
  obtain uc1 v1 where claim: "claim_and_map E oc v uc b s 0 pr = (Ok uc1, v1)"
    and v': "v' = v1\<lparr>v_regions := v_regions v1 @ [(b, s, 0)]\<rparr>"
    using assms by (auto simp: map_memory_def split: prod.splits result.splits)
  from claim_and_map_engine [OF claim] show ?thesis by (auto simp: v')
qed

definition seg_protect :: "(nat \<Rightarrow> prot) \<Rightarrow> segment \<Rightarrow> nat \<Rightarrow> prot" where
  "seg_protect f seg x = (if x \<in> claim_range seg then seg_prot (s_flags seg) else f x)"

lemma map_segment_engine:
  assumes "map_segment E oc v uc seg = (Ok uc', v')"
  shows "v_uc v' = Some uc'" "set_up E uc \<Longrightarrow> set_up E uc'"
    "prot_law E prot_at \<Longrightarrow> seg_room seg \<Longrightarrow> prot_at uc' = seg_protect (prot_at uc) seg"
proof -
  obtain start sz uc1 v1 dest data where pages: "seg_pages oc seg = Ok (start, sz)"
    and claim: "claim_and_map E oc v uc start sz (s_flags seg) (seg_prot (s_flags seg)) = (Ok uc1, v1)"
    and w: "e_mem_write E uc1 dest data = (Inr (), uc')"
    and v': "v' = v1\<lparr>v_uc := Some uc', v_regions := v_regions v1 @ [(start, sz, s_flags seg)]\<rparr>"
    using assms by (auto simp: map_segment_def split: prod.splits result.splits sum.splits)
  note eng = claim_and_map_engine [OF claim]
  show "v_uc v' = Some uc'" by (simp add: v')
  show "set_up E uc'" if "set_up E uc" by (rule set_up_eqI(2) [OF eng(2) [OF that] w])
  show "prot_at uc' = seg_protect (prot_at uc) seg" if law: "prot_law E prot_at" and room: "seg_room seg"
  proof
    fix x
    have "prot_at uc' x = prot_at uc1 x" using prot_lawD(2) [OF law w] by simp
    then show "prot_at uc' x = seg_protect (prot_at uc) seg x"
      using pages unfolding eng(3) [OF law] seg_pages_eq [OF room] by (auto simp: seg_protect_def)
  qed
qed

lemma map_segments_engine:
  "map_segments E oc v uc segs = (Ok (), v') \<Longrightarrow> v_uc v = Some uc \<Longrightarrow>
     \<exists>uc'. v_uc v' = Some uc' \<and> (set_up E uc \<longrightarrow> set_up E uc') \<and>
       (prot_law E prot_at \<and> (\<forall>seg \<in> set segs. seg_room seg) \<longrightarrow> prot_at uc' = foldl seg_protect (prot_at uc) segs)"
proof (induction segs arbitrary: v uc)
  case (Cons seg segs)
  obtain uc1 v1 where seg: "map_segment E oc v uc seg = (Ok uc1, v1)"
    and rest: "map_segments E oc v1 uc1 segs = (Ok (), v')"
    using Cons.prems(1) by (auto split: prod.splits result.splits)
  note eng = map_segment_engine [OF seg]
  from Cons.IH [OF rest eng(1)] obtain uc' where uc': "v_uc v' = Some uc'" "set_up E uc1 \<longrightarrow> set_up E uc'"
      "prot_law E prot_at \<and> (\<forall>seg \<in> set segs. seg_room seg) \<longrightarrow> prot_at uc' = foldl seg_protect (prot_at uc1) segs" by blast
  show ?case using uc' eng(2) eng(3) [where prot_at = prot_at] by (intro exI [of _ uc']) simp
qed simp

lemma setup_engine:
  assumes "setup_initial_state E oc v entry stk = (Ok (), v')" and "v_uc v = Some uc"
  shows "\<exists>uc'. v_uc v' = Some uc' \<and> (set_up E uc \<longrightarrow> set_up E uc') \<and>
     (prot_law E prot_at \<longrightarrow> prot_at uc' = prot_at uc)"
proof -
  obtain a where a: "sub64 oc stk 0x20 = (Ok a :: (vcpu_error, u64) result)"
    using assms by (cases "sub64 oc stk 0x20 :: (vcpu_error, u64) result") (auto simp: setup_initial_state_def)
  obtain x uc1 where w: "e_mem_write E uc a (replicate 0x20 0) = (x, uc1)" by fastforce
  obtain y uc2 where r1: "e_reg_write E uc1 RSP a = (y, uc2)" by fastforce
  obtain z uc3 where r2: "e_reg_write E uc2 RIP entry = (z, uc3)" by fastforce
  have "v' = v\<lparr>v_uc := Some uc3\<rparr>"
    using assms(1) unfolding setup_initial_state_def assms(2) option.case a result.case w prod.case
    by (cases x; cases y; simp add: r1 r2 reg_op_def)
  moreover have "set_up E uc3" if "set_up E uc"
    by (rule set_up_eqI(3) [OF set_up_eqI(3) [OF set_up_eqI(2) [OF that w] r1] r2]) simp_all
  moreover have "prot_at uc3 = prot_at uc" if "prot_law E prot_at"
    using prot_lawD(2) [OF that w] prot_lawD(3) [OF that r1] prot_lawD(3) [OF that r2] by simp
  ultimately show ?thesis by simp
qed

text \<open>In an image with disjoint pages, the permissions are those of the segment an address is in.\<close>

lemma foldl_protect_out: "\<forall>seg \<in> set segs. x \<notin> claim_range seg \<Longrightarrow> foldl seg_protect f segs x = f x"
  by (induction segs arbitrary: f) (simp_all add: seg_protect_def)

lemma foldl_protect_in:
  "ranges_disjoint (map seg_claim segs) \<Longrightarrow> seg \<in> set segs \<Longrightarrow> x \<in> claim_range seg \<Longrightarrow>
     foldl seg_protect f segs x = seg_prot (s_flags seg)"
proof (induction segs arbitrary: f)
  case (Cons s segs)
  show ?case
  proof (cases "seg \<in> set segs")
    case True
    then show ?thesis using Cons by (simp add: ranges_disjoint_Cons)
  next
    case False
    then have "seg = s" using Cons.prems(2) by simp
    moreover from this have "\<forall>seg' \<in> set segs. x \<notin> claim_range seg'"
      using Cons.prems(1,3) by (auto simp: ranges_disjoint_Cons)
    ultimately show ?thesis using Cons.prems(3) by (simp add: foldl_protect_out) (simp add: seg_protect_def)
  qed
qed simp

lemma seg_prot_bits:
  "can_read (seg_prot w) \<longleftrightarrow> bit w 2" "can_write (seg_prot w) \<longleftrightarrow> bit w 1" "can_exec (seg_prot w) \<longleftrightarrow> bit w 0"
proof -
  have "w AND 2 ^ n \<noteq> 0 \<longleftrightarrow> bit w n" if "n < 32" for n
    using that by (simp add: and_exp_eq_0_iff_not_bit)
  from this [of 0] this [of 1] this [of 2]
  show "can_read (seg_prot w) \<longleftrightarrow> bit w 2" "can_write (seg_prot w) \<longleftrightarrow> bit w 1" "can_exec (seg_prot w) \<longleftrightarrow> bit w 0"
    by (simp_all add: seg_prot_def Let_def prot_defs)
qed

section \<open>A fresh virtual CPU\<close>

lemma vcpu_new_eq:
  "e_new E = Inr uc \<Longrightarrow> e_hook_syscall E uc = (Inr (), uc') \<Longrightarrow>
     vcpu_new E d = Ok \<lparr>v_uc = Some uc', v_hook = Some d, v_shared = shared_new, v_map = mm_new, v_regions = []\<rparr>"
  by (simp add: vcpu_new_def install_syscall_hook_def)

definition ram_vcpu :: "((reg \<times> u64) list \<times> uc_event) list \<Rightarrow> ram dispatch \<Rightarrow> ram vcpu" where
  "ram_vcpu script d =
     \<lparr>v_uc = Some (ram_new script), v_hook = Some d, v_shared = shared_new, v_map = mm_new, v_regions = []\<rparr>"

lemma vcpu_new_ram: "vcpu_new (ram_engine script) d = Ok (ram_vcpu script d)"
  by (simp add: vcpu_new_eq ram_vcpu_def)

lemma ram_vcpu_simps [simp]:
  "v_uc (ram_vcpu script d) = Some (ram_new script)" "v_hook (ram_vcpu script d) = Some d"
  "v_shared (ram_vcpu script d) = shared_new" "v_map (ram_vcpu script d) = mm_new"
  by (simp_all add: ram_vcpu_def)

lemma ram_vcpu_inv [simp]: "vcpu_inv ram_mem (ram_vcpu script d)"
  by (simp add: vcpu_inv_def ram_vcpu_def ram_new_def)

lemma load_sample_image:
  "elf_accepts (sample_parse ps) sample_bytes (sample_elf ps) \<Longrightarrow>
     load_elf oc (sample_parse ps) sample_bytes = Ok (elf_image sample_bytes (sample_elf ps))"
  by (auto simp: load_elf_Ok_char)

section \<open>Properties\<close>

text \<open>The page range of a segment that ends at least a page below the top of the address space is
  computed without overflow in either build; it is made of whole pages, contains the segment and
  reaches less than a page beyond it on each side.\<close>

theorem seg_pages_tight:
  assumes "seg_room seg"
  shows "\<exists>start sz. seg_pages oc seg = Ok (start, sz) \<and> page_aligned start \<and> page_aligned sz \<and>
     no_wrap start sz \<and> seg_range seg \<subseteq> addr_range start sz \<and>
     unat (s_vaddr seg) < unat start + 4096 \<and>
     unat start + unat sz < unat (s_vaddr seg) + unat (s_memsz seg) + 4096"
proof (intro exI conjI)
  show "seg_pages oc seg = Ok (fst (seg_claim seg), fst (snd (seg_claim seg)))"
    by (rule seg_pages_eq [OF assms])
  show "page_aligned (fst (seg_claim seg))" by (simp add: seg_claim_def)
  show "unat (s_vaddr seg) < unat (fst (seg_claim seg)) + 4096"
    unfolding seg_claim_range(1) [OF assms]
    using div_mult_mod_eq [of "unat (s_vaddr seg)" 4096] mod_less_divisor [of 4096 "unat (s_vaddr seg)"] by linarith
  show "unat (fst (seg_claim seg)) + unat (fst (snd (seg_claim seg))) <
          unat (s_vaddr seg) + unat (s_memsz seg) + 4096"
    unfolding seg_claim_range(2) [OF assms]
    using div_times_less_eq_dividend [of "unat (s_vaddr seg) + unat (s_memsz seg) + 4095" 4096] by linarith
qed (use seg_claim_range(3,4) [OF assms] seg_range_sub_claim [OF assms] in simp_all)

definition sample_segment :: segment where
  "sample_segment = \<lparr>s_vaddr = 0x401010, s_memsz = 4, s_filesz = 2, s_data = [1, 2, 0, 0],
                     s_flags = 5, s_align = 0x1000\<rparr>"

theorem seg_pages_tight_witness: "seg_range sample_segment \<subseteq> addr_range 0x401000 0x1000"
proof -
  have room: "seg_room sample_segment" by (simp add: seg_room_def sample_segment_def)
  have "seg_pages True sample_segment = Ok (0x401000, 0x1000)"
    by (simp add: seg_pages_def sample_segment_def PAGE_SIZE_def add64_def sub64_def)
  then show ?thesis using seg_pages_tight [OF room, of True] by auto
qed

text \<open>C15: mapping a loaded image whose segments are not empty and leave a page free below the top of
  the address space. It succeeds exactly when the segments' page ranges are disjoint from each
  other and from what is mapped already. Then every byte of the guest is as the image has it: the
  file bytes of a segment, zero in the rest of its pages, and what was there before elsewhere;
  the pages are recorded. Otherwise it is an overlap error. The bookkeeping stays consistent with
  the engine in both cases, and neither build panics.\<close>

theorem map_elf_memory:
  assumes "mem_law E byte_at" and "load_elf oc' parse img = Ok le"
    and "vcpu_inv byte_at v" and "v_uc v = Some uc" and "\<forall>seg \<in> set (le_segments le). seg_placed seg"
  shows "\<exists>v'. vcpu_inv byte_at v' \<and>
     (if ranges_disjoint (map seg_claim (le_segments le)) \<and>
         (\<forall>seg \<in> set (le_segments le). mm_claimed (v_map v) \<inter> claim_range seg = {})
      then map_elf E oc v le = (Ok (), v') \<and>
           v_regions v' = v_regions v @ map seg_claim (le_segments le) \<and>
           (\<exists>uc'. v_uc v' = Some uc' \<and> byte_at uc' = image_byte (byte_at uc) (le_segments le))
      else \<exists>b. map_elf E oc v le = (Err (Map b ''guest address space overlap''), v'))"
proof -
  have "\<forall>seg \<in> set (le_segments le). seg_mappable seg"
    using load_elf_segments_ok [OF assms(2)] seg_placed_mappable assms(5) by blast
  from map_segments_spec [OF assms(1) this assms(3,4)] show ?thesis
    unfolding map_elf_def assms(4) option.case by blast
qed

text \<open>C16: page permissions. When a loaded image, whose segments are not empty and leave a page free below
  the top of the address space, has been mapped, every page of a segment is readable, writable and
  executable exactly as bits 2, 1 and 0 of the segment's flags say, up to the last byte of its last
  page, and pages of no segment have the permissions they had.\<close>

theorem map_elf_permissions:
  assumes "mem_law E byte_at" and "prot_law E prot_at" and "load_elf oc' parse img = Ok le"
    and "vcpu_inv byte_at v" and "v_uc v = Some uc" and "\<forall>seg \<in> set (le_segments le). seg_placed seg"
    and "map_elf E oc v le = (Ok (), v')"
  shows "\<exists>uc'. v_uc v' = Some uc' \<and>
     (\<forall>seg \<in> set (le_segments le). \<forall>x \<in> claim_range seg.
        (can_read (prot_at uc' x) \<longleftrightarrow> bit (s_flags seg) 2) \<and> (can_write (prot_at uc' x) \<longleftrightarrow> bit (s_flags seg) 1) \<and>
        (can_exec (prot_at uc' x) \<longleftrightarrow> bit (s_flags seg) 0)) \<and>
     (\<forall>x. (\<forall>seg \<in> set (le_segments le). x \<notin> claim_range seg) \<longrightarrow> prot_at uc' x = prot_at uc x)"
proof -
  let ?segs = "le_segments le"
  have mappable: "\<forall>seg \<in> set ?segs. seg_mappable seg"
    using load_elf_segments_ok [OF assms(3)] seg_placed_mappable assms(6) by blast
  have run: "map_segments E oc v uc ?segs = (Ok (), v')" using assms(5,7) by (simp add: map_elf_def)
  then have disj: "ranges_disjoint (map seg_claim ?segs)"
    using map_segments_spec [OF assms(1) mappable assms(4,5), of oc] by (auto split: if_splits)
  have "\<forall>seg \<in> set ?segs. seg_room seg" using mappable by (simp add: seg_mappable_def)
  then obtain uc' where "v_uc v' = Some uc'" "prot_at uc' = foldl seg_protect (prot_at uc) ?segs"
    using map_segments_engine [OF run assms(5), of prot_at] assms(2) by blast
  then show ?thesis
    by (intro exI [of _ uc']) (simp add: foldl_protect_in [OF disj] foldl_protect_out seg_prot_bits)
qed

text \<open>C34: an image in which two segments share a page, as a linker lays them out without
  \<open>-z separate-code\<close>, is accepted by the loader and rejected by the virtual CPU.\<close>

theorem map_elf_shared_page:
  assumes "mem_law E byte_at" and "load_elf oc' parse img = Ok le"
    and "vcpu_inv byte_at v" and "v_uc v = Some uc" and "\<forall>seg \<in> set (le_segments le). seg_placed seg"
    and "i < j" and "j < length (le_segments le)"
    and "x \<in> seg_range (le_segments le ! i)" and "y \<in> seg_range (le_segments le ! j)"
    and "x div 4096 = y div 4096"
  shows "\<exists>b v'. map_elf E oc v le = (Err (Map b ''guest address space overlap''), v')"
proof -
  let ?segs = "le_segments le"
  have mappable: "\<forall>seg \<in> set ?segs. seg_mappable seg"
    using load_elf_segments_ok [OF assms(2)] seg_placed_mappable assms(5) by blast
  then have room: "seg_room (?segs ! i)" "seg_room (?segs ! j)"
    using assms(6,7) by (auto simp: seg_mappable_def)
  have "y \<in> claim_range (?segs ! i)"
    using claim_range_pages [OF room(1) _ assms(10)] seg_range_sub_claim [OF room(1)] assms(8) by blast
  moreover have "y \<in> claim_range (?segs ! j)" using seg_range_sub_claim [OF room(2)] assms(9) by blast
  ultimately have "\<not> ranges_disjoint (map seg_claim ?segs)"
    using ranges_disjoint_nth [OF _ assms(6,7)] by blast
  with map_segments_spec [OF assms(1) mappable assms(3,4), of oc] show ?thesis
    unfolding map_elf_def assms(4) option.case by auto
qed

text \<open>The release build rounds such an end up past the top of the address space: the subtraction wraps
  once more and the range is the right one.\<close>

lemma seg_pages_top_release:
  assumes ok: "unat (s_vaddr seg) + unat (s_memsz seg) < 2 ^ 64" "s_filesz seg \<le> s_memsz seg"
      "unat (s_memsz seg) \<le> isize_max"
    and top: "2 ^ 64 \<le> unat (s_vaddr seg) + unat (s_memsz seg) + 4096"
  shows "\<exists>sz. seg_pages False seg = Ok (page_floor (s_vaddr seg), sz) \<and>
     unat (page_floor (s_vaddr seg)) + unat sz = (unat (s_vaddr seg) + unat (s_memsz seg) + 4095) div 4096 * 4096"
proof -
  let ?e = "unat (s_vaddr seg) + unat (s_memsz seg)" and ?start = "page_floor (s_vaddr seg)"
  let ?w = "s_vaddr seg + s_memsz seg + PAGE_SIZE - 1"
  have u: "unat (s_vaddr seg + s_memsz seg) = ?e" "unat (s_vaddr seg + s_filesz seg) \<le> ?e"
    using ok by (simp_all add: unat_add64 word_le_nat_alt)
  have mx: "max (s_vaddr seg + s_memsz seg) (s_vaddr seg + s_filesz seg) = s_vaddr seg + s_memsz seg"
    using u by (intro max_absorb1) (simp add: word_le_nat_alt)
  have pages: "seg_pages False seg = Ok (?start, page_floor ?w - ?start)"
    by (simp add: seg_pages_def Let_def mx sub64_def flip: page_floor_def)
  have "?w = of_nat (?e + 4095)" by (simp add: PAGE_SIZE_def)
  then have w: "unat ?w = (?e + 4095) mod 2 ^ 64" by (simp only: unat_of_nat) simp
  have start: "unat ?start = unat (s_vaddr seg) div 4096 * 4096" by (rule unat_page_floor)
  have big: "4096 \<le> unat (s_vaddr seg)" using ok(3) top by (simp add: isize_max_def)
  show ?thesis
  proof (cases "?e + 4096 = 2 ^ 64")
    case True
    then have "unat ?w = 2 ^ 64 - 1" by (simp add: w)
    then have "unat (page_floor ?w) = 2 ^ 64 - 4096" by (simp add: unat_page_floor)
    moreover have "unat ?start \<le> 2 ^ 64 - 4096"
      using True start by simp
    ultimately show ?thesis using pages True by (simp add: unat_sub64 word_le_nat_alt)
  next
    case False
    then have e: "2 ^ 64 \<le> ?e + 4095" "?e + 4095 < 2 ^ 64 + 4096" using top ok(1) by linarith+
    then have "(?e + 4095) mod 2 ^ 64 = ?e + 4095 - 2 ^ 64" by (subst mod_if) simp
    then have "unat ?w < 4096" unfolding w using e by linarith
    then have "unat (page_floor ?w) = 0" by (simp add: unat_page_floor)
    then have "page_floor ?w = 0" by (simp add: unat_eq_zero)
    moreover have "0 < unat ?start" unfolding start using big by (simp add: div_greater_zero_iff)
    then have "unat ?start + unat (- ?start) = 2 ^ 64" by (rule unat_plus_minus64)
    moreover have "(?e + 4095) div 4096 * 4096 = 2 ^ 64" using e by simp
    ultimately show ?thesis using pages by simp
  qed
qed

text \<open>C35: a segment that ends in the last page of the address space is accepted by the loader; in a
  build with overflow checks, rounding its end up to a page panics, while the release build
  computes the right page range, one that ends at the top of the address space.\<close>

theorem map_elf_top_page_panics:
  assumes "load_elf oc parse img = Ok le" and "v_uc v = Some uc" and "le_segments le = seg # segs"
    and "2 ^ 64 \<le> unat (s_vaddr seg) + unat (s_memsz seg) + 4096"
  shows "map_elf E True v le = (Panic AddOverflow, v) \<and>
     (\<exists>sz. seg_pages False seg = Ok (page_floor (s_vaddr seg), sz) \<and>
        unat (page_floor (s_vaddr seg)) + unat sz = (unat (s_vaddr seg) + unat (s_memsz seg) + 4095) div 4096 * 4096)"
proof -
  have ok: "unat (s_vaddr seg) + unat (s_memsz seg) < 2 ^ 64" "unat (s_filesz seg) \<le> unat (s_memsz seg)"
    using load_elf_segments_ok [OF assms(1)] assms(3) by (auto simp: segment_ok_def no_wrap_def word_le_nat_alt)
  have small: "unat (s_memsz seg) \<le> isize_max" using load_elf_memsz [OF assms(1)] assms(3) by simp
  from ok have u: "unat (s_vaddr seg + s_memsz seg) = unat (s_vaddr seg) + unat (s_memsz seg)"
      "unat (s_vaddr seg + s_filesz seg) = unat (s_vaddr seg) + unat (s_filesz seg)"
    by (simp_all add: unat_add64)
  then have mx: "max (s_vaddr seg + s_memsz seg) (s_vaddr seg + s_filesz seg) = s_vaddr seg + s_memsz seg"
    using ok by (intro max_absorb1) (simp add: word_le_nat_alt)
  have over: "add64 True (s_vaddr seg + s_memsz seg) PAGE_SIZE = (Panic AddOverflow :: (vcpu_error, u64) result)"
    using assms(4) by (simp add: add64_def u)
  have "seg_pages True seg = Panic AddOverflow"
    using ok by (simp add: seg_pages_def Let_def add64_exact mx over)
  then show ?thesis
    using assms(2,3) seg_pages_top_release [OF ok(1) _ small assms(4)] ok(2)
    by (simp add: map_elf_def map_segment_def word_le_nat_alt)
qed

definition sample_headers :: "u64 \<Rightarrow> program_header list" where
  "sample_headers second = [sample_phdr 0x401000 2 4, sample_phdr second 2 4]"

lemma sample_accepts:
  "unat second + 4 < 2 ^ 64 \<Longrightarrow> 0x401004 \<le> second \<Longrightarrow>
     elf_accepts (sample_parse (sample_headers second)) sample_bytes (sample_elf (sample_headers second))"
  by (simp add: elf_accepts_def sample_headers_def sample_defs has_magic_def pt_loads_def phdr_fits_def
      phdrs_disjoint_def no_wrap_def isize_max_def addr_range_disjoint word_le_nat_alt)

lemma sample_segments:
  "le_segments (elf_image sample_bytes (sample_elf (sample_headers second))) =
     [sample_segment\<lparr>s_vaddr := 0x401000\<rparr>, sample_segment\<lparr>s_vaddr := second\<rparr>]"
  by (simp add: elf_image_def sample_headers_def sample_defs pt_loads_def phdr_segment_def sample_segment_def
      sub_slice_def replicate_numeral)

lemma sample_claim:
  "seg_claim (sample_segment\<lparr>s_vaddr := 0x401000\<rparr>) = (0x401000, 0x1000, 5)"
  "seg_claim (sample_segment\<lparr>s_vaddr := 0x402000\<rparr>) = (0x402000, 0x1000, 5)"
  by (simp_all add: seg_claim_def page_floor_def sample_segment_def PAGE_SIZE_def)

theorem map_elf_memory_witness:
  "\<exists>v'. map_elf (ram_engine []) True (ram_vcpu [] dispatch_new)
          (elf_image sample_bytes (sample_elf (sample_headers 0x402000))) = (Ok (), v')"
proof -
  let ?le = "elf_image sample_bytes (sample_elf (sample_headers 0x402000))"
  have le: "load_elf True (sample_parse (sample_headers 0x402000)) sample_bytes = Ok ?le"
    by (rule load_sample_image [OF sample_accepts]) simp_all
  have placed: "\<forall>seg \<in> set (le_segments ?le). seg_placed seg"
    by (simp add: sample_segments seg_placed_def sample_segment_def)
  have "ranges_disjoint (map seg_claim (le_segments ?le))"
    by (simp add: sample_segments sample_claim ranges_disjoint_def addr_range_disjoint)
  then show ?thesis
    using map_elf_memory [OF ram_mem_law [of "[]"] le ram_vcpu_inv [of "[]" dispatch_new] ram_vcpu_simps(1) placed]
    by auto
qed

theorem map_elf_permissions_witness:
  "\<exists>v' uc'. map_elf (ram_engine []) True (ram_vcpu [] dispatch_new)
          (elf_image sample_bytes (sample_elf (sample_headers 0x402000))) = (Ok (), v') \<and> v_uc v' = Some uc' \<and>
     can_exec (ram_prot uc' 0x402fff) \<and> \<not> can_write (ram_prot uc' 0x402fff)"
proof -
  let ?le = "elf_image sample_bytes (sample_elf (sample_headers 0x402000))"
  have le: "load_elf True (sample_parse (sample_headers 0x402000)) sample_bytes = Ok ?le"
    by (rule load_sample_image [OF sample_accepts]) simp_all
  have placed: "\<forall>seg \<in> set (le_segments ?le). seg_placed seg"
    by (simp add: sample_segments seg_placed_def sample_segment_def)
  then have mappable: "\<forall>seg \<in> set (le_segments ?le). seg_mappable seg"
    using load_elf_segments_ok [OF le] seg_placed_mappable by blast
  have "ranges_disjoint (map seg_claim (le_segments ?le))"
    by (simp add: sample_segments sample_claim ranges_disjoint_def addr_range_disjoint)
  then obtain v' where m: "map_elf (ram_engine []) True (ram_vcpu [] dispatch_new) ?le = (Ok (), v')"
    using map_segments_spec [OF ram_mem_law [of "[]"] mappable ram_vcpu_inv [of "[]" dispatch_new] ram_vcpu_simps(1), of True]
    by (auto simp: map_elf_def)
  let ?seg = "sample_segment\<lparr>s_vaddr := 0x402000\<rparr>"
  have seg: "?seg \<in> set (le_segments ?le)" by (simp add: sample_segments)
  have x: "0x402fff \<in> claim_range ?seg" by (simp add: sample_claim addr_range_mem)
  have bits: "bit (s_flags ?seg) 0" "\<not> bit (s_flags ?seg) 1" by (simp_all add: sample_segment_def)
  from map_elf_permissions [OF ram_mem_law [of "[]"] ram_prot_law le ram_vcpu_inv [of "[]" dispatch_new] ram_vcpu_simps(1)
      placed m] seg x bits show ?thesis using m by metis
qed

theorem map_elf_shared_page_witness:
  "\<exists>b v'. map_elf (ram_engine []) True (ram_vcpu [] dispatch_new)
          (elf_image sample_bytes (sample_elf (sample_headers 0x401010))) =
            (Err (Map b ''guest address space overlap''), v')"
proof -
  let ?le = "elf_image sample_bytes (sample_elf (sample_headers 0x401010))"
  have le: "load_elf True (sample_parse (sample_headers 0x401010)) sample_bytes = Ok ?le"
    by (rule load_sample_image [OF sample_accepts]) simp_all
  have placed: "\<forall>seg \<in> set (le_segments ?le). seg_placed seg"
    by (simp add: sample_segments seg_placed_def sample_segment_def)
  have "0x401000 \<in> seg_range (le_segments ?le ! 0)" and "0x401010 \<in> seg_range (le_segments ?le ! 1)"
    by (simp_all add: sample_segments sample_segment_def addr_range_mem)
  from map_elf_shared_page [OF ram_mem_law [of "[]"] le ram_vcpu_inv [of "[]" dispatch_new] ram_vcpu_simps(1) placed _ _ this]
  show ?thesis by (simp add: sample_segments)
qed

theorem map_elf_top_page_panics_witness:
  "map_elf (ram_engine []) True (ram_vcpu [] dispatch_new)
     (elf_image sample_bytes (sample_elf [sample_phdr 0xFFFFFFFFFFFFF100 2 4])) =
       (Panic AddOverflow, ram_vcpu [] dispatch_new)"
proof -
  let ?ps = "[sample_phdr 0xFFFFFFFFFFFFF100 2 4]"
  let ?le = "elf_image sample_bytes (sample_elf ?ps)"
  have le: "load_elf True (sample_parse ?ps) sample_bytes = Ok ?le"
    by (rule load_sample_image)
       (simp add: elf_accepts_def sample_defs has_magic_def pt_loads_def phdr_fits_def phdrs_disjoint_def
          no_wrap_def isize_max_def)
  have segs: "le_segments ?le = [phdr_segment sample_bytes (sample_phdr 0xFFFFFFFFFFFFF100 2 4)]"
    by (simp add: elf_image_def sample_elf_def pt_loads_def sample_phdr_def)
  show ?thesis
    by (rule map_elf_top_page_panics [OF le ram_vcpu_simps(1) segs, THEN conjunct1])
       (simp add: phdr_segment_def sample_phdr_def)
qed

text \<open>Mapping a range of whole pages by hand (\<open>map_memory\<close>, and \<open>map_stack\<close> with read and write)
  succeeds exactly when the range is free, gives zero bytes there and changes none elsewhere; a
  taken range is an overlap error that changes nothing. The bookkeeping stays consistent.\<close>

theorem map_memory_spec:
  assumes "mem_law E byte_at" and "vcpu_inv byte_at v" and "v_uc v = Some uc" and "range_ok b s"
  shows "if mm_claimed (v_map v) \<inter> addr_range b s = {}
     then \<exists>v' uc'. map_memory E oc v b s pr = (Ok (), v') \<and> vcpu_inv byte_at v' \<and> v_uc v' = Some uc' \<and>
            byte_at uc' = upd_bytes (byte_at uc) (unat b) (replicate (unat s) 0) \<and>
            mm_claimed (v_map v') = mm_claimed (v_map v) \<union> addr_range b s \<and>
            v_regions v' = v_regions v @ [(b, s, 0)]
     else map_memory E oc v b s pr = (Err (Map b ''guest address space overlap''), v)"
  by (rule map_memory_cases [OF assms])

theorem map_memory_spec_witness:
  "fst (map_stack (ram_engine []) True (ram_vcpu [] dispatch_new) STACK_BASE STACK_SIZE) = Ok ()"
  using map_memory_spec [OF ram_mem_law [of "[]"] ram_vcpu_inv [of "[]" dispatch_new] ram_vcpu_simps(1) stack_range_ok,
      of True "sup PROT_READ PROT_WRITE"]
  by (auto simp: map_stack_def)

text \<open>C36: when the engine refuses a mapping that the memory map had accepted, the error is returned but
  the range stays claimed: it is in no region of the virtual CPU, yet a later attempt on the same
  range fails as an overlap, whatever the engine would say.\<close>

theorem map_memory_refusal_leaks:
  assumes "vcpu_inv byte_at v" and "v_uc v = Some uc" and "no_wrap b s" and "s \<noteq> 0"
    and "mm_claimed (v_map v) \<inter> addr_range b s = {}" and "fst (e_mem_map E uc b s pr) = Inl msg"
  shows "\<exists>v'. map_memory E oc v b s pr = (Err (Map b msg), v') \<and> v_regions v' = v_regions v \<and>
     map_memory E' oc' v' b s pr' = (Err (Map b ''guest address space overlap''), v')"
proof -
  have minv: "mm_inv (v_map v)" using assms(1) by (simp add: vcpu_inv_def)
  let ?m = "mm_added (v_map v) (as_region (b, s, 0))"
  have minv': "mm_inv ?m"
    using assms(3-5) by (intro mm_inv_added minv) (simp_all add: region_ok_def as_region_def)
  have ins: "mm_insert oc (v_map v) b s 0 = (Ok (), ?m)"
    using assms(3-5) by (simp add: mm_insert_free minv as_region_def)
  obtain uc' where "e_mem_map E uc b s pr = (Inl msg, uc')"
    using assms(6) by (cases "e_mem_map E uc b s pr") auto
  then have first: "map_memory E oc v b s pr = (Err (Map b msg), v\<lparr>v_map := ?m, v_uc := Some uc'\<rparr>)"
    by (simp add: map_memory_def assms(2) claim_and_map_def ins)
  have "mm_claimed ?m \<inter> addr_range b s \<noteq> {}" using assms(4) by (auto simp: Int_Un_distrib2)
  then have "map_memory E' oc' (v\<lparr>v_map := ?m, v_uc := Some uc'\<rparr>) b s pr' =
      (Err (Map b ''guest address space overlap''), v\<lparr>v_map := ?m, v_uc := Some uc'\<rparr>)"
    using minv' assms(3) by (simp add: map_memory_def claim_and_map_taken)
  with first show ?thesis by auto
qed

theorem map_memory_refusal_leaks_witness:
  "\<exists>v'. map_memory (ram_engine []) True (ram_vcpu [] dispatch_new) 0x1001 0x1000 PROT_READ =
          (Err (Map 0x1001 ''Invalid memory mapping (UC_ERR_MAP)''), v') \<and>
        fst (map_memory (ram_engine []) True v' 0x1001 0x1000 PROT_READ) =
          Err (Map 0x1001 ''guest address space overlap'')"
  using map_memory_refusal_leaks [OF ram_vcpu_inv [of "[]" dispatch_new] ram_vcpu_simps(1), of "0x1001" "0x1000"
      "ram_engine []" PROT_READ "''Invalid memory mapping (UC_ERR_MAP)''" True "ram_engine []" True PROT_READ]
  by (auto simp: no_wrap_def ram_map_def page_aligned_def)

text \<open>The start-up sequence of \<open>run_elf\<close> after the image is mapped. If the stack's range is free, the
  stack is mapped and the initial state set without error; then \<open>RSP\<close> is 0x20 below the top of the
  stack, 16-byte aligned, \<open>RIP\<close> is the entry point, and the guest reads \<open>argc\<close>, \<open>argv\<close>, \<open>envp\<close> and
  the auxiliary vector as four zero words at \<open>RSP\<close>.\<close>

theorem stack_ready:
  assumes "mem_law E byte_at" and "regs_law E byte_at" and "vcpu_inv byte_at v"
    and "mm_claimed (v_map v) \<inter> addr_range STACK_BASE STACK_SIZE = {}"
  shows "\<exists>v1 v2. map_stack E oc v STACK_BASE STACK_SIZE = (Ok (), v1) \<and>
     setup_initial_state E oc v1 entry (STACK_BASE + STACK_SIZE) = (Ok (), v2) \<and>
     vcpu_inv byte_at v2 \<and> vcpu_reg E v2 RSP = Ok 0x7fffffffdfe0 \<and> vcpu_reg E v2 RIP = Ok entry \<and>
     read_guest E v2 0x7fffffffdfe0 32 = Ok (replicate 32 0)"
proof -
  obtain uc where "v_uc v = Some uc" using assms(3) by (rule vcpu_invD)
  from stack_prepared [OF assms(1-3) this assms(4)] show ?thesis by blast
qed

theorem stack_ready_witness:
  "\<exists>v1 v2. map_stack (ram_engine []) True (ram_vcpu [] dispatch_new) STACK_BASE STACK_SIZE = (Ok (), v1) \<and>
     setup_initial_state (ram_engine []) True v1 0x401000 (STACK_BASE + STACK_SIZE) = (Ok (), v2) \<and>
     vcpu_reg (ram_engine []) v2 RIP = Ok 0x401000"
  using stack_ready [OF ram_mem_law [of "[]"] ram_regs_law ram_vcpu_inv [of "[]" dispatch_new], of True "0x401000"]
  by auto

end
