(* ===== verification/Vcpu_Run.thy ===== *)
theory Vcpu_Run
  imports Vcpu_Memory
begin

text \<open>
  Running a guest. \<open>hook_spec\<close> states the whole behaviour of the system-call hook with the
  handlers of stage 1, on every branch; \<open>emu_step\<close> is one trapped instruction as a step relation,
  with inversion and simplification rules, and \<open>emu_loop\<close> is characterised by it: a run returns
  exactly when some number of steps leads to a state with an end. What holds of every reachable
  state, the accounting of output against the trace and the life of the exit reason, follows by
  rule induction; the results of \<open>vcpu_run\<close> follow from both.
\<close>

section \<open>The hook\<close>

lemma capture_combined_new [simp]: "capture_combined capture_new = []"
  by (simp add: capture_combined_def capture_new_def)

lemma capture_combined_one [simp]:
  "fd = 1 \<or> fd = 2 \<Longrightarrow> capture_combined (capture_write capture_new fd bs) = bs"
  by (auto simp: capture_combined_eq capture_stdout_def capture_stderr_def capture_get_write)

lemma hook_ctx_simps [simp]:
  "ctx_process (hook_ctx E uc) = Running" "ctx_io (hook_ctx E uc) = capture_new"
  "ctx_mem (hook_ctx E uc) = unicorn_box E uc" "dg_state (unicorn_box E uc) = uc"
  "ctx_read (hook_ctx E uc) a n = ug_read E uc a n"
  by (simp_all add: hook_ctx_def unicorn_box_def ctx_read_def)

lemma hook_ctx_ok [simp]: "ctx_ok (hook_ctx E uc)"
  by (simp add: hook_ctx_def)

lemma i64_as_u64_int [simp]: "i64_as_u64 (int n) = of_nat n"
  by (simp add: i64_as_u64_def)

lemma u64_as_i64_length: "ug_read E uc a n = Ok bs \<Longrightarrow> u64_as_i64 (of_nat (length bs)) = int (length bs)"
  using ug.read_ret [of E uc a n bs] usize_as_i64 [of "length bs"] by simp

text \<open>What the hook leaves behind when it returns a value to the guest, and when it stops the run.\<close>

definition hook_return :: "'uc engine \<Rightarrow> 'uc \<Rightarrow> i64 \<Rightarrow> 'uc" where
  "hook_return E uc ret = snd (e_reg_write E uc RAX (i64_as_u64 ret))"

definition hook_stop :: "'uc engine \<Rightarrow> 'uc \<Rightarrow> 'uc" where
  "hook_stop E uc = snd (e_emu_stop E uc)"

definition hook_record :: "syscall_regs \<Rightarrow> trace_store \<Rightarrow> sink \<Rightarrow> string \<Rightarrow> syscall_outcome \<Rightarrow> trace_store" where
  "hook_record regs ts s name outcome =
     sink_record ts s name (syscall_nr regs) (regs_args regs) (sr_rip regs) outcome"

definition hook_spec ::
  "'uc engine \<Rightarrow> sink \<Rightarrow> 'uc \<Rightarrow> shared_state \<Rightarrow> trace_store \<Rightarrow>
     panic option \<times> 'uc \<times> shared_state \<times> trace_store" where
  "hook_spec E s uc sh ts =
     (let regs = hook_regs E uc; fd = u64_as_i64 (arg0 regs); code = Exit (ucast (arg0 regs)) in
      if syscall_nr regs = 1 then
        (if fd \<noteq> 1 \<and> fd \<noteq> 2
         then (None, hook_return E uc (- EBADF), sh, hook_record regs ts s ''write'' (Return (- EBADF)))
         else case ug_read E uc (arg1 regs) (unat (arg2 regs)) of
                Ok bs \<Rightarrow> (None, hook_return E uc (int (length bs)), sh\<lparr>sh_output := sh_output sh @ bs\<rparr>,
                          hook_record regs ts s ''write'' (Return (int (length bs))))
              | Err _ \<Rightarrow> (None, hook_stop E uc,
                          sh\<lparr>sh_error := Some ''E202: engine error: guest memory read failed''\<rparr>, ts)
              | Panic p \<Rightarrow> (Some p, uc, sh, ts))
      else if syscall_nr regs = 60 \<or> syscall_nr regs = 231 then
        (None, hook_stop E uc, sh\<lparr>sh_exit := Some code\<rparr>,
         hook_record regs ts s (if syscall_nr regs = 60 then ''exit'' else ''exit_group'') (OExit code))
      else (None, hook_return E uc (- ENOSYS), sh,
            hook_record regs ts s ''<unimplemented>'' (Return (- ENOSYS))))"

lemma low_byte_ucast: "(ucast (w AND 0xff :: u64) :: u8) = ucast w"
  by (simp only: word_unat_eq_iff low_byte) (simp add: unsigned_ucast_eq take_bit_eq_mod)

lemma syscall_hook_std: "syscall_hook E oc (std_table oc s) uc sh ts = hook_spec E s uc sh ts"
proof -
  let ?d = "std_table oc s" and ?ctx = "hook_ctx E uc" and ?regs = "hook_regs E uc"
  let ?nr = "syscall_nr ?regs"
  have sh: "sh\<lparr>sh_output := sh_output sh @ []\<rparr> = sh" by simp
  consider "?nr = 1" | "?nr = 60" | "?nr = 231" | "?nr \<noteq> 1" "?nr \<noteq> 60" "?nr \<noteq> 231" by blast
  then show ?thesis
  proof cases
    case 1
    then have "find_handler ?d ?nr = Some (write_handler oc)" by (simp add: find_handler_std)
    note call = dispatch_call_known [OF this, of oc ?ctx ts]
    show ?thesis
      using 1 u64_as_i64_length [of E uc "arg1 ?regs" "unat (arg2 ?regs)"]
      by (auto simp: syscall_hook_def call write_handle_cases hook_spec_def Let_def hook_apply_def
          hook_return_def hook_stop_def hook_record_def EBADF_def split: result.split)
  next
    case 2
    then have "find_handler ?d ?nr = Some exit_handler" by (simp add: find_handler_std)
    note call = dispatch_call_known [OF this, of oc ?ctx ts]
    show ?thesis
      using 2 by (simp add: syscall_hook_def call exit_handle_def hook_spec_def Let_def hook_apply_def
          hook_stop_def hook_record_def low_byte_ucast)
  next
    case 3
    then have "find_handler ?d ?nr = Some exit_group_handler" by (simp add: find_handler_std)
    note call = dispatch_call_known [OF this, of oc ?ctx ts]
    show ?thesis
      using 3 by (simp add: syscall_hook_def call exit_group_handle_def hook_spec_def Let_def hook_apply_def
          hook_stop_def hook_record_def low_byte_ucast)
  next
    case 4
    then have "find_handler ?d ?nr = None" by (simp add: find_handler_std)
    note call = dispatch_call_unknown [OF this, of oc ?ctx ts]
    show ?thesis
      using 4 by (simp add: syscall_hook_def call hook_spec_def Let_def hook_apply_def hook_return_def
          hook_record_def ENOSYS_def)
  qed
qed

section \<open>Steps\<close>

inductive emu_step ::
  "'uc engine \<Rightarrow> bool \<Rightarrow> 'uc dispatch \<Rightarrow> 'uc \<times> shared_state \<times> trace_store \<Rightarrow>
     'uc \<times> shared_state \<times> trace_store \<Rightarrow> bool" for E oc d where
  trap: "e_advance E uc = (EvSyscall, uc1) \<Longrightarrow>
     syscall_hook E oc d uc1 sh ts = (None, uc2, sh2, ts2) \<Longrightarrow>
     emu_step E oc d (uc, sh, ts) (uc2, sh2, ts2)"

inductive_simps emu_step_iff: "emu_step E oc d (uc, sh, ts) (uc2, sh2, ts2)"
inductive_cases emu_stepE: "emu_step E oc d (uc, sh, ts) st"

abbreviation emu_steps ::
  "'uc engine \<Rightarrow> bool \<Rightarrow> 'uc dispatch \<Rightarrow> 'uc \<times> shared_state \<times> trace_store \<Rightarrow>
     'uc \<times> shared_state \<times> trace_store \<Rightarrow> bool" where
  "emu_steps E oc d \<equiv> (emu_step E oc d)\<^sup>*\<^sup>*"

definition emu_last ::
  "'uc engine \<Rightarrow> bool \<Rightarrow> 'uc dispatch \<Rightarrow> 'uc \<times> shared_state \<times> trace_store \<Rightarrow>
     (emu_end \<times> 'uc \<times> shared_state \<times> trace_store) option" where
  "emu_last E oc d = (\<lambda>(uc, sh, ts).
     case e_advance E uc of
       (EvDone, uc1) \<Rightarrow> Some (EmuDone, uc1, sh, ts)
     | (EvFault msg, uc1) \<Rightarrow> Some (EmuFault msg, uc1, sh, ts)
     | (EvSpin, _) \<Rightarrow> None
     | (EvSyscall, uc1) \<Rightarrow>
         (case syscall_hook E oc d uc1 sh ts of
            (Some p, uc2, sh2, ts2) \<Rightarrow> Some (EmuPanic p, uc2, sh2, ts2)
          | (None, _) \<Rightarrow> None))"

lemma emu_loop_last: "emu_last E oc d (uc, sh, ts) = Some r \<Longrightarrow> emu_loop E oc (Some d) uc sh ts = Some r"
  by (subst emu_loop.simps)
     (auto simp: emu_last_def split: prod.splits uc_event.splits option.splits)

lemma emu_loop_step:
  "emu_step E oc d (uc, sh, ts) (uc2, sh2, ts2) \<Longrightarrow>
     emu_loop E oc (Some d) uc sh ts = emu_loop E oc (Some d) uc2 sh2 ts2"
  by (subst emu_loop.simps) (auto simp: emu_step_iff)

lemma emu_loop_complete:
  assumes "emu_steps E oc d st st'" and "emu_last E oc d st' = Some r"
  shows "emu_loop E oc (Some d) (fst st) (fst (snd st)) (snd (snd st)) = Some r"
  using assms(1)
proof (induction rule: converse_rtranclp_induct)
  case base
  then show ?case using emu_loop_last assms(2) by (metis prod.collapse)
next
  case (step a b)
  then show ?case using emu_loop_step by (metis prod.collapse)
qed

lemma emu_last_cases:
  assumes "(case e_advance E uc of
        (EvDone, uc1) \<Rightarrow> Some (EmuDone, uc1, sh, ts)
      | (EvFault msg, uc1) \<Rightarrow> Some (EmuFault msg, uc1, sh, ts)
     | (EvSpin, _) \<Rightarrow> None
      | (EvSyscall, uc1) \<Rightarrow>
           (case syscall_hook E oc d uc1 sh ts of
              (Some p, uc2, sh2, ts2) \<Rightarrow> Some (EmuPanic p, uc2, sh2, ts2)
            | (None, uc2, sh2, ts2) \<Rightarrow> f uc2 sh2 ts2)) = Some r"
  obtains (last) "emu_last E oc d (uc, sh, ts) = Some r"
    | (step) uc2 sh2 ts2 where "emu_step E oc d (uc, sh, ts) (uc2, sh2, ts2)" "f uc2 sh2 ts2 = Some r"
  using assms
  by (auto simp: emu_last_def emu_step_iff split: prod.splits uc_event.splits option.splits)

lemma emu_loop_sound_aux:
  assumes "emu_loop E oc hook uc sh ts = Some r"
  shows "\<forall>d. hook = Some d \<longrightarrow> (\<exists>st. emu_steps E oc d (uc, sh, ts) st \<and> emu_last E oc d st = Some r)"
  using assms
proof (induction rule: emu_loop.raw_induct [rotated, consumes 1, case_names loop])
  case (loop f E oc hook uc sh ts r)
  show ?case
  proof (intro allI impI)
    fix d assume hook: "hook = Some d"
    have "(case e_advance E uc of
        (EvDone, uc1) \<Rightarrow> Some (EmuDone, uc1, sh, ts)
      | (EvFault msg, uc1) \<Rightarrow> Some (EmuFault msg, uc1, sh, ts)
     | (EvSpin, _) \<Rightarrow> None
      | (EvSyscall, uc1) \<Rightarrow>
           (case syscall_hook E oc d uc1 sh ts of
              (Some p, uc2, sh2, ts2) \<Rightarrow> Some (EmuPanic p, uc2, sh2, ts2)
            | (None, uc2, sh2, ts2) \<Rightarrow> f E oc (Some d) uc2 sh2 ts2)) = Some r"
      using loop(2) unfolding hook option.case .
    then show "\<exists>st. emu_steps E oc d (uc, sh, ts) st \<and> emu_last E oc d st = Some r"
    proof (cases rule: emu_last_cases)
      case last
      then show ?thesis by blast
    next
      case (step uc2 sh2 ts2)
      with loop(1) [of E oc "Some d" uc2 sh2 ts2 r] obtain st where
        "emu_steps E oc d (uc2, sh2, ts2) st" "emu_last E oc d st = Some r" by blast
      then show ?thesis using converse_rtranclp_into_rtranclp [of "emu_step E oc d", OF step(1)] by blast
    qed
  qed
qed

lemma emu_loop_char:
  "emu_loop E oc (Some d) uc sh ts = Some r \<longleftrightarrow>
     (\<exists>st. emu_steps E oc d (uc, sh, ts) st \<and> emu_last E oc d st = Some r)"
  using emu_loop_sound_aux [of E oc "Some d" uc sh ts r] emu_loop_complete [of E oc d "(uc, sh, ts)" _ r]
  by auto

section \<open>What holds along a run\<close>

text \<open>Bytes captured and bytes reported to the guest, over the records since the last drain.\<close>

definition accounted :: "sink \<Rightarrow> shared_state \<Rightarrow> trace_store \<Rightarrow> bool" where
  "accounted s sh ts \<longleftrightarrow> length (sh_output sh) = sum_list (map (\<lambda>r. nat (tr_ret r)) (ts_buf ts s))"

lemma hook_panic_keeps:
  "syscall_hook E oc d uc sh ts = (Some p, uc', sh', ts') \<Longrightarrow> sh' = sh \<and> ts' = ts"
  by (cases "find_handler d (syscall_nr (hook_regs E uc))")
     (auto simp: syscall_hook_def dispatch_call_unknown dispatch_call_known Let_def
        split: prod.splits result.splits)

lemma hook_apply_output [simp]: "sh_output (snd (hook_apply E out uc sh)) = sh_output sh"
  by (auto simp: hook_apply_def split: result.split syscall_outcome.split)

lemma hook_None:
  assumes "syscall_hook E oc d uc sh ts = (None, uc', sh', ts')"
    and "dispatch_call oc d (hook_ctx E uc) (hook_regs E uc) ts = (res, ctx, ts1)"
  shows "\<not> is_Panic res \<and> ts' = ts1 \<and>
     (uc', sh') = hook_apply E res (dg_state (ctx_mem ctx))
                    (sh\<lparr>sh_output := sh_output sh @ capture_combined (ctx_io ctx)\<rparr>)"
proof -
  have out: "(if c \<noteq> [] then sh\<lparr>sh_output := sh_output sh @ c\<rparr> else sh) = sh\<lparr>sh_output := sh_output sh @ c\<rparr>"
    for c by simp
  show ?thesis
    using assms(1) unfolding syscall_hook_def assms(2) Let_def out
    by (cases res) (simp_all split: prod.splits)
qed

lemma hook_accounted [inv_intros]:
  assumes tab: "table_ok d" "d_trace d = Some s" and acc: "accounted s sh ts"
    and hook: "syscall_hook E oc d uc sh ts = (None, uc', sh', ts')"
  shows "accounted s sh' ts'"
proof -
  let ?ctx = "hook_ctx E uc" and ?regs = "hook_regs E uc"
  obtain res ctx ts1 where call: "dispatch_call oc d ?ctx ?regs ts = (res, ctx, ts1)"
    using prod_cases3 by blast
  note n = hook_None [OF hook call]
  have np: "\<not> is_Panic res" and ts: "ts' = ts1" using n by blast+
  have out: "sh_output sh' = sh_output sh @ capture_combined (ctx_io ctx)"
    using n hook_apply_output by (metis snd_conv shared_state.select_convs(1) shared_state.surjective shared_state.update_convs(1))
  have run: "dispatch_handle oc d ts ?ctx ?regs = (res, ctx)"
    using call by (simp add: dispatch_handle_def)
  have len: "length (capture_combined (ctx_io ctx)) = (case res of Ok (Return v) \<Rightarrow> nat v | _ \<Rightarrow> 0)"
    using syscall_contract.output_growth [OF dispatch_contract [OF tab(1)] hook_ctx_ok, of oc ts E uc ?regs]
    unfolding run fst_conv snd_conv by (simp add: out_len_def)
  show ?thesis
  proof (cases res)
    case (Ok outcome)
    then obtain r where "ts_buf ts1 s = ts_buf ts s @ [r]" "tr_ret r = outcome_ret outcome"
      using dispatch_call_traced [OF tab(2) call] by auto
    then show ?thesis
      using acc Ok by (cases outcome) (simp_all add: accounted_def out ts len outcome_ret_def)
  next
    case (Err e)
    then have "ts1 = ts" using dispatch_call_traced [OF tab(2) call] by simp
    then show ?thesis using acc Err by (simp add: accounted_def out ts len)
  qed (use np in simp)
qed

lemma steps_accounted:
  assumes "emu_steps E oc d st st'" and "table_ok d" "d_trace d = Some s"
    and "accounted s (fst (snd st)) (snd (snd st))"
  shows "accounted s (fst (snd st')) (snd (snd st'))"
  using assms
proof (induction rule: rtranclp_induct)
  case (step y z)
  from step(2) show ?case
    by cases (use step(3-6) hook_accounted in auto)
qed simp

lemma last_accounted:
  assumes "emu_last E oc d st = Some (e, uc', sh', ts')"
  shows "sh' = fst (snd st) \<and> ts' = snd (snd st)"
  using assms
  by (auto simp: emu_last_def split: prod.splits uc_event.splits option.splits dest: hook_panic_keeps)

lemma hook_trace_inv [inv_intros]:
  assumes "syscall_hook E oc d uc sh ts = (p, uc', sh', ts')" and "trace_inv ts"
  shows "trace_inv ts'"
proof -
  obtain res ctx ts1 where call: "dispatch_call oc d (hook_ctx E uc) (hook_regs E uc) ts = (res, ctx, ts1)"
    using prod_cases3 by blast
  have "ts' = ts1" using assms(1) unfolding syscall_hook_def call
    by (cases res) (auto simp: Let_def split: prod.splits)
  then show ?thesis using dispatch_call_trace_inv [OF call assms(2)] by simp
qed

lemma steps_trace_inv:
  assumes "emu_steps E oc d st st'" and "trace_inv (snd (snd st))"
  shows "trace_inv (snd (snd st'))"
  using assms
proof (induction rule: rtranclp_induct)
  case (step y z)
  from step(2) show ?case by cases (use step(3,4) hook_trace_inv in auto)
qed simp

text \<open>With \<open>stop_law\<close>, a state that goes on was not reached through an exit.\<close>

lemma hook_continues:
  assumes "stop_law E" and "syscall_hook E oc (std_table oc s) uc sh ts = (None, uc', sh', ts')"
    and "fst (e_advance E uc') \<noteq> EvDone"
  shows "sh_exit sh' = sh_exit sh"
proof -
  have "uc' \<noteq> hook_stop E u" for u using assms(1,3) by (auto simp: stop_law_def hook_stop_def)
  then show ?thesis
    using assms(2) unfolding syscall_hook_std
    by (auto simp: hook_spec_def Let_def split: if_splits result.splits)
qed

lemma no_exit_before:
  assumes law: "stop_law E" and "emu_steps E oc (std_table oc s) st st'"
    and "fst (e_advance E (fst st')) \<noteq> EvDone"
  shows "sh_exit (fst (snd st')) = sh_exit (fst (snd st))"
  using assms(2,3)
proof (induction rule: rtranclp_induct)
  case (step y z)
  from step(2) show ?case
  proof cases
    case (trap uc uc1 sh ts uc2 sh2 ts2)
    then have "sh_exit sh2 = sh_exit sh" using hook_continues [OF law trap(4)] step.prems by simp
    moreover have "fst (e_advance E (fst y)) \<noteq> EvDone" using trap by simp
    ultimately show ?thesis using step.IH trap by simp
  qed
qed simp

section \<open>The result of a run\<close>

abbreviation run_start :: "'uc engine \<Rightarrow> 'uc vcpu \<Rightarrow> 'uc \<Rightarrow> u64 \<Rightarrow> trace_store \<Rightarrow> 'uc \<times> shared_state \<times> trace_store" where
  "run_start E v uc t ts \<equiv> (e_start E uc (reg_or_0 E uc RIP) (- 1) t 0, v_shared v, ts)"

lemma vcpu_run_char:
  assumes "v_uc v = Some uc" and "v_hook v = Some d"
  shows "vcpu_run E oc v ts t = Some (res, v', ts') \<longleftrightarrow>
     (\<exists>st e uc' sh'. emu_steps E oc d (run_start E v uc t ts) st \<and>
        emu_last E oc d st = Some (e, uc', sh', ts') \<and> res = run_outcome E e uc' sh' \<and>
        v' = v\<lparr>v_uc := Some uc', v_shared := sh'\<rparr>)"
proof -
  have "vcpu_run E oc v ts t = Some (res, v', ts') \<longleftrightarrow>
     (\<exists>e uc' sh'. emu_loop E oc (Some d) (e_start E uc (reg_or_0 E uc RIP) (- 1) t 0) (v_shared v) ts =
          Some (e, uc', sh', ts') \<and> res = run_outcome E e uc' sh' \<and> v' = v\<lparr>v_uc := Some uc', v_shared := sh'\<rparr>)"
    by (auto simp: vcpu_run_def assms)
  then show ?thesis unfolding emu_loop_char by blast
qed

lemma run_ends:
  assumes "v_uc v = Some uc" and "v_hook v = Some d"
    and "emu_steps E oc d (run_start E v uc t ts) st" and "emu_last E oc d st = Some (e, uc', sh', ts')"
  shows "vcpu_run E oc v ts t = Some (run_outcome E e uc' sh', v\<lparr>v_uc := Some uc', v_shared := sh'\<rparr>, ts')"
  using vcpu_run_char [OF assms(1,2)] assms(3,4) by blast

text \<open>After a stop request the run ends with the state as it is.\<close>

lemma run_stops:
  assumes law: "stop_law E" and v: "v_uc v = Some uc" "v_hook v = Some d"
    and steps: "emu_steps E oc d (run_start E v uc t ts) (uc1, sh1, ts1)"
    and trap: "e_advance E uc1 = (EvSyscall, uc2)"
    and hook: "syscall_hook E oc d uc2 sh1 ts1 = (None, hook_stop E uc3, sh2, ts2)"
  shows "\<exists>v'. vcpu_run E oc v ts t = Some (run_outcome E EmuDone uc sh2, v', ts2) \<and> v_shared v' = sh2"
proof -
  have "emu_steps E oc d (run_start E v uc t ts) (hook_stop E uc3, sh2, ts2)"
    using steps emu_step.trap [OF trap hook] by (rule rtranclp.rtrancl_into_rtrancl)
  moreover obtain uc4 where "e_advance E (hook_stop E uc3) = (EvDone, uc4)"
    using law by (cases "e_advance E (hook_stop E uc3)") (auto simp: stop_law_def hook_stop_def dest: spec [of _ uc3])
  then have "emu_last E oc d (hook_stop E uc3, sh2, ts2) = Some (EmuDone, uc4, sh2, ts2)"
    by (simp add: emu_last_def)
  ultimately show ?thesis using run_ends [OF v] by (fastforce simp: run_outcome_def)
qed

section \<open>Properties\<close>

text \<open>C12: the system-call hook with the stage-1 handlers, on every branch: which system call it takes
  the registers for, what it reads of the guest, what it writes to \<open>RAX\<close>, when it stops the run,
  and what it leaves in the output, the exit reason, the engine error and the trace.\<close>

theorem hook_behaviour: "syscall_hook E oc (std_table oc s) uc sh ts = hook_spec E s uc sh ts"
  by (rule syscall_hook_std)

text \<open>When a system call is traced and is not an exit, the guest goes on with the traced result in
  \<open>RAX\<close>, every other register as it was, and its memory unchanged.\<close>

theorem hook_guest_view:
  assumes "regs_law E byte_at" and "syscall_hook E oc (std_table oc s) uc sh ts = (None, uc', sh', ts')"
    and "ts_buf ts' s = ts_buf ts s @ [r]" and "tr_nr r \<noteq> 60" and "tr_nr r \<noteq> 231"
  shows "tr_nr r = u64_as_i64 (reg_or_0 E uc RAX) \<and> e_reg_read E uc' RAX = Inr (i64_as_u64 (tr_ret r)) \<and>
     (\<forall>q. named q \<and> q \<noteq> RAX \<longrightarrow> e_reg_read E uc' q = e_reg_read E uc q) \<and> byte_at uc' = byte_at uc"
proof -
  have nr: "syscall_nr (hook_regs E uc) = u64_as_i64 (reg_or_0 E uc RAX)" by (simp add: hook_regs_def)
  have "uc' = hook_return E uc (tr_ret r) \<and> tr_nr r = syscall_nr (hook_regs E uc)"
    using assms(2-5) unfolding syscall_hook_std
    by (auto simp: hook_spec_def Let_def hook_record_def sink_record_buf outcome_ret_def
        split: if_splits result.splits)
  then show ?thesis using regs_lawD [OF assms(1)] by (simp add: hook_return_def nr)
qed

text \<open>A run returns exactly when some number of trapped system calls leads to a state where the
  engine is done, faults, or the hook panics; its result is that end.\<close>

theorem emu_loop_iff_steps:
  "emu_loop E oc (Some d) uc sh ts = Some r \<longleftrightarrow>
     (\<exists>st. emu_steps E oc d (uc, sh, ts) st \<and> emu_last E oc d st = Some r)"
  by (rule emu_loop_char)

lemma run_accounted:
  assumes "table_ok d" and "d_trace d = Some s" and "v_hook v = Some d" and "v_uc v = Some uc"
    and "accounted s (v_shared v) ts" and "vcpu_run E oc v ts t = Some (res, v', ts')"
  shows "accounted s (v_shared v') ts' \<and> (trace_inv ts \<longrightarrow> trace_inv ts')"
proof -
  obtain st e uc' sh' where steps: "emu_steps E oc d (run_start E v uc t ts) st"
    and end_: "emu_last E oc d st = Some (e, uc', sh', ts')" and v': "v' = v\<lparr>v_uc := Some uc', v_shared := sh'\<rparr>"
    using assms(6) unfolding vcpu_run_char [OF assms(4,3)] by blast
  show ?thesis
    using steps_accounted [OF steps assms(1,2)] steps_trace_inv [OF steps] assms(5) last_accounted [OF end_]
    by (simp add: v')
qed

text \<open>With any table of contract-abiding handlers that traces to a sink, the number of bytes captured
  equals the sum of the non-negative results in the trace, after any run that returns, whatever its
  outcome, and hence over several runs; nothing is captured without a record.\<close>

theorem run_output_accounted:
  assumes "table_ok d" and "d_trace d = Some s" and "v_hook v = Some d" and "v_uc v = Some uc"
    and "accounted s (v_shared v) ts" and "vcpu_run E oc v ts t = Some (res, v', ts')"
  shows "length (vcpu_output v') = sum_list (map (\<lambda>r. nat (tr_ret r)) (ts_buf ts' s))"
  using run_accounted [OF assms] by (simp add: vcpu_output_def accounted_def)

lemma run_exit_outcome:
  assumes "stop_law E" and "v_uc v = Some uc" and "v_hook v = Some (std_table oc s)"
    and "emu_steps E oc (std_table oc s) (run_start E v uc t ts) (uc1, sh1, ts1)"
    and "e_advance E uc1 = (EvSyscall, uc2)"
    and "u64_as_i64 (reg_or_0 E uc2 RAX) = 60 \<or> u64_as_i64 (reg_or_0 E uc2 RAX) = 231"
  shows "\<exists>v' ts'. vcpu_run E oc v ts t = Some (Ok (Exit (ucast (reg_or_0 E uc2 RDI))), v', ts') \<and>
     vcpu_exit_reason v' = Some (Exit (ucast (reg_or_0 E uc2 RDI))) \<and> vcpu_output v' = sh_output sh1 \<and>
     length (ts_buf ts' s) = Suc (length (ts_buf ts1 s))"
proof -
  let ?sh = "sh1\<lparr>sh_exit := Some (Exit (ucast (reg_or_0 E uc2 RDI)))\<rparr>"
  obtain ts2 where hook: "syscall_hook E oc (std_table oc s) uc2 sh1 ts1 = (None, hook_stop E uc2, ?sh, ts2)"
    and len: "length (ts_buf ts2 s) = Suc (length (ts_buf ts1 s))"
    using assms(6) unfolding syscall_hook_std
    by (auto simp: hook_spec_def hook_regs_def Let_def hook_record_def sink_record_buf)
  from run_stops [OF assms(1-5) hook] len show ?thesis
    by (auto simp: run_outcome_def vcpu_exit_reason_def vcpu_output_def)
qed

text \<open>A guest that gets to \<open>exit\<close> or \<open>exit_group\<close> ends the run: it returns, with the low byte of the
  argument as exit code, the output captured until then, and the exit reason stored.\<close>

theorem run_exits:
  assumes "stop_law E" and "v_uc v = Some uc" and "v_hook v = Some (std_table oc s)"
    and "emu_steps E oc (std_table oc s) (run_start E v uc t ts) (uc1, sh1, ts1)"
    and "e_advance E uc1 = (EvSyscall, uc2)"
    and "u64_as_i64 (reg_or_0 E uc2 RAX) = 60 \<or> u64_as_i64 (reg_or_0 E uc2 RAX) = 231"
  shows "\<exists>v' ts'. vcpu_run E oc v ts t = Some (Ok (Exit (ucast (reg_or_0 E uc2 RDI))), v', ts') \<and>
     vcpu_exit_reason v' = Some (Exit (ucast (reg_or_0 E uc2 RDI))) \<and> vcpu_output v' = sh_output sh1 \<and>
     length (ts_buf ts' s) = Suc (length (ts_buf ts1 s))"
  using assms by (rule run_exit_outcome)

text \<open>C30: a guest that gets to a \<open>write\<close> on stdout or stderr whose buffer cannot be read ends the run
  instead of getting \<open>-EFAULT\<close>. The result is the engine error, unless an earlier run of the same
  virtual CPU ended in an exit: the exit reason is never reset, so then that exit is reported again.\<close>

theorem run_bad_buffer:
  assumes "stop_law E" and "v_uc v = Some uc" and "v_hook v = Some (std_table oc s)"
    and "emu_steps E oc (std_table oc s) (run_start E v uc t ts) (uc1, sh1, ts1)"
    and "e_advance E uc1 = (EvSyscall, uc2)" and "reg_or_0 E uc2 RAX = 1"
    and "reg_or_0 E uc2 RDI = 1 \<or> reg_or_0 E uc2 RDI = 2"
    and "ug_read E uc2 (reg_or_0 E uc2 RSI) (unat (reg_or_0 E uc2 RDX)) = Err e"
  shows "\<exists>v'. vcpu_run E oc v ts t =
     Some (case vcpu_exit_reason v of
             None \<Rightarrow> Err (Exec ''E202: engine error: guest memory read failed'')
           | Some r \<Rightarrow> Ok r, v', ts1)"
proof -
  let ?sh = "sh1\<lparr>sh_error := Some ''E202: engine error: guest memory read failed''\<rparr>"
  have one: "u64_as_i64 1 = 1" "u64_as_i64 2 = 2" by (simp_all add: u64_as_i64_def)
  have hook: "syscall_hook E oc (std_table oc s) uc2 sh1 ts1 = (None, hook_stop E uc2, ?sh, ts1)"
    using assms(6-8) unfolding syscall_hook_std by (auto simp: hook_spec_def hook_regs_def one)
  have "sh_exit sh1 = vcpu_exit_reason v"
    using no_exit_before [OF assms(1,4)] assms(5) by (simp add: vcpu_exit_reason_def)
  then show ?thesis
    using run_stops [OF assms(1-5) hook] by (auto simp: run_outcome_def split: option.splits)
qed

text \<open>A guest that faults with one of the recognised messages fell off its image: the run reports
  the faulting \<open>RIP\<close>, whatever exit reason is stored; the falloff itself is not stored, so the
  exit reason read afterwards is that of an earlier run or none.\<close>

theorem run_falls_off:
  assumes "stop_law E" and "v_uc v = Some uc" and "v_hook v = Some (std_table oc s)"
    and "emu_steps E oc (std_table oc s) (run_start E v uc t ts) (uc1, sh1, ts1)"
    and "e_advance E uc1 = (EvFault msg, uc2)" and "falloff_message msg"
  shows "\<exists>v'. vcpu_run E oc v ts t = Some (Ok (Falloff (reg_or_0 E uc2 RIP)), v', ts1) \<and>
     vcpu_exit_reason v' = vcpu_exit_reason v \<and> vcpu_output v' = sh_output sh1"
proof -
  have "emu_last E oc (std_table oc s) (uc1, sh1, ts1) = Some (EmuFault msg, uc2, sh1, ts1)"
    using assms(5) by (simp add: emu_last_def)
  moreover have "sh_exit sh1 = sh_exit (v_shared v)"
    using no_exit_before [OF assms(1,4)] assms(5) by simp
  ultimately show ?thesis
    using run_ends [OF assms(2-4)] assms(6)
    by (auto simp: run_outcome_def vcpu_exit_reason_def vcpu_output_def)
qed

section \<open>Witnesses\<close>

abbreviation std_ram :: "((reg \<times> u64) list \<times> uc_event) list \<Rightarrow> ram vcpu" where
  "std_ram script \<equiv> ram_vcpu script (std_table True 0)"

lemma reg_or_0_ram [simp]: "reg_or_0 (ram_engine script) uc r = ram_regs uc r"
  by (simp add: reg_or_0_def)

lemma shared_new_simps [simp]: "sh_output shared_new = []" "sh_exit shared_new = None" "sh_error shared_new = None"
  by (simp_all add: shared_new_def)

theorem run_exits_witness:
  "\<exists>v' ts'. vcpu_run (ram_engine [([(RAX, 231), (RDI, 0x107)], EvSyscall)]) True
       (std_ram [([(RAX, 231), (RDI, 0x107)], EvSyscall)]) empty_store 0 = Some (Ok (Exit 7), v', ts')"
proof -
  let ?s = "[([(RAX, 231), (RDI, 0x107)], EvSyscall)] :: ((reg \<times> u64) list \<times> uc_event) list"
  show ?thesis
    using run_exits [OF ram_stop_law [of ?s] ram_vcpu_simps(1) [of ?s "std_table True 0"] ram_vcpu_simps(2)
        rtranclp.rtrancl_refl, where t = 0 and ts = empty_store]
    by (auto simp: ram_advance_def ram_new_def u64_as_i64_def)
qed

theorem run_bad_buffer_witness:
  "\<exists>v'. vcpu_run (ram_engine [([(RAX, 1), (RDI, 1), (RSI, 0x1000), (RDX, 4)], EvSyscall)]) True
       (std_ram [([(RAX, 1), (RDI, 1), (RSI, 0x1000), (RDX, 4)], EvSyscall)]
          \<lparr>v_shared := shared_new\<lparr>sh_exit := Some (Exit 0)\<rparr>\<rparr>) empty_store 0 = Some (Ok (Exit 0), v', empty_store)"
proof -
  let ?s = "[([(RAX, 1), (RDI, 1), (RSI, 0x1000), (RDX, 4)], EvSyscall)] :: ((reg \<times> u64) list \<times> uc_event) list"
  let ?v = "std_ram ?s\<lparr>v_shared := shared_new\<lparr>sh_exit := Some (Exit 0)\<rparr>\<rparr>"
  have v: "v_uc ?v = Some (ram_new ?s)" "v_hook ?v = Some (std_table True 0)" by simp_all
  show ?thesis
    using run_bad_buffer [OF ram_stop_law [of ?s] v rtranclp.rtrancl_refl, where t = 0 and ts = empty_store]
    by (simp add: ram_advance_def ram_new_def vcpu_exit_reason_def ug_read_def vec_zeroed_def isize_max_def
        ram_read_def ram_mapped_def exI [of _ "0 :: nat"])
qed

theorem run_falls_off_witness:
  "\<exists>v'. vcpu_run (ram_engine [([(RIP, 0x401005)], EvFault ''Invalid memory fetch (UC_ERR_FETCH_UNMAPPED)'')]) True
       (std_ram [([(RIP, 0x401005)], EvFault ''Invalid memory fetch (UC_ERR_FETCH_UNMAPPED)'')]) empty_store 0 =
     Some (Ok (Falloff 0x401005), v', empty_store)"
proof -
  let ?s = "[([(RIP, 0x401005)], EvFault ''Invalid memory fetch (UC_ERR_FETCH_UNMAPPED)'')]
    :: ((reg \<times> u64) list \<times> uc_event) list"
  show ?thesis
    using run_falls_off [OF ram_stop_law [of ?s] ram_vcpu_simps(1) [of ?s "std_table True 0"] ram_vcpu_simps(2)
        rtranclp.rtrancl_refl, where t = 0 and ts = empty_store]
    by (auto simp: ram_advance_def ram_new_def falloff_message_def)
qed

theorem hook_guest_view_witness:
  "\<exists>uc' sh' ts'. syscall_hook (ram_engine []) True (std_table True 0)
        ((ram_new [])\<lparr>ram_regs := (\<lambda>_. 0)(RAX := 1000)\<rparr>) shared_new empty_store = (None, uc', sh', ts') \<and>
      e_reg_read (ram_engine []) uc' RAX = Inr (- 38)"
proof -
  let ?uc = "(ram_new [])\<lparr>ram_regs := (\<lambda>_. 0)(RAX := 1000)\<rparr>"
  have nr: "u64_as_i64 1000 = 1000" by (simp add: u64_as_i64_def)
  let ?ts = "hook_record (hook_regs (ram_engine []) ?uc) empty_store 0 ''<unimplemented>'' (Return (- ENOSYS))"
  have hook: "syscall_hook (ram_engine []) True (std_table True 0) ?uc shared_new empty_store =
      (None, hook_return (ram_engine []) ?uc (- ENOSYS), shared_new, ?ts)"
    unfolding syscall_hook_std by (simp add: hook_spec_def hook_regs_def nr)
  have rec: "ts_buf ?ts 0 = ts_buf empty_store 0 @ [last (ts_buf ?ts 0)]"
    and last: "tr_nr (last (ts_buf ?ts 0)) = 1000" "tr_ret (last (ts_buf ?ts 0)) = - 38"
    by (simp_all add: hook_record_def sink_record_buf hook_regs_def nr outcome_ret_def ENOSYS_def)
  show ?thesis
    using hook_guest_view [OF ram_regs_law hook rec] last hook by (simp add: i64_as_u64_def)
qed

text \<open>A guest whose memory holds two bytes at 0x1000 and that writes them to stdout.\<close>

definition hello_uc :: ram where
  "hello_uc = (ram_new [([(RAX, 1), (RDI, 1), (RSI, 0x1000), (RDX, 2)], EvSyscall)])
     \<lparr>ram_mem := upd_bytes (\<lambda>_. None) 0x1000 [104, 105]\<rparr>"

definition hello_ram :: "ram vcpu" where
  "hello_ram = (std_ram [])\<lparr>v_uc := Some hello_uc\<rparr>"

lemma hello_run:
  "\<exists>v' ts'. vcpu_run (ram_engine []) True hello_ram empty_store 0 = Some (Ok Stopped, v', ts') \<and>
     vcpu_output v' = [104, 105]"
proof -
  let ?E = "ram_engine []" and ?d = "std_table True 0 :: ram dispatch"
  have v: "v_uc hello_ram = Some hello_uc" "v_hook hello_ram = Some ?d" by (simp_all add: hello_ram_def)
  let ?uc1 = "snd (ram_advance hello_uc)"
  have start: "run_start ?E hello_ram hello_uc 0 empty_store = (hello_uc, shared_new, empty_store)"
    by (simp add: hello_ram_def hello_uc_def ram_new_def)
  have adv: "e_advance ?E hello_uc = (EvSyscall, ?uc1)"
    by (simp add: hello_uc_def ram_new_def ram_advance_def)
  have mem: "ram_mem ?uc1 = upd_bytes (\<lambda>_. None) 0x1000 [104, 105]"
    by (simp add: hello_uc_def ram_new_def ram_advance_def)
  have "ram_mapped ?uc1 0x1000 2" by (simp add: ram_mapped_def mem upd_bytes_def)
  moreover have "[0..<2 :: nat] = [0, 1]" by (simp add: upt_rec)
  ultimately have rd: "ug_read ?E ?uc1 0x1000 2 = Ok [104, 105]"
    by (simp add: ug_read_def vec_zeroed_def isize_max_def ram_read_def mem upd_bytes_def)
  have regs: "syscall_nr (hook_regs ?E ?uc1) = 1" "arg0 (hook_regs ?E ?uc1) = 1"
      "arg1 (hook_regs ?E ?uc1) = 0x1000" "arg2 (hook_regs ?E ?uc1) = 2"
    by (simp_all add: hook_regs_def hello_uc_def ram_new_def ram_advance_def u64_as_i64_def)
  have hook: "syscall_hook ?E True ?d ?uc1 shared_new empty_store =
     (None, hook_return ?E ?uc1 2, shared_new\<lparr>sh_output := [104, 105]\<rparr>,
      hook_record (hook_regs ?E ?uc1) empty_store 0 ''write'' (Return 2))" (is "_ = (None, ?uc2, ?sh2, ?ts2)")
    unfolding syscall_hook_std by (simp add: hook_spec_def regs rd u64_as_i64_def)
  have steps: "emu_steps ?E True ?d (run_start ?E hello_ram hello_uc 0 empty_store) (?uc2, ?sh2, ?ts2)"
    unfolding start using emu_step.trap [OF adv hook] by blast
  have "emu_last ?E True ?d (?uc2, ?sh2, ?ts2) = Some (EmuDone, ?uc2, ?sh2, ?ts2)"
    by (simp add: emu_last_def hook_return_def hello_uc_def ram_new_def ram_advance_def)
  from run_ends [OF v steps this] show ?thesis by (simp add: run_outcome_def vcpu_output_def)
qed

theorem run_output_accounted_witness:
  "\<exists>v' ts'. vcpu_run (ram_engine []) True hello_ram empty_store 0 = Some (Ok Stopped, v', ts') \<and>
      sum_list (map (\<lambda>r. nat (tr_ret r)) (ts_buf ts' 0)) = 2"
proof -
  obtain v' ts' where run: "vcpu_run (ram_engine []) True hello_ram empty_store 0 = Some (Ok Stopped, v', ts')"
    and out: "vcpu_output v' = [104, 105]" using hello_run by blast
  have "accounted 0 (v_shared hello_ram) empty_store"
    by (simp add: hello_ram_def accounted_def empty_store_def)
  moreover have "v_hook hello_ram = Some (std_table True 0)" "v_uc hello_ram = Some hello_uc"
    by (simp_all add: hello_ram_def)
  ultimately have "length (vcpu_output v') = sum_list (map (\<lambda>r. nat (tr_ret r)) (ts_buf ts' 0))"
    using run_output_accounted [OF table_ok_standard d_trace_std _ _ _ run] by blast
  then show ?thesis using run out by simp
qed

end
