(* ===== verification/Vcpu_Spec.thy ===== *)
theory Vcpu_Spec
  imports Vcpu_Run
begin

text \<open>
  A run against its abstract specification. What a system call does is a function of the state the
  engine trapped in (\<open>call_effect\<close>: bytes captured, a value returned, an exit, or a broken call);
  output, trace and exit reason after a run are folds of these effects over the trapped states.
  \<open>emu_path\<close> is a run labelled with the states it trapped in, and the theorems say that every
  run of the virtual CPU is such a path and leaves exactly what the folds give.

  The theory also checks that the integers standing for \<open>i64\<close> stay in range: \<open>records_typed\<close>.
\<close>

section \<open>Effects\<close>

datatype call_effect = Wrote bytes | Returned i64 | Ended u8 | Broken

definition call_effect :: "'uc engine \<Rightarrow> 'uc \<Rightarrow> call_effect" where
  "call_effect E uc =
     (let regs = hook_regs E uc; fd = u64_as_i64 (arg0 regs) in
      if syscall_nr regs = 1 then
        (if fd \<noteq> 1 \<and> fd \<noteq> 2 then Returned (- EBADF)
         else case ug_read E uc (arg1 regs) (unat (arg2 regs)) of Ok bs \<Rightarrow> Wrote bs | _ \<Rightarrow> Broken)
      else if syscall_nr regs = 60 \<or> syscall_nr regs = 231 then Ended (ucast (arg0 regs))
      else Returned (- ENOSYS))"

definition call_name :: "i64 \<Rightarrow> string" where
  "call_name nr =
     (if nr = 1 then ''write'' else if nr = 60 then ''exit'' else if nr = 231 then ''exit_group''
      else ''<unimplemented>'')"

fun effect_bytes :: "call_effect \<Rightarrow> bytes" where
  "effect_bytes (Wrote bs) = bs"
| "effect_bytes _ = []"

fun effect_result :: "call_effect \<Rightarrow> i64 option" where
  "effect_result (Wrote bs) = Some (int (length bs))"
| "effect_result (Returned ret) = Some ret"
| "effect_result (Ended _) = Some 0"
| "effect_result Broken = None"

fun effect_exit :: "exit_reason option \<Rightarrow> call_effect \<Rightarrow> exit_reason option" where
  "effect_exit _ (Ended code) = Some (Exit code)"
| "effect_exit r _ = r"

definition goes_on :: "call_effect \<Rightarrow> bool" where
  "goes_on e \<longleftrightarrow> (case e of Wrote _ \<Rightarrow> True | Returned _ \<Rightarrow> True | _ \<Rightarrow> False)"

definition call_record :: "'uc engine \<Rightarrow> 'uc \<Rightarrow> nat \<Rightarrow> trace_record list" where
  "call_record E uc n =
     (let regs = hook_regs E uc in
      case effect_result (call_effect E uc) of
        None \<Rightarrow> []
      | Some ret \<Rightarrow> [\<lparr>tr_seq = of_nat n, tr_nr = syscall_nr regs, tr_name = call_name (syscall_nr regs),
                     tr_args = regs_args regs, tr_ret = ret, tr_rip = sr_rip regs\<rparr>])"

fun records_from :: "'uc engine \<Rightarrow> nat \<Rightarrow> 'uc list \<Rightarrow> trace_record list" where
  "records_from E n [] = []"
| "records_from E n (uc # ucs) =
     call_record E uc n @ records_from E (n + length (call_record E uc n)) ucs"

lemma records_from_snoc:
  "records_from E n (ucs @ [uc]) =
     records_from E n ucs @ call_record E uc (n + length (records_from E n ucs))"
  by (induction ucs arbitrary: n) (simp_all add: add.assoc)

definition bytes_of :: "'uc engine \<Rightarrow> 'uc list \<Rightarrow> bytes" where
  "bytes_of E ucs = concat (map (\<lambda>uc. effect_bytes (call_effect E uc)) ucs)"

definition exit_of :: "'uc engine \<Rightarrow> exit_reason option \<Rightarrow> 'uc list \<Rightarrow> exit_reason option" where
  "exit_of E r ucs = foldl (\<lambda>r uc. effect_exit r (call_effect E uc)) r ucs"

lemma bytes_of_simps [simp]: "bytes_of E [] = []"
    "bytes_of E (ucs @ [uc]) = bytes_of E ucs @ effect_bytes (call_effect E uc)"
  by (simp_all add: bytes_of_def)

lemma exit_of_simps [simp]: "exit_of E r [] = r"
    "exit_of E r (ucs @ [uc]) = effect_exit (exit_of E r ucs) (call_effect E uc)"
  by (simp_all add: exit_of_def)

text \<open>One call of the hook has exactly its effect.\<close>

lemma hook_effect:
  assumes "syscall_hook E oc (std_table oc s) uc sh ts = (None, uc', sh', ts')"
  shows "sh_output sh' = sh_output sh @ effect_bytes (call_effect E uc)"
    and "ts_buf ts' s = ts_buf ts s @ call_record E uc (length (ts_buf ts s))"
    and "sh_exit sh' = effect_exit (sh_exit sh) (call_effect E uc)"
    and "\<not> goes_on (call_effect E uc) \<Longrightarrow> uc' = hook_stop E uc"
  using assms unfolding syscall_hook_std
  by (auto simp: hook_spec_def Let_def call_effect_def call_record_def hook_record_def sink_record_buf
      call_name_def outcome_ret_def EBADF_def ENOSYS_def goes_on_def split: if_splits result.splits)

section \<open>Labelled runs\<close>

inductive emu_path ::
  "'uc engine \<Rightarrow> bool \<Rightarrow> 'uc dispatch \<Rightarrow> 'uc \<times> shared_state \<times> trace_store \<Rightarrow> 'uc list \<Rightarrow>
     'uc \<times> shared_state \<times> trace_store \<Rightarrow> bool" for E oc d st where
  start: "emu_path E oc d st [] st"
| call: "emu_path E oc d st ucs (uc, sh, ts) \<Longrightarrow> e_advance E uc = (EvSyscall, uc1) \<Longrightarrow>
     syscall_hook E oc d uc1 sh ts = (None, uc2, sh2, ts2) \<Longrightarrow>
     emu_path E oc d st (ucs @ [uc1]) (uc2, sh2, ts2)"

lemma emu_path_steps: "emu_path E oc d st ucs st' \<Longrightarrow> emu_steps E oc d st st'"
  by (induction rule: emu_path.induct) (auto intro: rtranclp.rtrancl_into_rtrancl emu_step.trap)

lemma emu_steps_path: "emu_steps E oc d st st' \<Longrightarrow> \<exists>ucs. emu_path E oc d st ucs st'"
proof (induction rule: rtranclp_induct)
  case base
  then show ?case using emu_path.start by blast
next
  case (step y z)
  from step.IH obtain ucs where path: "emu_path E oc d st ucs y" ..
  from step(2) show ?case
  proof cases
    case (trap uc uc1 sh ts uc2 sh2 ts2)
    from emu_path.call [OF path [unfolded trap(1)] trap(3,4)] have "emu_path E oc d st (ucs @ [uc1]) z"
      by (simp add: trap(2))
    then show ?thesis ..
  qed
qed

lemma path_effects:
  assumes "emu_path E oc (std_table oc s) st ucs st'"
  shows "sh_output (fst (snd st')) = sh_output (fst (snd st)) @ bytes_of E ucs \<and>
     ts_buf (snd (snd st')) s =
       ts_buf (snd (snd st)) s @ records_from E (length (ts_buf (snd (snd st)) s)) ucs \<and>
     sh_exit (fst (snd st')) = exit_of E (sh_exit (fst (snd st))) ucs"
  using assms
proof (induction rule: emu_path.induct)
  case (call ucs uc sh ts uc1 uc2 sh2 ts2)
  then show ?case using hook_effect(1-3) [OF call(3)] by (simp add: records_from_snoc)
qed simp

lemma path_goes_on:
  assumes law: "stop_law E" and "emu_path E oc (std_table oc s) st ucs st'"
  shows "(\<forall>uc \<in> set (butlast ucs). goes_on (call_effect E uc)) \<and>
     (ucs \<noteq> [] \<and> \<not> goes_on (call_effect E (last ucs)) \<longrightarrow> fst (e_advance E (fst st')) = EvDone)"
  using assms(2)
proof (induction rule: emu_path.induct)
  case (call ucs uc sh ts uc1 uc2 sh2 ts2)
  have "\<forall>uc \<in> set ucs. goes_on (call_effect E uc)"
    using call.IH call(2) by (cases ucs rule: rev_cases) auto
  then show ?case
    using hook_effect(4) [OF call(3)] law by (auto simp: stop_law_def hook_stop_def)
qed simp

section \<open>Types\<close>

definition i64_ok :: "i64 \<Rightarrow> bool" where
  "i64_ok i \<longleftrightarrow> - (2 ^ 63) \<le> i \<and> i < 2 ^ 63"

definition records_typed :: "trace_record list \<Rightarrow> bool" where
  "records_typed rs \<longleftrightarrow> (\<forall>r \<in> set rs. i64_ok (tr_nr r) \<and> i64_ok (tr_ret r))"

lemma records_typed_append [simp]: "records_typed (rs @ rs') \<longleftrightarrow> records_typed rs \<and> records_typed rs'"
  by (auto simp: records_typed_def)

lemma i64_ok_cast [simp]: "i64_ok (u64_as_i64 w)"
  using u64_as_i64_range [of w] by (simp add: i64_ok_def)

lemma i64_ok_round: "i64_ok i \<Longrightarrow> u64_as_i64 (i64_as_u64 i) = i"
  by (simp add: i64_ok_def u64_round)

lemma read_length_typed: "ug_read E uc a n = Ok bs \<Longrightarrow> i64_ok (int (length bs))"
proof -
  assume "ug_read E uc a n = Ok bs"
  from ug.read_ret [OF this] have "length bs < 2 ^ 63" by blast
  then have "int (length bs) < 2 ^ 63" by simp
  then show ?thesis by (simp add: i64_ok_def)
qed

lemma effect_result_typed: "effect_result (call_effect E uc) = Some ret \<Longrightarrow> i64_ok ret"
  by (auto simp: call_effect_def Let_def dest!: read_length_typed split: if_splits result.splits)
     (simp_all add: i64_ok_def EBADF_def ENOSYS_def)

lemma records_from_typed: "records_typed (records_from E n ucs)"
  by (induction ucs arbitrary: n)
     (auto simp: call_record_def Let_def records_typed_def hook_regs_def dest: effect_result_typed
       split: option.splits)

section \<open>The trace is only written\<close>

text \<open>Two tables with the same handlers, whatever sinks and stores go with them, make the hook do the
  same to the guest and to the shared state.\<close>

lemma dispatch_same:
  assumes "d_handlers d' = d_handlers d"
  shows "fst (dispatch_call oc d' ctx regs ts') = fst (dispatch_call oc d ctx regs ts) \<and>
     fst (snd (dispatch_call oc d' ctx regs ts')) = fst (snd (dispatch_call oc d ctx regs ts))"
proof -
  have "find_handler d' = find_handler d" by (simp add: find_handler_def fun_eq_iff assms)
  then show ?thesis
    by (cases "find_handler d (syscall_nr regs)")
       (simp_all add: dispatch_call_unknown dispatch_call_known split: prod.split result.split)
qed

lemma hook_same:
  assumes "d_handlers d' = d_handlers d" and "syscall_hook E oc d uc sh ts = (p, uc', sh', ts1)"
  shows "\<exists>ts2. syscall_hook E oc d' uc sh ts' = (p, uc', sh', ts2)"
proof -
  obtain res ctx ts2 where c: "dispatch_call oc d (hook_ctx E uc) (hook_regs E uc) ts = (res, ctx, ts2)"
    using prod_cases3 by blast
  obtain ts3 where c': "dispatch_call oc d' (hook_ctx E uc) (hook_regs E uc) ts' = (res, ctx, ts3)"
    using dispatch_same [OF assms(1), of oc "hook_ctx E uc" "hook_regs E uc" ts' ts] c
    by (cases "dispatch_call oc d' (hook_ctx E uc) (hook_regs E uc) ts'") auto
  show ?thesis
    using assms(2) unfolding syscall_hook_def c c' by (cases res) (auto simp: Let_def split: prod.splits)
qed

lemma steps_same:
  assumes "d_handlers d' = d_handlers d" and "emu_steps E oc d st st'"
  shows "\<exists>ts2. emu_steps E oc d' (fst st, fst (snd st), ts') (fst st', fst (snd st'), ts2)"
  using assms(2)
proof (induction rule: rtranclp_induct)
  case (step y z)
  obtain ts2 where steps: "emu_steps E oc d' (fst st, fst (snd st), ts') (fst y, fst (snd y), ts2)"
    using step(3) by blast
  from step(2) show ?case
  proof cases
    case (trap uc uc1 sh ts uc2 sh2 ts3)
    obtain ts4 where "syscall_hook E oc d' uc1 sh ts2 = (None, uc2, sh2, ts4)"
      using hook_same [OF assms(1) trap(4)] by blast
    from emu_step.trap [OF trap(3) this] steps show ?thesis
      using trap(1,2) by (auto intro: rtranclp.rtrancl_into_rtrancl)
  qed
qed auto

lemma last_same:
  assumes "d_handlers d' = d_handlers d" and "emu_last E oc d (uc, sh, ts) = Some (e, uc', sh', ts1)"
  shows "\<exists>ts2. emu_last E oc d' (uc, sh, ts') = Some (e, uc', sh', ts2)"
proof (cases "e_advance E uc")
  case (Pair ev uc1)
  show ?thesis
  proof (cases ev)
    case EvSyscall
    obtain p uc2 sh2 ts3 where h: "syscall_hook E oc d uc1 sh ts = (p, uc2, sh2, ts3)" using prod_cases4 by blast
    then obtain ts4 where "syscall_hook E oc d' uc1 sh ts' = (p, uc2, sh2, ts4)"
      using hook_same [OF assms(1)] by blast
    then show ?thesis using assms(2) Pair EvSyscall h by (auto simp: emu_last_def split: option.splits)
  qed (use assms(2) Pair in \<open>auto simp: emu_last_def\<close>)
qed

lemma run_same:
  assumes "d_handlers d' = d_handlers d" and "v_uc v = Some uc"
    and "vcpu_run E oc (v\<lparr>v_hook := Some d\<rparr>) ts t = Some (r, v'\<lparr>v_hook := Some d\<rparr>, ts1)"
  shows "\<exists>ts2. vcpu_run E oc (v\<lparr>v_hook := Some d'\<rparr>) ts' t = Some (r, v'\<lparr>v_hook := Some d'\<rparr>, ts2)"
proof -
  have v: "v_uc (v\<lparr>v_hook := Some d\<rparr>) = Some uc" "v_hook (v\<lparr>v_hook := Some d\<rparr>) = Some d"
      "v_uc (v\<lparr>v_hook := Some d'\<rparr>) = Some uc" "v_hook (v\<lparr>v_hook := Some d'\<rparr>) = Some d'"
    using assms(2) by simp_all
  let ?start = "\<lambda>ts. (e_start E uc (reg_or_0 E uc RIP) (- 1) t 0, v_shared v, ts)"
  obtain uc1 sh1 ts3 e uc' sh' where steps: "emu_steps E oc d (?start ts) (uc1, sh1, ts3)"
    and end_: "emu_last E oc d (uc1, sh1, ts3) = Some (e, uc', sh', ts1)" and r: "r = run_outcome E e uc' sh'"
    and v': "v'\<lparr>v_hook := Some d\<rparr> = v\<lparr>v_hook := Some d, v_uc := Some uc', v_shared := sh'\<rparr>"
    using assms(3) unfolding vcpu_run_char [OF v(1,2)] by auto
  obtain ts4 where "emu_steps E oc d' (?start ts') (uc1, sh1, ts4)"
    using steps_same [OF assms(1) steps, of ts'] by auto
  moreover obtain ts2 where "emu_last E oc d' (uc1, sh1, ts4) = Some (e, uc', sh', ts2)"
    using last_same [OF assms(1) end_] by blast
  moreover have "v'\<lparr>v_hook := Some d'\<rparr> = v\<lparr>v_hook := Some d', v_uc := Some uc', v_shared := sh'\<rparr>"
    using arg_cong [OF v', of "\<lambda>w. w\<lparr>v_hook := Some d'\<rparr>"] by simp
  ultimately show ?thesis using run_ends [OF v(3,4)] r by auto
qed

section \<open>Properties\<close>

text \<open>C24: tracing is transparent. With the same handlers, a run does the same whether or not a sink is
  attached, and whatever the sinks hold: it returns the same outcome, or does not return, and
  leaves the same CPU, output and exit reason.\<close>

theorem tracing_transparent:
  assumes "v_uc v = Some uc"
  shows "(\<exists>ts1. vcpu_run E oc (v\<lparr>v_hook := Some (set_trace d s)\<rparr>) ts t =
             Some (r, v'\<lparr>v_hook := Some (set_trace d s)\<rparr>, ts1)) \<longleftrightarrow>
         (\<exists>ts1. vcpu_run E oc (v\<lparr>v_hook := Some d\<rparr>) ts' t = Some (r, v'\<lparr>v_hook := Some d\<rparr>, ts1))"
proof -
  have "d_handlers (set_trace d s) = d_handlers d" by (simp add: set_trace_def)
  from run_same [OF this assms] run_same [OF this [symmetric] assms] show ?thesis by blast
qed

lemma run_trace:
  assumes "v_uc v = Some uc" and "v_hook v = Some (std_table oc s)"
    and "vcpu_run E oc v ts t = Some (res, v', ts')"
  shows "\<exists>ucs st. emu_path E oc (std_table oc s) (run_start E v uc t ts) ucs st \<and>
     vcpu_output v' = vcpu_output v @ bytes_of E ucs \<and>
     ts_buf ts' s = ts_buf ts s @ records_from E (length (ts_buf ts s)) ucs \<and>
     vcpu_exit_reason v' = exit_of E (vcpu_exit_reason v) ucs"
proof -
  obtain st e uc' sh' where steps: "emu_steps E oc (std_table oc s) (run_start E v uc t ts) st"
    and end_: "emu_last E oc (std_table oc s) st = Some (e, uc', sh', ts')"
    and v': "v' = v\<lparr>v_uc := Some uc', v_shared := sh'\<rparr>"
    using assms(3) unfolding vcpu_run_char [OF assms(1,2)] by blast
  obtain ucs where path: "emu_path E oc (std_table oc s) (run_start E v uc t ts) ucs st"
    using emu_steps_path [OF steps] ..
  show ?thesis
    using path path_effects [OF path] last_accounted [OF end_]
    by (intro exI [of _ ucs] exI [of _ st]) (simp add: v' vcpu_output_def vcpu_exit_reason_def)
qed

text \<open>C2: every run of the virtual CPU that returns is a path of system calls, and leaves exactly what
  the calls add up to: the output grows by the bytes that each successful \<open>write\<close> named in the
  guest's memory when it trapped, in order; the trace grows by one numbered record per call that is
  not broken, with the registers it trapped with; the exit reason is that of the last exit.\<close>

theorem run_refines_calls:
  assumes "v_uc v = Some uc" and "v_hook v = Some (std_table oc s)"
    and "vcpu_run E oc v ts t = Some (res, v', ts')"
  shows "\<exists>ucs st. emu_path E oc (std_table oc s) (run_start E v uc t ts) ucs st \<and>
     vcpu_output v' = vcpu_output v @ bytes_of E ucs \<and>
     ts_buf ts' s = ts_buf ts s @ records_from E (length (ts_buf ts s)) ucs \<and>
     vcpu_exit_reason v' = exit_of E (vcpu_exit_reason v) ucs"
  using assms by (rule run_trace)

text \<open>C18: an exit or a broken call is the last system call of its run: the emulator is asked to stop, and
  no later call is answered.\<close>

theorem no_call_after_exit:
  assumes "stop_law E" and "emu_path E oc (std_table oc s) st ucs st'" and "Suc i < length ucs"
  shows "goes_on (call_effect E (ucs ! i))"
proof -
  have "ucs ! i = butlast ucs ! i" using assms(3) by (simp add: nth_butlast)
  then have "ucs ! i \<in> set (butlast ucs)" using assms(3) by simp
  then show ?thesis using path_goes_on [OF assms(1,2)] by blast
qed

text \<open>The integers that stand for \<open>i64\<close> in the trace never leave the range of the type, over any run
  that returns; so the value a guest gets in \<open>RAX\<close> is the one recorded.\<close>

theorem run_records_typed:
  assumes "v_uc v = Some uc" and "v_hook v = Some (std_table oc s)"
    and "vcpu_run E oc v ts t = Some (res, v', ts')" and "records_typed (ts_buf ts s)"
  shows "records_typed (ts_buf ts' s) \<and>
     map (\<lambda>r. u64_as_i64 (i64_as_u64 (tr_ret r))) (ts_buf ts' s) = map tr_ret (ts_buf ts' s)"
proof -
  obtain ucs where "ts_buf ts' s = ts_buf ts s @ records_from E (length (ts_buf ts s)) ucs"
    using run_trace [OF assms(1-3)] by blast
  then have "records_typed (ts_buf ts' s)" using assms(4) records_from_typed by simp
  then show ?thesis by (simp add: records_typed_def i64_ok_round)
qed

section \<open>Witnesses\<close>

text \<open>Without a sink the guest of \<open>hello_run\<close> writes its two bytes all the same.\<close>

theorem tracing_transparent_witness:
  "\<exists>v' ts'. vcpu_run (ram_engine []) True (hello_ram\<lparr>v_hook := Some (register_all True dispatch_new)\<rparr>) empty_store 0 =
       Some (Ok Stopped, v', ts') \<and> vcpu_output v' = [104, 105]"
proof -
  obtain v' ts' where run: "vcpu_run (ram_engine []) True hello_ram empty_store 0 = Some (Ok Stopped, v', ts')"
    and out: "vcpu_output v' = [104, 105]" using hello_run by blast
  have v: "v_uc hello_ram = Some hello_uc" "hello_ram\<lparr>v_hook := Some (std_table True 0)\<rparr> = hello_ram"
    by (simp_all add: hello_ram_def ram_vcpu_def)
  have "v_hook hello_ram = Some (std_table True 0)" by (simp add: hello_ram_def)
  then have "v_hook v' = Some (std_table True 0)"
    using run v(1) by (auto simp: vcpu_run_def split: option.splits)
  then have hook: "v'\<lparr>v_hook := Some (std_table True 0)\<rparr> = v'" by (cases v') simp
  show ?thesis
    using tracing_transparent [OF v(1), of "ram_engine []" True "register_all True dispatch_new" 0 empty_store 0
        "Ok Stopped" v' empty_store] run out
    unfolding v(2) hook by (auto simp: vcpu_output_def)
qed

theorem run_refines_calls_witness:
  "\<exists>v' ts' ucs. vcpu_run (ram_engine []) True hello_ram empty_store 0 = Some (Ok Stopped, v', ts') \<and>
     bytes_of (ram_engine []) ucs = [104, 105]"
proof -
  have v: "v_uc hello_ram = Some hello_uc" "v_hook hello_ram = Some (std_table True 0)" "vcpu_output hello_ram = []"
    by (simp_all add: hello_ram_def vcpu_output_def)
  obtain v' ts' where run: "vcpu_run (ram_engine []) True hello_ram empty_store 0 = Some (Ok Stopped, v', ts')"
    and out: "vcpu_output v' = [104, 105]" using hello_run by blast
  show ?thesis using run_refines_calls [OF v(1,2) run] run out v(3) by auto
qed

theorem run_records_typed_witness:
  "\<exists>v' ts'. vcpu_run (ram_engine []) True hello_ram empty_store 0 = Some (Ok Stopped, v', ts') \<and>
     records_typed (ts_buf ts' 0)"
proof -
  have v: "v_uc hello_ram = Some hello_uc" "v_hook hello_ram = Some (std_table True 0)"
      "records_typed (ts_buf empty_store 0)"
    by (simp_all add: hello_ram_def empty_store_def records_typed_def)
  obtain v' ts' where run: "vcpu_run (ram_engine []) True hello_ram empty_store 0 = Some (Ok Stopped, v', ts')"
    using hello_run by blast
  show ?thesis using run_records_typed [OF v(1,2) run v(3)] run by blast
qed

text \<open>A guest that makes an unknown call and then exits.\<close>

definition two_calls :: ram where
  "two_calls = ram_new [([(RAX, 1000)], EvSyscall), ([(RAX, 60)], EvSyscall)]"

lemma two_calls_path:
  "\<exists>ucs st'. emu_path (ram_engine []) True (std_table True 0) (two_calls, shared_new, empty_store) ucs st' \<and>
     length ucs = 2"
proof -
  let ?E = "ram_engine []" and ?d = "std_table True 0 :: ram dispatch"
  let ?u1 = "snd (ram_advance two_calls)"
  let ?u1' = "hook_return ?E ?u1 (- ENOSYS)"
  let ?u2 = "snd (ram_advance ?u1')"
  have adv1: "e_advance ?E two_calls = (EvSyscall, ?u1)" and adv2: "e_advance ?E ?u1' = (EvSyscall, ?u2)"
    by (simp_all add: two_calls_def ram_new_def ram_advance_def hook_return_def)
  have nr: "syscall_nr (hook_regs ?E ?u1) = 1000" "syscall_nr (hook_regs ?E ?u2) = 60"
    by (simp_all add: hook_regs_def two_calls_def ram_new_def ram_advance_def hook_return_def u64_as_i64_def)
  obtain ts1 where hook1: "syscall_hook ?E True ?d ?u1 shared_new empty_store = (None, ?u1', shared_new, ts1)"
    unfolding syscall_hook_std by (simp add: hook_spec_def nr Let_def)
  obtain sh2 ts2 where hook2: "syscall_hook ?E True ?d ?u2 shared_new ts1 = (None, hook_stop ?E ?u2, sh2, ts2)"
    unfolding syscall_hook_std by (simp add: hook_spec_def nr Let_def)
  from emu_path.call [OF emu_path.call [OF emu_path.start adv1 hook1] adv2 hook2]
  show ?thesis by (intro exI conjI) (assumption, simp)
qed

theorem no_call_after_exit_witness:
  "\<exists>ucs st'. emu_path (ram_engine []) True (std_table True 0) (two_calls, shared_new, empty_store) ucs st' \<and>
     length ucs = 2 \<and> goes_on (call_effect (ram_engine []) (ucs ! 0))"
proof -
  obtain ucs st' where path: "emu_path (ram_engine []) True (std_table True 0) (two_calls, shared_new, empty_store) ucs st'"
    and len: "length ucs = 2" using two_calls_path by blast
  have "goes_on (call_effect (ram_engine []) (ucs ! 0))"
    using no_call_after_exit [OF ram_stop_law path, of 0] len by simp
  then show ?thesis using path len by blast
qed

end
