(* ===== verification/Vcpu_Diverge.thy ===== *)
theory Vcpu_Diverge
  imports Vcpu_Run
begin

text \<open>
  Runs that never return. \<open>emu_diverges\<close> is the coinductive reading of \<open>emu_step\<close>: a state from which
  the guest makes system calls for ever, or after some of them executes for ever without another one
  (\<open>emu_spins\<close>). A state ends, spins, or has one next state, so a run diverges exactly when
  \<open>emu_loop\<close> is undefined, and these are the only ways a run can fail to return: \<open>vcpu_run_None_iff\<close> gives
  them as an infinite sequence of states, and as a finite one to a state that spins.
\<close>

section \<open>Progress and determinism\<close>

definition emu_spins :: "'uc engine \<Rightarrow> 'uc \<times> shared_state \<times> trace_store \<Rightarrow> bool" where
  "emu_spins E st \<longleftrightarrow> fst (e_advance E (fst st)) = EvSpin"

lemma emu_progress: "(\<exists>st'. emu_step E oc d st st') \<or> emu_spins E st \<longleftrightarrow> emu_last E oc d st = None"
proof (cases st)
  case (fields uc sh ts)
  obtain ev uc1 where adv: "e_advance E uc = (ev, uc1)" by (cases "e_advance E uc")
  obtain p uc2 sh2 ts2 where hook: "syscall_hook E oc d uc1 sh ts = (p, uc2, sh2, ts2)" using prod_cases4 by blast
  show ?thesis
  proof (cases ev)
    case EvSyscall
    then show ?thesis by (cases p) (auto simp: fields emu_last_def emu_spins_def emu_step.simps adv hook)
  qed (simp_all add: fields emu_last_def emu_spins_def emu_step.simps adv)
qed

lemma spins_no_step: "emu_spins E st \<Longrightarrow> \<not> emu_step E oc d st st'"
  by (auto simp: emu_spins_def emu_step.simps)

lemma emu_step_unique: "emu_step E oc d st a \<Longrightarrow> emu_step E oc d st b \<Longrightarrow> a = b"
  by (auto simp: emu_step.simps)

section \<open>Divergence\<close>

coinductive emu_diverges ::
  "'uc engine \<Rightarrow> bool \<Rightarrow> 'uc dispatch \<Rightarrow> 'uc \<times> shared_state \<times> trace_store \<Rightarrow> bool" for E oc d where
  spin: "emu_spins E st \<Longrightarrow> emu_diverges E oc d st"
| go_on: "emu_step E oc d st st' \<Longrightarrow> emu_diverges E oc d st' \<Longrightarrow> emu_diverges E oc d st"

lemma emu_diverges_steps:
  assumes "emu_steps E oc d st st'" and "emu_diverges E oc d st"
  shows "emu_diverges E oc d st'"
  using assms
proof (induction rule: rtranclp_induct)
  case (step y z)
  then show ?case by (metis emu_diverges.cases emu_step_unique spins_no_step)
qed

lemma emu_diverges_no_end: "emu_diverges E oc d st \<Longrightarrow> emu_last E oc d st = None"
  by (metis emu_diverges.cases emu_progress)

lemma emu_loop_None_iff:
  "emu_loop E oc (Some d) uc sh ts = None \<longleftrightarrow> emu_diverges E oc d (uc, sh, ts)"
proof
  show "emu_diverges E oc d (uc, sh, ts)" if "emu_loop E oc (Some d) uc sh ts = None"
    using that
  proof (coinduction arbitrary: uc sh ts)
    case (emu_diverges uc sh ts)
    then have "emu_last E oc d (uc, sh, ts) = None" using emu_loop_last by (metis not_None_eq)
    then consider "emu_spins E (uc, sh, ts)" | uc2 sh2 ts2 where "emu_step E oc d (uc, sh, ts) (uc2, sh2, ts2)"
      using emu_progress by (metis prod_cases3)
    then show ?case
    proof cases
      case 2
      with emu_diverges have "emu_loop E oc (Some d) uc2 sh2 ts2 = None" by (simp add: emu_loop_step)
      with 2 show ?thesis by blast
    qed blast
  qed
next
  assume div: "emu_diverges E oc d (uc, sh, ts)"
  show "emu_loop E oc (Some d) uc sh ts = None"
  proof (rule ccontr)
    assume "emu_loop E oc (Some d) uc sh ts \<noteq> None"
    then obtain r st where "emu_steps E oc d (uc, sh, ts) st" "emu_last E oc d st = Some r"
      using emu_loop_char by (metis not_Some_eq)
    then show False using emu_diverges_no_end [OF emu_diverges_steps [OF _ div]] by simp
  qed
qed

text \<open>A diverging state that reaches no spinning one has an infinite sequence of steps.\<close>

lemma diverges_next:
  assumes "emu_diverges E oc d st" and "\<not> emu_spins E st"
  obtains st' where "emu_step E oc d st st'"
  using assms by (auto elim: emu_diverges.cases)

lemma emu_diverges_infinite:
  assumes div: "emu_diverges E oc d st" and no_spin: "\<And>st'. emu_steps E oc d st st' \<Longrightarrow> \<not> emu_spins E st'"
  shows "\<exists>f. f 0 = st \<and> (\<forall>i :: nat. emu_step E oc d (f i) (f (Suc i)))"
proof -
  define f where "f = rec_nat st (\<lambda>_ a. SOME b. emu_step E oc d a b)"
  have f: "f 0 = st" "f (Suc i) = (SOME b. emu_step E oc d (f i) b)" for i by (simp_all add: f_def)
  have some: "emu_step E oc d a (SOME b. emu_step E oc d a b)" if reach: "emu_steps E oc d st a" for a
  proof -
    obtain b where "emu_step E oc d a b"
      using diverges_next [OF emu_diverges_steps [OF reach div] no_spin [OF reach]] by blast
    then show ?thesis by (rule someI)
  qed
  have steps: "emu_steps E oc d st (f i)" for i
  proof (induction i)
    case (Suc i)
    show ?case unfolding f(2) by (rule rtranclp.rtrancl_into_rtrancl [OF Suc some [OF Suc]])
  qed (simp add: f(1))
  have "emu_step E oc d (f i) (f (Suc i))" for i unfolding f(2) by (rule some [OF steps])
  then show ?thesis using f(1) by blast
qed

lemma infinite_diverges:
  fixes f :: "nat \<Rightarrow> 'uc \<times> shared_state \<times> trace_store"
  assumes "\<forall>i. emu_step E oc d (f i) (f (Suc i))"
  shows "emu_diverges E oc d (f i)"
  using assms by (coinduction arbitrary: i) blast

lemma spin_diverges:
  assumes "emu_steps E oc d st st'" and "emu_spins E st'"
  shows "emu_diverges E oc d st"
  using assms(1)
proof (induction rule: converse_rtranclp_induct)
  case base
  show ?case using assms(2) by (rule emu_diverges.spin)
next
  case (step y z)
  then show ?case by (blast intro: emu_diverges.go_on)
qed

lemma emu_diverges_chain:
  "emu_diverges E oc d st \<longleftrightarrow>
     (\<exists>f. f 0 = st \<and> (\<forall>i :: nat. emu_step E oc d (f i) (f (Suc i)))) \<or>
     (\<exists>st'. emu_steps E oc d st st' \<and> emu_spins E st')" (is "?l \<longleftrightarrow> ?inf \<or> ?spin")
proof
  assume ?l
  then show "?inf \<or> ?spin" using emu_diverges_infinite [of E oc d st] by blast
next
  assume "?inf \<or> ?spin"
  then show ?l
  proof
    assume ?inf
    then obtain f where "f 0 = st" "\<forall>i :: nat. emu_step E oc d (f i) (f (Suc i))" by blast
    then show ?l using infinite_diverges [of E oc d f 0] by simp
  next
    assume ?spin
    then show ?l using spin_diverges by blast
  qed
qed

section \<open>Properties\<close>

lemma vcpu_run_None_loop:
  assumes "v_uc v = Some uc" and "v_hook v = Some d"
  shows "vcpu_run E oc v ts t = None \<longleftrightarrow> emu_diverges E oc d (run_start E v uc t ts)"
  by (simp add: vcpu_run_def assms Let_def emu_loop_None_iff)

text \<open>A run of the virtual CPU fails to return exactly when the guest makes system calls for ever (from
  the start of the run there is an infinite sequence of trapped calls, each of them answered), or
  executes for ever after finitely many of them.\<close>

theorem vcpu_run_None_iff:
  assumes "v_uc v = Some uc" and "v_hook v = Some d"
  shows "vcpu_run E oc v ts t = None \<longleftrightarrow>
     (\<exists>f. f 0 = run_start E v uc t ts \<and> (\<forall>i :: nat. emu_step E oc d (f i) (f (Suc i)))) \<or>
     (\<exists>st. emu_steps E oc d (run_start E v uc t ts) st \<and> emu_spins E st)"
  unfolding vcpu_run_None_loop [OF assms] by (rule emu_diverges_chain)

section \<open>Witnesses\<close>

text \<open>A guest in a loop around a \<open>syscall\<close> instruction with a number that no handler has.\<close>

definition looping_engine :: "ram engine" where
  "looping_engine = (ram_engine [])\<lparr>e_advance := \<lambda>uc. (EvSyscall, uc)\<rparr>"

lemma looping_simps [simp]:
  "e_advance looping_engine uc = (EvSyscall, uc)"
  "e_reg_read looping_engine uc r = Inr (ram_regs uc r)"
  "e_reg_write looping_engine uc r x = (Inr (), uc\<lparr>ram_regs := (ram_regs uc)(r := x)\<rparr>)"
  "e_start looping_engine uc start until timeout count = uc\<lparr>ram_stopped := False\<rparr>"
  by (simp_all add: looping_engine_def)

lemma looping_diverges:
  assumes "ram_regs uc RAX = i64_as_u64 (- ENOSYS)"
  shows "emu_diverges looping_engine True (std_table True 0) (uc, sh, ts)"
  using assms
proof (coinduction arbitrary: uc ts)
  case (emu_diverges uc ts)
  let ?E = looping_engine
  have nr: "syscall_nr (hook_regs ?E uc) = - 38"
    using emu_diverges by (simp add: hook_regs_def reg_or_0_def u64_round ENOSYS_def)
  obtain ts' where "syscall_hook ?E True (std_table True 0) uc sh ts = (None, hook_return ?E uc (- ENOSYS), sh, ts')"
    unfolding syscall_hook_std by (simp add: hook_spec_def nr Let_def)
  from emu_step.trap [OF _ this] have
    "emu_step ?E True (std_table True 0) (uc, sh, ts) (hook_return ?E uc (- ENOSYS), sh, ts')" by simp
  moreover have "ram_regs (hook_return ?E uc (- ENOSYS)) RAX = i64_as_u64 (- ENOSYS)" by (simp add: hook_return_def)
  ultimately show ?case by blast
qed

definition looping_ram :: ram where
  "looping_ram = (ram_new [])\<lparr>ram_regs := (\<lambda>_. 0)(RAX := i64_as_u64 (- ENOSYS))\<rparr>"

theorem vcpu_run_None_iff_witness:
  "vcpu_run looping_engine True (std_ram []\<lparr>v_uc := Some looping_ram\<rparr>) empty_store 0 = None"
proof -
  let ?v = "std_ram []\<lparr>v_uc := Some looping_ram\<rparr>"
  have v: "v_uc ?v = Some looping_ram" "v_hook ?v = Some (std_table True 0)" by simp_all
  have "emu_diverges looping_engine True (std_table True 0) (run_start looping_engine ?v looping_ram 0 empty_store)"
    by (intro looping_diverges) (simp add: looping_ram_def)
  then show ?thesis unfolding vcpu_run_None_iff [OF v] emu_diverges_chain [symmetric] .
qed

end
