(* ===== verification/Python_Api.thy ===== *)
theory Python_Api
  imports Vcpu_Run "HOL-Library.AList"
begin

text \<open>
  \<open>python.rs\<close>: the two functions the Python module exports. Python objects are the datatype
  \<open>py_value\<close>; a \<open>dict\<close> is an association list in insertion order and \<open>set_item\<close> is the library's
  \<open>AList.update\<close>, which replaces the value of a key in place or adds the key at the end. A
  \<open>ValueError\<close> is its message. \<open>run_elf\<close> makes a new sink in the trace store; it returns \<open>None\<close>
  when the guest never stops.
\<close>

datatype py_value =
    PyBool bool
  | PyInt int
  | PyStr string
  | PyBytes bytes
  | PyList "py_value list"
  | PyDict "(string \<times> py_value) list"

type_synonym py_dict = "(string \<times> py_value) list"

abbreviation set_item :: "string \<Rightarrow> py_value \<Rightarrow> py_dict \<Rightarrow> py_dict" where
  "set_item \<equiv> AList.update"

definition py_u64 :: "u64 \<Rightarrow> py_value" where
  "py_u64 x = PyInt (int (unat x))"

definition to_err :: "(vcpu_error, 'a) result \<Rightarrow> (string, 'a) result" where
  "to_err r = map_err show_vcpu_error r"

section \<open>Inspecting an image\<close>

definition segment_dict :: "segment \<Rightarrow> py_value" where
  "segment_dict seg =
     PyDict (set_item ''align'' (py_u64 (s_align seg))
       (set_item ''flags'' (PyInt (int (unat (s_flags seg))))
       (set_item ''filesz'' (py_u64 (s_filesz seg))
       (set_item ''memsz'' (py_u64 (s_memsz seg))
       (set_item ''vaddr'' (py_u64 (s_vaddr seg)) [])))))"

definition parse_elf :: "bool \<Rightarrow> (bytes \<Rightarrow> string + goblin_elf) \<Rightarrow> bytes \<Rightarrow> (string, py_dict) result" where
  "parse_elf oc parse img =
     r_bind (map_err show_elf_error (load_elf oc parse img)) (\<lambda>elf.
       Ok (set_item ''segments'' (PyList (map segment_dict (le_segments elf)))
            (set_item ''is_pie'' (PyBool (le_is_pie elf))
              (set_item ''entry'' (py_u64 (le_entry elf)) []))))"

section \<open>Running an image\<close>

definition record_dict :: "trace_record \<Rightarrow> py_value" where
  "record_dict r =
     (case tr_args r of (a0, a1, a2, a3, a4, a5) \<Rightarrow>
       PyDict (set_item ''rip'' (py_u64 (tr_rip r))
         (set_item ''ret'' (PyInt (tr_ret r))
         (set_item ''args'' (PyList (map py_u64 [a0, a1, a2, a3, a4, a5]))
         (set_item ''name'' (PyStr (tr_name r))
         (set_item ''nr'' (PyInt (tr_nr r))
         (set_item ''seq'' (py_u64 (tr_seq r)) [])))))))"

fun reason_dict :: "exit_reason \<Rightarrow> py_dict" where
  "reason_dict (Exit code) =
     set_item ''code'' (PyInt (int (unat code))) (set_item ''exit'' (PyStr ''exit'') [])"
| "reason_dict (Falloff rip) = set_item ''rip'' (py_u64 rip) (set_item ''exit'' (PyStr ''falloff'') [])"
| "reason_dict Stopped = set_item ''exit'' (PyStr ''stopped'') []"

definition run_dict :: "exit_reason \<Rightarrow> bytes \<Rightarrow> trace_record list \<Rightarrow> py_dict" where
  "run_dict reason out records =
     set_item ''trace'' (PyList (map record_dict records))
       (set_item ''output'' (PyBytes out) (reason_dict reason))"

text \<open>\<open>vcpu.method(..).map_err(to_err)?\<close>.\<close>

definition vcpu_stage :: "(vcpu_error, unit) result \<times> 'uc vcpu \<Rightarrow> (string, 'uc vcpu) result" where
  "vcpu_stage m = r_bind (to_err (fst m)) (\<lambda>_. Ok (snd m))"

definition prepare_vcpu ::
  "'uc engine \<Rightarrow> bool \<Rightarrow> loaded_elf \<Rightarrow> 'uc dispatch \<Rightarrow> (string, 'uc vcpu) result" where
  "prepare_vcpu E oc elf d =
     r_bind (to_err (vcpu_new E d)) (\<lambda>v0.
     r_bind (vcpu_stage (map_elf E oc v0 elf)) (\<lambda>v1.
     r_bind (vcpu_stage (map_stack E oc v1 STACK_BASE STACK_SIZE)) (\<lambda>v2.
       vcpu_stage (setup_initial_state E oc v2 (le_entry elf) (STACK_BASE + STACK_SIZE)))))"

definition run_elf ::
  "'uc engine \<Rightarrow> bool \<Rightarrow> (bytes \<Rightarrow> string + goblin_elf) \<Rightarrow> bytes \<Rightarrow> u64 \<Rightarrow> trace_store \<Rightarrow>
     ((string, py_dict) result \<times> trace_store) option" where
  "run_elf E oc parse img timeout_ms ts =
     (case map_err show_elf_error (load_elf oc parse img) of
        Err msg \<Rightarrow> Some (Err msg, ts)
      | Panic p \<Rightarrow> Some (Panic p, ts)
      | Ok elf \<Rightarrow>
          (let (trace, ts1) = sink_new ts;
               dispatch = set_trace (register_all oc dispatch_new) (sink_clone trace)
           in case prepare_vcpu E oc elf dispatch of
                Err msg \<Rightarrow> Some (Err msg, ts1)
              | Panic p \<Rightarrow> Some (Panic p, ts1)
              | Ok v \<Rightarrow>
                  (case vcpu_run E oc v ts1 timeout_ms of
                     None \<Rightarrow> None
                   | Some (r, v', ts2) \<Rightarrow>
                       (case to_err r of
                          Err msg \<Rightarrow> Some (Err msg, ts2)
                        | Panic p \<Rightarrow> Some (Panic p, ts2)
                        | Ok reason \<Rightarrow>
                            (let (records, ts3) = sink_drain ts2 trace
                             in Some (Ok (run_dict reason (vcpu_output v') records), ts3))))))"

section \<open>The module\<close>

text \<open>
  A Python module is the dictionary of its attributes; \<open>add_function\<close> stores a function under its own
  name. A call from Python names one of the two; \<open>timeout_ms\<close> may be left out and is then 0. The trace
  store lives as long as the process does, so \<open>session\<close> threads it through a series of calls and collects
  what each returns; it is \<open>None\<close> when a call never does. PyO3 turns a panic into an exception, and the
  session goes on after it; a panic inside the hook does not get that far, because the engine calls
  the hook from C: the process is aborted, and the session ends with that call.
\<close>

datatype py_function = PyRunElf | PyParseElf

type_synonym py_module = "(string \<times> py_function) list"

fun py_name :: "py_function \<Rightarrow> string" where
  "py_name PyRunElf = ''run_elf''"
| "py_name PyParseElf = ''parse_elf''"

definition add_function :: "py_function \<Rightarrow> py_module \<Rightarrow> py_module" where
  "add_function f m = AList.update (py_name f) f m"

definition python_mod :: "py_module \<Rightarrow> (string, py_module) result" where
  "python_mod m = Ok (add_function PyParseElf (add_function PyRunElf m))"

definition timeout_arg :: "u64 option \<Rightarrow> u64" where
  "timeout_arg t = (case t of None \<Rightarrow> 0 | Some ms \<Rightarrow> ms)"

datatype core_call = CallRunElf bytes "u64 option" | CallParseElf bytes

fun py_call ::
  "'uc engine \<Rightarrow> bool \<Rightarrow> (bytes \<Rightarrow> string + goblin_elf) \<Rightarrow> trace_store \<Rightarrow> core_call \<Rightarrow>
     ((string, py_dict) result \<times> trace_store) option" where
  "py_call E oc parse ts (CallRunElf img t) = run_elf E oc parse img (timeout_arg t) ts"
| "py_call E oc parse ts (CallParseElf img) = Some (parse_elf oc parse img, ts)"

definition aborts :: "(string, py_dict) result \<Rightarrow> bool" where
  "aborts r = (case r of Panic (Aborted _) \<Rightarrow> True | _ \<Rightarrow> False)"

fun session ::
  "'uc engine \<Rightarrow> bool \<Rightarrow> (bytes \<Rightarrow> string + goblin_elf) \<Rightarrow> trace_store \<Rightarrow> core_call list \<Rightarrow>
     ((string, py_dict) result list \<times> trace_store) option" where
  "session E oc parse ts [] = Some ([], ts)"
| "session E oc parse ts (c # cs) =
     (case py_call E oc parse ts c of
        None \<Rightarrow> None
      | Some (r, ts') \<Rightarrow>
          if aborts r then Some ([r], ts')
          else map_option (\<lambda>(rs, ts''). (r # rs, ts'')) (session E oc parse ts' cs))"

section \<open>Lemmas\<close>

text \<open>An empty module gets exactly the two functions, in the order they are added.\<close>

lemma python_mod_empty: "python_mod [] = Ok [(''run_elf'', PyRunElf), (''parse_elf'', PyParseElf)]"
  by (simp add: python_mod_def add_function_def)

lemma to_err_simps [simp]: "to_err (Ok x) = Ok x" "to_err (Err e) = Err (show_vcpu_error e)" "to_err (Panic p) = Panic p"
  by (simp_all add: to_err_def)

lemma to_err_eq_Ok [simp]: "to_err r = Ok x \<longleftrightarrow> r = Ok x"
  by (simp add: to_err_def)

lemma vcpu_stage_eq_Ok [simp]: "vcpu_stage m = Ok v \<longleftrightarrow> m = (Ok (), v)"
  by (cases m) (auto simp: vcpu_stage_def)

lemma run_dict_keys [simp]:
  "map_of (run_dict reason out recs) ''output'' = Some (PyBytes out)"
  "map_of (run_dict reason out recs) ''trace'' = Some (PyList (map record_dict recs))"
  "map_of (run_dict (Exit code) out recs) ''exit'' = Some (PyStr ''exit'')"
  "map_of (run_dict (Exit code) out recs) ''code'' = Some (PyInt (int (unat code)))"
  by (cases reason; simp add: run_dict_def)+

text \<open>No stage before the run touches the output, the exit reason or the hook.\<close>

lemma claim_and_map_frame:
  "claim_and_map E oc v uc b s fl pr = (r, v') \<Longrightarrow> v_shared v' = v_shared v \<and> v_hook v' = v_hook v"
  by (auto simp: claim_and_map_def split: prod.splits result.splits sum.splits)

lemma map_segment_frame:
  "map_segment E oc v uc seg = (r, v') \<Longrightarrow> v_shared v' = v_shared v \<and> v_hook v' = v_hook v"
  by (auto simp: map_segment_def split: prod.splits result.splits sum.splits dest!: claim_and_map_frame)

lemma map_segments_frame:
  "map_segments E oc v uc segs = (r, v') \<Longrightarrow> v_shared v' = v_shared v \<and> v_hook v' = v_hook v"
  by (induction segs arbitrary: v uc)
     (auto split: prod.splits result.splits dest!: map_segment_frame)

lemma prepare_frame:
  assumes "prepare_vcpu E oc elf d = Ok v"
  shows "v_shared v = shared_new \<and> v_hook v = Some d \<and> (\<exists>uc. v_uc v = Some uc)"
proof -
  obtain v0 v1 v2 where st: "vcpu_new E d = Ok v0" "map_elf E oc v0 elf = (Ok (), v1)"
      "map_stack E oc v1 STACK_BASE STACK_SIZE = (Ok (), v2)"
      "setup_initial_state E oc v2 (le_entry elf) (STACK_BASE + STACK_SIZE) = (Ok (), v)"
    using assms by (auto simp: prepare_vcpu_def)
  have 0: "v_shared v0 = shared_new \<and> v_hook v0 = Some d"
    using st(1) by (auto simp: vcpu_new_def install_syscall_hook_def Let_def split: prod.splits sum.splits)
  have 1: "v_shared v1 = v_shared v0 \<and> v_hook v1 = v_hook v0"
    using st(2) by (auto simp: map_elf_def split: option.splits dest: map_segments_frame)
  have 2: "v_shared v2 = v_shared v1 \<and> v_hook v2 = v_hook v1"
    using st(3) by (auto simp: map_stack_def map_memory_def split: option.splits prod.splits result.splits
        dest!: claim_and_map_frame)
  have 3: "v_shared v = v_shared v2 \<and> v_hook v = v_hook v2 \<and> (\<exists>uc. v_uc v = Some uc)"
    using st(4) by (auto simp: setup_initial_state_def reg_op_def split: option.splits prod.splits
        result.splits sum.splits)
  from 0 1 2 3 show ?thesis by simp
qed

end
