(* ===== verification/Run_Elf.thy ===== *)
theory Run_Elf
  imports Python_Api
begin

text \<open>
  What \<open>run_elf\<close> does before the guest runs and with the result of the run, for the properties of the
  root theory: the outcome of \<open>prepare_vcpu\<close> on a page-disjoint image, and what the scripted engine of
  the witnesses keeps through it.
\<close>

section \<open>From an image to a running guest\<close>

lemma prepare_outcome:
  assumes "mem_law E byte_at" and "regs_law E byte_at" and "load_elf oc' parse img = Ok le"
    and "e_new E = Inr uc0" and "e_hook_syscall E uc0 = (Inr (), uc1)" and "byte_at uc1 = (\<lambda>_. None)"
    and "\<forall>seg \<in> set (le_segments le). seg_placed seg"
    and "ranges_disjoint (map seg_claim (le_segments le))"
    and "\<forall>seg \<in> set (le_segments le). claim_range seg \<inter> addr_range STACK_BASE STACK_SIZE = {}"
  shows "\<exists>v uc. prepare_vcpu E oc le d = Ok v \<and> v_uc v = Some uc \<and>
     vcpu_reg E v RIP = Ok (le_entry le) \<and> vcpu_reg E v RSP = Ok 0x7fffffffdfe0 \<and>
     (\<forall>x. byte_at uc x =
        (if x \<in> addr_range STACK_BASE STACK_SIZE then Some 0 else image_byte (\<lambda>_. None) (le_segments le) x)) \<and>
     vcpu_output v = [] \<and> vcpu_exit_reason v = None"
proof -
  define v0 where "v0 = \<lparr>v_uc = Some uc1, v_hook = Some d, v_shared = shared_new, v_map = mm_new, v_regions = []\<rparr>"
  have new: "vcpu_new E d = Ok v0" using vcpu_new_eq [OF assms(4,5)] by (simp add: v0_def)
  have inv0: "vcpu_inv byte_at v0" by (simp add: v0_def vcpu_inv_def assms(6))
  have uc0: "v_uc v0 = Some uc1" by (simp add: v0_def)
  have mappable: "\<forall>seg \<in> set (le_segments le). seg_mappable seg"
    using load_elf_segments_ok [OF assms(3)] seg_placed_mappable assms(7) by blast
  obtain v1 uc2 where v1: "map_elf E oc v0 le = (Ok (), v1)" "vcpu_inv byte_at v1" "v_uc v1 = Some uc2"
    and bytes: "byte_at uc2 = image_byte (byte_at uc1) (le_segments le)"
    using map_segments_spec [OF assms(1) mappable inv0 uc0, of oc] assms(8)
    unfolding map_elf_def uc0 option.case by (auto simp: v0_def)
  have "dom (byte_at uc2) = mm_claimed (v_map v1)" using v1(2,3) by (simp add: vcpu_inv_def)
  moreover have "x \<notin> dom (byte_at uc2)" if "x \<in> addr_range STACK_BASE STACK_SIZE" for x
  proof -
    have "\<forall>seg \<in> set (le_segments le). x \<notin> claim_range seg" using assms(9) that by blast
    then have "find (\<lambda>seg. x \<in> claim_range seg) (le_segments le) = None" by (simp add: find_None_iff)
    then show ?thesis by (simp add: bytes image_byte_def assms(6) domIff)
  qed
  ultimately have free: "mm_claimed (v_map v1) \<inter> addr_range STACK_BASE STACK_SIZE = {}" by blast
  obtain v2 v uc where st: "map_stack E oc v1 STACK_BASE STACK_SIZE = (Ok (), v2)"
      "setup_initial_state E oc v2 (le_entry le) (STACK_BASE + STACK_SIZE) = (Ok (), v)"
      "vcpu_reg E v RSP = Ok 0x7fffffffdfe0" "vcpu_reg E v RIP = Ok (le_entry le)" "v_uc v = Some uc"
    and bts: "byte_at uc = upd_bytes (byte_at uc2) (unat STACK_BASE) (replicate (unat STACK_SIZE) 0)"
    using stack_prepared [OF assms(1,2) v1(2,3) free, of oc "le_entry le"] by blast
  have prep: "prepare_vcpu E oc le d = Ok v" by (simp add: prepare_vcpu_def new v1(1) st(1,2))
  have "byte_at uc x =
      (if x \<in> addr_range STACK_BASE STACK_SIZE then Some 0 else image_byte (\<lambda>_. None) (le_segments le) x)" for x
    by (auto simp: bts bytes assms(6) upd_bytes_def addr_range_mem)
  then show ?thesis
    using prep st(3-5) prepare_frame [OF prep] by (auto simp: vcpu_output_def vcpu_exit_reason_def)
qed

text \<open>The engine of a prepared virtual CPU is in a set-up state, and the pages of a segment have the
  permissions of its flags, those of the stack read and write.\<close>

lemma prepare_stages:
  assumes "prepare_vcpu E oc le d = Ok v"
  obtains v0 v1 v2 where "vcpu_new E d = Ok v0" "map_elf E oc v0 le = (Ok (), v1)"
    "map_stack E oc v1 STACK_BASE STACK_SIZE = (Ok (), v2)"
    "setup_initial_state E oc v2 (le_entry le) (STACK_BASE + STACK_SIZE) = (Ok (), v)"
  using assms that by (auto simp: prepare_vcpu_def)

lemma new_set_up: "vcpu_new E d = Ok v \<Longrightarrow> \<exists>uc. v_uc v = Some uc \<and> set_up E uc"
  by (auto simp: vcpu_new_def install_syscall_hook_def Let_def split: sum.splits prod.splits intro: set_up.hooked)

lemma prepare_engine:
  assumes "prepare_vcpu E oc le d = Ok v"
  shows "\<exists>uc. v_uc v = Some uc \<and> set_up E uc \<and>
     (prot_law E prot_at \<and> (\<forall>seg \<in> set (le_segments le). seg_room seg) \<and>
        ranges_disjoint (map seg_claim (le_segments le)) \<and>
        (\<forall>seg \<in> set (le_segments le). claim_range seg \<inter> addr_range STACK_BASE STACK_SIZE = {}) \<longrightarrow>
      (\<forall>seg \<in> set (le_segments le). \<forall>x \<in> claim_range seg. prot_at uc x = seg_prot (s_flags seg))) \<and>
     (prot_law E prot_at \<longrightarrow> (\<forall>x \<in> addr_range STACK_BASE STACK_SIZE. prot_at uc x = sup PROT_READ PROT_WRITE))"
proof -
  obtain v0 v1 v2 where st: "vcpu_new E d = Ok v0" "map_elf E oc v0 le = (Ok (), v1)"
      "map_stack E oc v1 STACK_BASE STACK_SIZE = (Ok (), v2)"
      "setup_initial_state E oc v2 (le_entry le) (STACK_BASE + STACK_SIZE) = (Ok (), v)"
    using assms by (rule prepare_stages)
  obtain uc0 where uc0: "v_uc v0 = Some uc0" "set_up E uc0" using new_set_up [OF st(1)] by blast
  obtain uc1 where uc1: "v_uc v1 = Some uc1" "set_up E uc1"
      "prot_law E prot_at \<and> (\<forall>seg \<in> set (le_segments le). seg_room seg) \<longrightarrow>
         prot_at uc1 = foldl seg_protect (prot_at uc0) (le_segments le)"
    using map_segments_engine [of E oc v0 uc0 "le_segments le" v1 prot_at] st(2) uc0 by (auto simp: map_elf_def)
  obtain uc2 where uc2: "v_uc v2 = Some uc2" "set_up E uc2"
      "prot_law E prot_at \<longrightarrow>
         (\<forall>x. prot_at uc2 x = (if x \<in> addr_range STACK_BASE STACK_SIZE then sup PROT_READ PROT_WRITE else prot_at uc1 x))"
    using map_memory_engine [OF st(3) [unfolded map_stack_def] uc1(1), of prot_at] uc1(2) by blast
  obtain uc where uc: "v_uc v = Some uc" "set_up E uc" "prot_law E prot_at \<longrightarrow> prot_at uc = prot_at uc2"
    using setup_engine [OF st(4) uc2(1), of prot_at] uc2(2) by blast
  have "prot_at uc x = seg_prot (s_flags seg)"
    if seg: "seg \<in> set (le_segments le)" "x \<in> claim_range seg" and law: "prot_law E prot_at"
      and room: "\<forall>seg \<in> set (le_segments le). seg_room seg" and disj: "ranges_disjoint (map seg_claim (le_segments le))"
      and clear: "\<forall>seg \<in> set (le_segments le). claim_range seg \<inter> addr_range STACK_BASE STACK_SIZE = {}" for seg x
  proof -
    have "x \<notin> addr_range STACK_BASE STACK_SIZE" using clear seg by blast
    then show ?thesis using law room uc(3) uc2(3) uc1(3) foldl_protect_in [OF disj seg] by simp
  qed
  then show ?thesis using uc uc2(3) by (intro exI [of _ uc]) simp
qed

lemma prepare_set_up: "prepare_vcpu E oc le d = Ok v \<Longrightarrow> \<exists>uc. v_uc v = Some uc \<and> set_up E uc"
  using prepare_engine by blast

text \<open>Images with pages in common, or with pages in the stack, are refused while they are mapped.\<close>

lemma prepare_overlap:
  assumes "mem_law E byte_at" and "load_elf oc' parse img = Ok le"
    and "e_new E = Inr uc0" and "e_hook_syscall E uc0 = (Inr (), uc1)" and "byte_at uc1 = (\<lambda>_. None)"
    and "\<forall>seg \<in> set (le_segments le). seg_placed seg"
    and "\<not> (ranges_disjoint (map seg_claim (le_segments le)) \<and>
            (\<forall>seg \<in> set (le_segments le). claim_range seg \<inter> addr_range STACK_BASE STACK_SIZE = {}))"
  shows "\<exists>b. prepare_vcpu E oc le d = Err (show_vcpu_error (Map b ''guest address space overlap'')) \<and>
     (ranges_disjoint (map seg_claim (le_segments le)) \<longrightarrow> b = STACK_BASE)"
proof -
  define v0 where "v0 = \<lparr>v_uc = Some uc1, v_hook = Some d, v_shared = shared_new, v_map = mm_new, v_regions = []\<rparr>"
  have new: "vcpu_new E d = Ok v0" using vcpu_new_eq [OF assms(3,4)] by (simp add: v0_def)
  have inv0: "vcpu_inv byte_at v0" by (simp add: v0_def vcpu_inv_def assms(5))
  have uc0: "v_uc v0 = Some uc1" by (simp add: v0_def)
  have mappable: "\<forall>seg \<in> set (le_segments le). seg_mappable seg"
    using load_elf_segments_ok [OF assms(2)] seg_placed_mappable assms(6) by blast
  note spec = map_segments_spec [OF assms(1) mappable inv0 uc0, of oc]
  show ?thesis
  proof (cases "ranges_disjoint (map seg_claim (le_segments le))")
    case False
    then obtain b v' where "map_segments E oc v0 uc1 (le_segments le) = (Err (Map b ''guest address space overlap''), v')"
      using spec by auto
    then show ?thesis using False by (auto simp: prepare_vcpu_def new map_elf_def uc0 vcpu_stage_def)
  next
    case True
    then obtain v1 uc2 where v1: "map_segments E oc v0 uc1 (le_segments le) = (Ok (), v1)" "vcpu_inv byte_at v1"
        "v_uc v1 = Some uc2" and bytes: "byte_at uc2 = image_byte (byte_at uc1) (le_segments le)"
      using spec by (auto simp: v0_def)
    obtain seg x where x: "seg \<in> set (le_segments le)" "x \<in> claim_range seg" "x \<in> addr_range STACK_BASE STACK_SIZE"
      using assms(7) True by blast
    then have "find (\<lambda>seg. x \<in> claim_range seg) (le_segments le) \<noteq> None" by (auto simp: find_None_iff)
    then have "x \<in> dom (byte_at uc2)" by (auto simp: bytes image_byte_def)
    then have "mm_claimed (v_map v1) \<inter> addr_range STACK_BASE STACK_SIZE \<noteq> {}"
      using v1(2,3) x(3) by (auto simp: vcpu_inv_def)
    then have "map_stack E oc v1 STACK_BASE STACK_SIZE = (Err (Map STACK_BASE ''guest address space overlap''), v1)"
      using map_memory_cases [OF assms(1) v1(2,3) stack_range_ok, of oc "sup PROT_READ PROT_WRITE"]
      by (simp add: map_stack_def)
    then show ?thesis by (auto simp: prepare_vcpu_def new map_elf_def uc0 vcpu_stage_def v1(1))
  qed
qed

text \<open>\<open>run_elf\<close> once the virtual CPU is prepared.\<close>

lemma run_elf_prepared:
  assumes "load_elf oc parse img = Ok le" and "sink_new ts = (s, ts1)"
    and "prepare_vcpu E oc le (std_table oc s) = Ok v"
  shows "run_elf E oc parse img t ts =
     (case vcpu_run E oc v ts1 t of
        None \<Rightarrow> None
      | Some (r, v', ts2) \<Rightarrow>
          Some (case to_err r of
                  Err msg \<Rightarrow> (Err msg, ts2)
                | Panic p \<Rightarrow> (Panic p, ts2)
                | Ok reason \<Rightarrow> (Ok (run_dict reason (vcpu_output v') (ts_buf ts2 s)), snd (sink_drain ts2 s))))"
  using assms
  by (simp add: run_elf_def sink_clone_def sink_drain_def split: option.split prod.split result.split)

section \<open>The scripted engine\<close>

text \<open>The two-segment image of \<open>Vcpu_Memory\<close>, loaded and run on the scripted engine.\<close>

abbreviation two_image :: loaded_elf where
  "two_image \<equiv> elf_image sample_bytes (sample_elf (sample_headers 0x402000))"

lemma two_image_loads: "load_elf oc (sample_parse (sample_headers 0x402000)) sample_bytes = Ok two_image"
  by (rule load_sample_image [OF sample_accepts]) simp_all

lemma two_image_placed: "\<forall>seg \<in> set (le_segments two_image). seg_placed seg"
  by (simp add: sample_segments seg_placed_def sample_segment_def)

lemma two_image_disjoint:
  "ranges_disjoint (map seg_claim (le_segments two_image))"
  "\<forall>seg \<in> set (le_segments two_image). claim_range seg \<inter> addr_range STACK_BASE STACK_SIZE = {}"
  by (simp_all add: sample_segments sample_claim ranges_disjoint_def addr_range_disjoint STACK_BASE_def
      STACK_SIZE_def)

lemma two_image_entry: "le_entry two_image = 0x401000"
  by (simp add: elf_image_def sample_elf_def)

lemma ram_fresh: "e_new (ram_engine sc) = Inr (ram_new sc)" "e_hook_syscall (ram_engine sc) (ram_new sc) = (Inr (), ram_new sc)"
    "ram_mem (ram_new sc) = (\<lambda>_. None)"
  by (simp_all add: ram_new_def)

lemma two_image_prepared:
  obtains v where "prepare_vcpu (ram_engine sc) True two_image d = Ok v"
  using prepare_outcome [OF ram_mem_law [of sc] ram_regs_law two_image_loads ram_fresh two_image_placed
      two_image_disjoint, of True d] by blast

text \<open>The scripted engine keeps its script while it is set up.\<close>

lemma set_up_script: "set_up (ram_engine sc') uc \<Longrightarrow> (\<And>uc0. e_new (ram_engine sc') = Inr uc0 \<Longrightarrow> ram_script uc0 = sc) \<Longrightarrow>
     ram_script uc = sc"
  by (induction rule: set_up.induct) (auto simp: ram_map_def ram_write_def)

lemma prepare_script:
  assumes "prepare_vcpu (ram_engine sc) oc le d = Ok v"
  shows "\<exists>uc. v_uc v = Some uc \<and> ram_script uc = sc"
  using prepare_set_up [OF assms] set_up_script [of sc _ sc] by (auto simp: ram_new_def)

lemma two_image_run:
  obtains d ts' where "run_elf (ram_engine []) True (sample_parse (sample_headers 0x402000)) sample_bytes 0 empty_store =
    Some (Ok d, ts')"
proof -
  let ?E = "ram_engine []"
  obtain s ts1 where sn: "sink_new empty_store = (s, ts1)" by (cases "sink_new empty_store")
  obtain v where v: "prepare_vcpu ?E True two_image (std_table True s) = Ok v" by (rule two_image_prepared)
  obtain uc where uc: "v_uc v = Some uc" "ram_script uc = []" "v_hook v = Some (std_table True s)"
      "v_shared v = shared_new"
    using prepare_script [OF v] prepare_frame [OF v] by auto
  have "emu_last ?E True (std_table True s) (run_start ?E v uc 0 ts1) =
          Some (EmuDone, uc\<lparr>ram_stopped := False\<rparr>, shared_new, ts1)"
    using uc by (simp add: emu_last_def ram_advance_def)
  from run_ends [OF uc(1,3) rtranclp.rtrancl_refl this] show ?thesis
    using that by (simp add: run_elf_prepared [OF two_image_loads sn v] run_outcome_def)
qed

end
