(* ===== verification/Guest_Run.thy ===== *)
theory Guest_Run
  imports Vcpu_Spec Vcpu_Diverge Run_Elf
begin

text \<open>
  \<open>run_elf\<close> against the bare engine. What a trapped system call does to the guest is a function of the
  trapped state alone (\<open>call_next\<close>, or \<open>call_panics\<close>), so a run is a path of engine states
  (\<open>guest_path\<close>) with an end (\<open>guest_last\<close>) that mentions neither the handler table nor the output,
  the exit reason or the trace; these are folds over the path. \<open>run_spec\<close> says what a call of
  \<open>run_elf\<close> returns in these terms, every outcome included, and \<open>run_elf_returns_iff\<close> that the code
  does just that. What follows from it: a call does not depend on earlier calls, which panics can reach
  the host, which errors Python can see, and when a call never returns.
\<close>

section \<open>One system call\<close>

definition call_panics :: "'uc engine \<Rightarrow> 'uc \<Rightarrow> bool" where
  "call_panics E uc \<longleftrightarrow>
     (let regs = hook_regs E uc; fd = u64_as_i64 (arg0 regs) in
      syscall_nr regs = 1 \<and> (fd = 1 \<or> fd = 2) \<and> isize_max < unat (arg2 regs))"

definition call_next :: "'uc engine \<Rightarrow> 'uc \<Rightarrow> 'uc" where
  "call_next E uc =
     (case call_effect E uc of
        Wrote bs \<Rightarrow> hook_return E uc (int (length bs))
      | Returned ret \<Rightarrow> hook_return E uc ret
      | _ \<Rightarrow> hook_stop E uc)"

fun effect_error :: "string option \<Rightarrow> call_effect \<Rightarrow> string option" where
  "effect_error _ Broken = Some ''E202: engine error: guest memory read failed''"
| "effect_error e _ = e"

definition call_shared :: "'uc engine \<Rightarrow> shared_state \<Rightarrow> 'uc \<Rightarrow> shared_state" where
  "call_shared E sh uc =
     \<lparr>sh_output = sh_output sh @ effect_bytes (call_effect E uc),
      sh_exit = effect_exit (sh_exit sh) (call_effect E uc),
      sh_error = effect_error (sh_error sh) (call_effect E uc)\<rparr>"

definition call_store :: "'uc engine \<Rightarrow> sink \<Rightarrow> trace_store \<Rightarrow> 'uc \<Rightarrow> trace_store" where
  "call_store E s ts uc =
     ts\<lparr>ts_buf := (ts_buf ts)(s := ts_buf ts s @ call_record E uc (length (ts_buf ts s)))\<rparr>"

lemma ug_read_Panic: "ug_read E uc a n = Panic p \<longleftrightarrow> isize_max < n \<and> p = CapacityOverflow"
  by (cases "e_mem_read E uc a n") (auto simp: ug_read_def vec_zeroed_def)

lemmas call_defs = hook_spec_def Let_def call_panics_def call_next_def call_effect_def call_shared_def
  call_store_def call_record_def hook_record_def sink_record_def call_name_def outcome_ret_def EBADF_def ENOSYS_def

lemma hook_call:
  "syscall_hook E oc (std_table oc s) uc sh ts =
     (if call_panics E uc then (Some CapacityOverflow, uc, sh, ts)
      else (None, call_next E uc, call_shared E sh uc, call_store E s ts uc))"
proof (cases "syscall_nr (hook_regs E uc) = 1 \<and>
    (u64_as_i64 (arg0 (hook_regs E uc)) = 1 \<or> u64_as_i64 (arg0 (hook_regs E uc)) = 2)")
  case True
  let ?read = "ug_read E uc (arg1 (hook_regs E uc)) (unat (arg2 (hook_regs E uc)))"
  note panic = ug_read_Panic [of E uc "arg1 (hook_regs E uc)" "unat (arg2 (hook_regs E uc))" CapacityOverflow]
  show ?thesis
  proof (cases ?read)
    case (Panic p)
    then have "p = CapacityOverflow" and "isize_max < unat (arg2 (hook_regs E uc))"
      by (simp_all add: ug_read_Panic)
    then show ?thesis using True Panic unfolding syscall_hook_std by (auto simp: call_defs)
  qed (use True panic in \<open>unfold syscall_hook_std, auto simp: call_defs\<close>)
qed (unfold syscall_hook_std, auto simp: call_defs)

section \<open>Folds over the trapped states\<close>

definition shared_after :: "'uc engine \<Rightarrow> shared_state \<Rightarrow> 'uc list \<Rightarrow> shared_state" where
  "shared_after E sh ucs = foldl (call_shared E) sh ucs"

definition store_after :: "'uc engine \<Rightarrow> sink \<Rightarrow> trace_store \<Rightarrow> 'uc list \<Rightarrow> trace_store" where
  "store_after E s ts ucs = foldl (call_store E s) ts ucs"

definition any_broken :: "'uc engine \<Rightarrow> 'uc list \<Rightarrow> bool" where
  "any_broken E ucs \<longleftrightarrow> (\<exists>uc \<in> set ucs. call_effect E uc = Broken)"

lemma after_simps [simp]:
  "shared_after E sh [] = sh" "shared_after E sh (ucs @ [uc]) = call_shared E (shared_after E sh ucs) uc"
  "store_after E s ts [] = ts" "store_after E s ts (ucs @ [uc]) = call_store E s (store_after E s ts ucs) uc"
  by (simp_all add: shared_after_def store_after_def)

lemma any_broken_simps [simp]:
  "\<not> any_broken E []" "any_broken E (ucs @ [uc]) \<longleftrightarrow> any_broken E ucs \<or> call_effect E uc = Broken"
  by (auto simp: any_broken_def)

lemma effect_error_eq: "effect_error e eff = (if eff = Broken then Some ''E202: engine error: guest memory read failed'' else e)"
  by (cases eff) simp_all

lemma shared_after_fields [simp]:
  "sh_output (shared_after E sh ucs) = sh_output sh @ bytes_of E ucs"
  "sh_exit (shared_after E sh ucs) = exit_of E (sh_exit sh) ucs"
  "sh_error (shared_after E sh ucs) =
     (if any_broken E ucs then Some ''E202: engine error: guest memory read failed'' else sh_error sh)"
  by (induction ucs rule: rev_induct) (simp_all add: call_shared_def effect_error_eq)

lemma store_after_buf:
  "ts_buf (store_after E s ts ucs) s' =
     ts_buf ts s' @ (if s' = s then records_from E (length (ts_buf ts s)) ucs else [])"
  by (cases "s' = s"; induction ucs rule: rev_induct) (simp_all add: call_store_def records_from_snoc)

lemma store_after_next [simp]: "ts_next (store_after E s ts ucs) = ts_next ts"
  by (induction ucs rule: rev_induct) (simp_all add: call_store_def)

section \<open>Paths of engine states\<close>

inductive guest_step :: "'uc engine \<Rightarrow> 'uc \<Rightarrow> 'uc \<Rightarrow> bool" for E where
  trap: "e_advance E uc = (EvSyscall, uc1) \<Longrightarrow> \<not> call_panics E uc1 \<Longrightarrow> guest_step E uc (call_next E uc1)"

inductive guest_path :: "'uc engine \<Rightarrow> 'uc \<Rightarrow> 'uc list \<Rightarrow> 'uc \<Rightarrow> bool" for E uc where
  start: "guest_path E uc [] uc"
| call: "guest_path E uc ucs uc1 \<Longrightarrow> e_advance E uc1 = (EvSyscall, uc2) \<Longrightarrow> \<not> call_panics E uc2 \<Longrightarrow>
     guest_path E uc (ucs @ [uc2]) (call_next E uc2)"

inductive_cases guest_stepE: "guest_step E uc uc'"

definition guest_last :: "'uc engine \<Rightarrow> 'uc \<Rightarrow> (emu_end \<times> 'uc) option" where
  "guest_last E uc =
     (case e_advance E uc of
        (EvDone, uc1) \<Rightarrow> Some (EmuDone, uc1)
      | (EvFault msg, uc1) \<Rightarrow> Some (EmuFault msg, uc1)
      | (EvSpin, _) \<Rightarrow> None
      | (EvSyscall, uc1) \<Rightarrow> if call_panics E uc1 then Some (EmuPanic CapacityOverflow, uc1) else None)"

lemma emu_step_guest:
  "emu_step E oc (std_table oc s) (uc, sh, ts) st \<longleftrightarrow>
     (\<exists>uc1. e_advance E uc = (EvSyscall, uc1) \<and> \<not> call_panics E uc1 \<and>
        st = (call_next E uc1, call_shared E sh uc1, call_store E s ts uc1))"
  by (auto simp: emu_step.simps hook_call split: if_splits)

lemma emu_last_guest:
  "emu_last E oc (std_table oc s) (uc, sh, ts) = map_option (\<lambda>(e, uc'). (e, uc', sh, ts)) (guest_last E uc)"
  by (simp add: emu_last_def guest_last_def hook_call split: prod.split uc_event.split)

lemma guest_path_steps:
  "guest_path E uc ucs uc' \<Longrightarrow>
     emu_steps E oc (std_table oc s) (uc, sh, ts) (uc', shared_after E sh ucs, store_after E s ts ucs)"
proof (induction rule: guest_path.induct)
  case (call ucs uc1 uc2)
  have "emu_step E oc (std_table oc s) (uc1, shared_after E sh ucs, store_after E s ts ucs)
      (call_next E uc2, shared_after E sh (ucs @ [uc2]), store_after E s ts (ucs @ [uc2]))"
    using call(2,3) by (simp add: emu_step_guest)
  with call.IH show ?case by (rule rtranclp.rtrancl_into_rtrancl)
qed simp

lemma steps_guest_path:
  assumes "emu_steps E oc (std_table oc s) st st'"
  shows "\<exists>ucs. guest_path E (fst st) ucs (fst st') \<and>
     st' = (fst st', shared_after E (fst (snd st)) ucs, store_after E s (snd (snd st)) ucs)"
  using assms
proof (induction rule: rtranclp_induct)
  case base
  then show ?case by (intro exI [of _ "[]"]) (simp add: guest_path.start)
next
  case (step y z)
  then obtain ucs where path: "guest_path E (fst st) ucs (fst y)"
    and y: "y = (fst y, shared_after E (fst (snd st)) ucs, store_after E s (snd (snd st)) ucs)" by blast
  from step(2) obtain uc1 where trap: "e_advance E (fst y) = (EvSyscall, uc1)" "\<not> call_panics E uc1"
    and z: "z = (call_next E uc1, shared_after E (fst (snd st)) (ucs @ [uc1]), store_after E s (snd (snd st)) (ucs @ [uc1]))"
    by (subst (asm) y) (auto simp: emu_step_guest)
  from guest_path.call [OF path trap] show ?case by (intro exI [of _ "ucs @ [uc1]"]) (simp add: z)
qed

lemma emu_loop_guest:
  "emu_loop E oc (Some (std_table oc s)) uc sh ts = Some (e, uc', sh', ts') \<longleftrightarrow>
     (\<exists>ucs uc1. guest_path E uc ucs uc1 \<and> guest_last E uc1 = Some (e, uc') \<and>
        sh' = shared_after E sh ucs \<and> ts' = store_after E s ts ucs)" (is "?l \<longleftrightarrow> ?r")
proof
  assume ?l
  then obtain st where steps: "emu_steps E oc (std_table oc s) (uc, sh, ts) st"
    and last: "emu_last E oc (std_table oc s) st = Some (e, uc', sh', ts')" unfolding emu_loop_char by blast
  obtain ucs where path: "guest_path E uc ucs (fst st)" and st: "st = (fst st, shared_after E sh ucs, store_after E s ts ucs)"
    using steps_guest_path [OF steps] by auto
  have "emu_last E oc (std_table oc s) (fst st, shared_after E sh ucs, store_after E s ts ucs) = Some (e, uc', sh', ts')"
    using last st by simp
  with path show ?r by (auto simp: emu_last_guest)
next
  assume ?r
  then obtain ucs uc1 where path: "guest_path E uc ucs uc1" and last: "guest_last E uc1 = Some (e, uc')"
    and eq: "sh' = shared_after E sh ucs" "ts' = store_after E s ts ucs" by blast
  show ?l
    unfolding emu_loop_char eq
    using guest_path_steps [OF path, of oc s sh ts] last by (fastforce simp: emu_last_guest)
qed

lemma emu_steps_infinite:
  assumes "f 0 = (uc, sh, ts)" and "\<forall>i :: nat. emu_step E oc (std_table oc s) (f i) (f (Suc i))"
  shows "\<exists>g. g 0 = uc \<and> (\<forall>i :: nat. guest_step E (g i) (g (Suc i)))"
proof -
  have "guest_step E (fst (f i)) (fst (f (Suc i)))" for i
    using assms(2) [rule_format, of i] by (cases "f i") (auto simp: emu_step_guest intro: guest_step.trap)
  then show ?thesis using assms(1) by (intro exI [of _ "fst \<circ> f"]) simp
qed

lemma guest_steps_diverge:
  assumes "\<forall>i :: nat. guest_step E (g i) (g (Suc i))"
  shows "emu_diverges E oc (std_table oc s) (g i, sh, ts)"
proof (coinduction arbitrary: i sh ts)
  case (emu_diverges i sh ts)
  from assms have "guest_step E (g i) (g (Suc i))" by blast
  then obtain uc1 where "e_advance E (g i) = (EvSyscall, uc1)" "\<not> call_panics E uc1" "g (Suc i) = call_next E uc1"
    by (rule guest_stepE) blast
  then have "emu_step E oc (std_table oc s) (g i, sh, ts) (g (Suc i), call_shared E sh uc1, call_store E s ts uc1)"
    by (simp add: emu_step_guest)
  then show ?case by blast
qed

lemma emu_diverges_guest:
  "emu_diverges E oc (std_table oc s) (uc, sh, ts) \<longleftrightarrow>
     (\<exists>g. g 0 = uc \<and> (\<forall>i :: nat. guest_step E (g i) (g (Suc i)))) \<or>
     (\<exists>ucs uc1. guest_path E uc ucs uc1 \<and> fst (e_advance E uc1) = EvSpin)" (is "?l \<longleftrightarrow> ?inf \<or> ?spin")
proof
  assume ?l
  then consider f where "f 0 = (uc, sh, ts)" "\<forall>i :: nat. emu_step E oc (std_table oc s) (f i) (f (Suc i))"
    | st where "emu_steps E oc (std_table oc s) (uc, sh, ts) st" "emu_spins E st"
    unfolding emu_diverges_chain by blast
  then show "?inf \<or> ?spin"
  proof cases
    case 1
    then show ?thesis by (intro disjI1 emu_steps_infinite)
  next
    case 2
    then show ?thesis using steps_guest_path [OF 2(1)] by (auto simp: emu_spins_def)
  qed
next
  assume "?inf \<or> ?spin"
  then show ?l
  proof
    assume ?inf
    then obtain g where g0: "g 0 = uc" and steps: "\<forall>i :: nat. guest_step E (g i) (g (Suc i))" by (elim exE conjE)
    show ?l using guest_steps_diverge [OF steps, where i = 0] unfolding g0 .
  next
    assume ?spin
    then obtain ucs uc1 where "guest_path E uc ucs uc1" and spin: "fst (e_advance E uc1) = EvSpin" by blast
    from guest_path_steps [OF this(1), of oc s sh ts] show ?l
      by (rule spin_diverges) (simp add: emu_spins_def spin)
  qed
qed


section \<open>Before the run\<close>

text \<open>No stage before the run looks at the hook, so the engine it prepares does not depend on the table.\<close>

lemma claim_and_map_hook:
  "claim_and_map E oc (v\<lparr>v_hook := h\<rparr>) uc b s fl pr =
     map_prod id (\<lambda>v. v\<lparr>v_hook := h\<rparr>) (claim_and_map E oc v uc b s fl pr)"
  by (simp add: claim_and_map_def split: prod.split result.split sum.split)

lemma map_segment_hook:
  "map_segment E oc (v\<lparr>v_hook := h\<rparr>) uc seg =
     map_prod id (\<lambda>v. v\<lparr>v_hook := h\<rparr>) (map_segment E oc v uc seg)"
proof (cases "seg_pages oc seg")
  case (Ok range)
  obtain start sz where range: "range = (start, sz)" by (cases range)
  obtain r v1 where claim: "claim_and_map E oc v uc start sz (s_flags seg) (seg_prot (s_flags seg)) = (r, v1)"
    by (cases "claim_and_map E oc v uc start sz (s_flags seg) (seg_prot (s_flags seg))")
  define copy :: "(vcpu_error, u64 \<times> bytes) result" where
    "copy = r_bind (sub64 oc (s_vaddr seg) start) (\<lambda>offset. r_bind (file_bytes seg) (\<lambda>data.
        r_bind (add64 oc start offset) (\<lambda>dest. Ok (dest, data))))"
  show ?thesis
    unfolding map_segment_def Ok range result.case prod.case claim_and_map_hook claim map_prod_simp copy_def [symmetric]
    by (cases r; cases copy) (auto split: prod.split sum.split)
qed (simp_all add: map_segment_def)

lemma map_segments_hook:
  "map_segments E oc (v\<lparr>v_hook := h\<rparr>) uc segs =
     map_prod id (\<lambda>v. v\<lparr>v_hook := h\<rparr>) (map_segments E oc v uc segs)"
  by (induction segs arbitrary: v uc) (simp_all add: map_segment_hook split: prod.split result.split)

lemma map_elf_hook:
  "map_elf E oc (v\<lparr>v_hook := h\<rparr>) le = map_prod id (\<lambda>v. v\<lparr>v_hook := h\<rparr>) (map_elf E oc v le)"
  by (simp add: map_elf_def map_segments_hook split: option.split)

lemma map_stack_hook:
  "map_stack E oc (v\<lparr>v_hook := h\<rparr>) b n = map_prod id (\<lambda>v. v\<lparr>v_hook := h\<rparr>) (map_stack E oc v b n)"
  by (simp add: map_stack_def map_memory_def claim_and_map_hook split: option.split prod.split result.split)

lemma setup_hook:
  "setup_initial_state E oc (v\<lparr>v_hook := h\<rparr>) entry stk =
     map_prod id (\<lambda>v. v\<lparr>v_hook := h\<rparr>) (setup_initial_state E oc v entry stk)"
  by (simp add: setup_initial_state_def reg_op_def split: option.split prod.split result.split sum.split)

lemma vcpu_stage_hook: "vcpu_stage (map_prod id f m) = map_ok f (vcpu_stage m)"
  by (cases m; cases "fst m") (simp_all add: vcpu_stage_def)

lemma vcpu_new_hook: "vcpu_new E d' = map_ok (\<lambda>v. v\<lparr>v_hook := Some d'\<rparr>) (vcpu_new E d)"
  by (cases "e_new E") (simp_all add: vcpu_new_def install_syscall_hook_def Let_def split: prod.split sum.split)

lemma to_err_map_ok: "to_err (map_ok f m) = map_ok f (to_err m)"
  by (cases m) simp_all

lemma prepare_hook:
  "prepare_vcpu E oc le d' = map_ok (\<lambda>v. v\<lparr>v_hook := Some d'\<rparr>) (prepare_vcpu E oc le d)"
  unfolding prepare_vcpu_def vcpu_new_hook [of E d' d] to_err_map_ok r_bind_map_ok map_elf_hook map_stack_hook
    setup_hook vcpu_stage_hook map_ok_bind ..

definition prepared_engine :: "'uc engine \<Rightarrow> bool \<Rightarrow> loaded_elf \<Rightarrow> (string, 'uc) result" where
  "prepared_engine E oc le = map_ok (\<lambda>v. the (v_uc v)) (prepare_vcpu E oc le dispatch_new)"

lemma prepared_cases:
  "(\<exists>v uc. prepare_vcpu E oc le d = Ok v \<and> prepared_engine E oc le = Ok uc \<and> v_uc v = Some uc \<and>
       v_hook v = Some d \<and> v_shared v = shared_new) \<or>
   (\<exists>msg. prepare_vcpu E oc le d = Err msg \<and> prepared_engine E oc le = Err msg) \<or>
   (\<exists>p. prepare_vcpu E oc le d = Panic p \<and> prepared_engine E oc le = Panic p)"
proof (cases "prepare_vcpu E oc le dispatch_new")
  case (Ok v)
  then have "prepare_vcpu E oc le d = Ok (v\<lparr>v_hook := Some d\<rparr>)" by (simp add: prepare_hook [of E oc le d dispatch_new])
  then show ?thesis using Ok prepare_frame [OF Ok] by (auto simp: prepared_engine_def)
qed (simp_all add: prepared_engine_def prepare_hook [of E oc le d dispatch_new])


lemma prepared_Err: "prepare_vcpu E oc le d = Err msg \<longleftrightarrow> prepared_engine E oc le = Err msg"
  using prepared_cases [of E oc le d] by auto

lemma prepared_Panic: "prepare_vcpu E oc le d = Panic p \<longleftrightarrow> prepared_engine E oc le = Panic p"
  using prepared_cases [of E oc le d] by auto

section \<open>What a call of \<open>run_elf\<close> returns\<close>

definition engine_start :: "'uc engine \<Rightarrow> 'uc \<Rightarrow> u64 \<Rightarrow> 'uc" where
  "engine_start E uc t = e_start E uc (reg_or_0 E uc RIP) (- 1) t 0"

definition guest_outcome :: "'uc engine \<Rightarrow> emu_end \<Rightarrow> 'uc \<Rightarrow> 'uc list \<Rightarrow> (string, py_dict) result" where
  "guest_outcome E e uc ucs =
     (let result = (\<lambda>reason. Ok (run_dict reason (bytes_of E ucs) (records_from E 0 ucs)));
          failure = (\<lambda>msg. Err (''E504: execution error: '' @ msg))
      in case e of
           EmuPanic p \<Rightarrow> Panic (Aborted p)
         | EmuFault msg \<Rightarrow> if falloff_message msg then result (Falloff (reg_or_0 E uc RIP)) else failure msg
         | EmuDone \<Rightarrow>
             (case exit_of E None ucs of
                Some reason \<Rightarrow> result reason
              | None \<Rightarrow>
                  if any_broken E ucs then failure ''E202: engine error: guest memory read failed''
                  else result Stopped))"

definition run_spec ::
  "'uc engine \<Rightarrow> bool \<Rightarrow> (bytes \<Rightarrow> string + goblin_elf) \<Rightarrow> bytes \<Rightarrow> u64 \<Rightarrow> (string, py_dict) result \<Rightarrow> bool" where
  "run_spec E oc parse img t res \<longleftrightarrow>
     (case load_elf oc parse img of
        Err e \<Rightarrow> res = Err (show_elf_error e)
      | Panic p \<Rightarrow> res = Panic p
      | Ok le \<Rightarrow>
          (case prepared_engine E oc le of
             Err msg \<Rightarrow> res = Err msg
           | Panic p \<Rightarrow> res = Panic p
           | Ok uc \<Rightarrow>
               \<exists>ucs uc1 e uc2. guest_path E (engine_start E uc t) ucs uc1 \<and> guest_last E uc1 = Some (e, uc2) \<and>
                 res = guest_outcome E e uc2 ucs))"

lemma vcpu_run_guest:
  assumes "v_uc v = Some uc" and "v_hook v = Some (std_table oc s)"
  shows "vcpu_run E oc v ts t = Some (r, v', ts') \<longleftrightarrow>
     (\<exists>ucs uc1 e uc2. guest_path E (engine_start E uc t) ucs uc1 \<and> guest_last E uc1 = Some (e, uc2) \<and>
        r = run_outcome E e uc2 (shared_after E (v_shared v) ucs) \<and>
        v' = v\<lparr>v_uc := Some uc2, v_shared := shared_after E (v_shared v) ucs\<rparr> \<and> ts' = store_after E s ts ucs)"
proof -
  have "vcpu_run E oc v ts t = Some (r, v', ts') \<longleftrightarrow>
     (\<exists>e uc2 sh'. emu_loop E oc (Some (std_table oc s)) (engine_start E uc t) (v_shared v) ts =
          Some (e, uc2, sh', ts') \<and> r = run_outcome E e uc2 sh' \<and> v' = v\<lparr>v_uc := Some uc2, v_shared := sh'\<rparr>)"
    by (auto simp: vcpu_run_def assms engine_start_def)
  then show ?thesis unfolding emu_loop_guest by blast
qed

lemma guest_outcome_run:
  "guest_outcome E e uc2 ucs =
     (case to_err (run_outcome E e uc2 (shared_after E shared_new ucs)) of
        Err msg \<Rightarrow> Err msg
      | Panic p \<Rightarrow> Panic p
      | Ok reason \<Rightarrow> Ok (run_dict reason (bytes_of E ucs) (records_from E 0 ucs)))"
  by (simp add: guest_outcome_def run_outcome_def Let_def split: emu_end.split option.split)

lemma run_elf_prepared_guest:
  assumes le: "load_elf oc parse img = Ok le" and v: "prepare_vcpu E oc le (std_table oc (ts_next ts)) = Ok v"
    and uc: "v_uc v = Some uc"
  shows "run_elf E oc parse img t ts = Some (res, ts') \<longleftrightarrow>
     (\<exists>ucs uc1 e uc2. guest_path E (engine_start E uc t) ucs uc1 \<and> guest_last E uc1 = Some (e, uc2) \<and>
        res = guest_outcome E e uc2 ucs \<and>
        ts' = (let ts2 = store_after E (ts_next ts) (snd (sink_new ts)) ucs
               in if is_Ok res then snd (sink_drain ts2 (ts_next ts)) else ts2))"
proof -
  let ?s = "ts_next ts" and ?ts1 = "snd (sink_new ts)"
  have sn: "sink_new ts = (?s, ?ts1)" and fresh: "ts_buf ?ts1 ?s = []" by (simp_all add: sink_new_def)
  have vv: "v_hook v = Some (std_table oc ?s)" "v_shared v = shared_new" using prepare_frame [OF v] by blast+
  have out: "run_elf E oc parse img t ts = Some (res, ts') \<longleftrightarrow>
     (\<exists>r v' ts2. vcpu_run E oc v ?ts1 t = Some (r, v', ts2) \<and>
        (res, ts') = (case to_err r of
                  Err msg \<Rightarrow> (Err msg, ts2)
                | Panic p \<Rightarrow> (Panic p, ts2)
                | Ok reason \<Rightarrow> (Ok (run_dict reason (vcpu_output v') (ts_buf ts2 ?s)), snd (sink_drain ts2 ?s))))"
    unfolding run_elf_prepared [OF le sn v] by (auto split: option.split)
  have fin: "(case to_err (run_outcome E e uc2 (shared_after E shared_new ucs)) of
        Err msg \<Rightarrow> (Err msg, store_after E ?s ?ts1 ucs)
      | Panic p \<Rightarrow> (Panic p, store_after E ?s ?ts1 ucs)
      | Ok reason \<Rightarrow> (Ok (run_dict reason (vcpu_output (v\<lparr>v_uc := Some uc2, v_shared := shared_after E shared_new ucs\<rparr>))
             (ts_buf (store_after E ?s ?ts1 ucs) ?s)), snd (sink_drain (store_after E ?s ?ts1 ucs) ?s))) =
      (guest_outcome E e uc2 ucs,
       let ts2 = store_after E ?s ?ts1 ucs
       in if is_Ok (guest_outcome E e uc2 ucs) then snd (sink_drain ts2 ?s) else ts2)" for e uc2 ucs
    by (cases "to_err (run_outcome E e uc2 (shared_after E shared_new ucs))")
       (simp_all add: guest_outcome_run vcpu_output_def store_after_buf fresh Let_def)
  have "run_elf E oc parse img t ts = Some (res, ts') \<longleftrightarrow>
     (\<exists>ucs uc1 e uc2. guest_path E (engine_start E uc t) ucs uc1 \<and> guest_last E uc1 = Some (e, uc2) \<and>
        (res, ts') = (guest_outcome E e uc2 ucs,
           let ts2 = store_after E ?s ?ts1 ucs
           in if is_Ok (guest_outcome E e uc2 ucs) then snd (sink_drain ts2 ?s) else ts2))"
    unfolding out vcpu_run_guest [OF uc vv(1)] vv(2) fin [symmetric] by blast
  then show ?thesis unfolding prod.inject by metis
qed


lemma run_elf_stages:
  "run_elf E oc parse img t ts = Some (res, ts') \<longleftrightarrow>
     (case load_elf oc parse img of
        Err e \<Rightarrow> res = Err (show_elf_error e) \<and> ts' = ts
      | Panic p \<Rightarrow> res = Panic p \<and> ts' = ts
      | Ok le \<Rightarrow>
          (case prepared_engine E oc le of
             Err msg \<Rightarrow> res = Err msg \<and> ts' = snd (sink_new ts)
           | Panic p \<Rightarrow> res = Panic p \<and> ts' = snd (sink_new ts)
           | Ok uc \<Rightarrow>
               \<exists>ucs uc1 e uc2. guest_path E (engine_start E uc t) ucs uc1 \<and> guest_last E uc1 = Some (e, uc2) \<and>
                 res = guest_outcome E e uc2 ucs \<and>
                 ts' = (let ts2 = store_after E (ts_next ts) (snd (sink_new ts)) ucs
                        in if is_Ok res then snd (sink_drain ts2 (ts_next ts)) else ts2)))"
proof (cases "load_elf oc parse img")
  case (Ok le)
  have sn: "sink_new ts = (ts_next ts, snd (sink_new ts))" by (simp add: sink_new_def)
  show ?thesis
  proof (cases "prepare_vcpu E oc le (std_table oc (ts_next ts))")
    case prep: (Ok v)
    then obtain uc where "prepared_engine E oc le = Ok uc" "v_uc v = Some uc"
      using prepared_cases [of E oc le "std_table oc (ts_next ts)"] by auto
    then show ?thesis unfolding Ok result.case by (simp only: run_elf_prepared_guest [OF Ok prep] result.case)
  next
    case (Err msg)
    then have "prepared_engine E oc le = Err msg" by (simp add: prepared_Err)
    then show ?thesis
      by (subst run_elf_def, subst sn) (auto simp: Ok Err sink_clone_def Let_def)
  next
    case (Panic p)
    then have "prepared_engine E oc le = Panic p" by (simp add: prepared_Panic)
    then show ?thesis
      by (subst run_elf_def, subst sn) (auto simp: Ok Panic sink_clone_def Let_def)
  qed
qed (auto simp: run_elf_def)

lemma run_elf_spec: "(\<exists>ts'. run_elf E oc parse img t ts = Some (res, ts')) \<longleftrightarrow> run_spec E oc parse img t res"
  unfolding run_elf_stages run_spec_def by (simp split: result.split) blast

lemma run_elf_result:
  "map_option fst (run_elf E oc parse img t ts) = Some res \<longleftrightarrow> run_spec E oc parse img t res"
  unfolding run_elf_spec [symmetric, where ts = ts] by auto

lemma run_elf_any_store:
  "map_option fst (run_elf E oc parse img t ts) = map_option fst (run_elf E oc parse img t ts')"
  using run_elf_result by (metis option.exhaust)

lemma run_elf_other_sinks:
  "run_elf E oc parse img t ts = Some (res, ts') \<Longrightarrow> s \<noteq> ts_next ts \<Longrightarrow> ts_buf ts' s = ts_buf ts s"
  unfolding run_elf_stages
  by (auto simp: sink_new_def store_after_buf sink_drain_def Let_def split: result.splits if_splits)

lemma guest_outcome_Ok:
  "guest_outcome E e uc ucs = Ok d \<Longrightarrow>
     \<exists>reason. d = run_dict reason (bytes_of E ucs) (records_from E 0 ucs)"
  unfolding guest_outcome_run by (auto split: result.splits)

lemma run_spec_Ok_typed:
  assumes "run_spec E oc parse img t (Ok d)"
  shows "\<exists>reason out recs. d = run_dict reason out recs \<and> records_typed recs"
proof -
  obtain ucs e uc where "guest_outcome E e uc ucs = Ok d"
    using assms by (auto simp: run_spec_def split: result.splits dest: sym)
  from guest_outcome_Ok [OF this] records_from_typed show ?thesis by blast
qed

lemma run_spec_Ok:
  "run_spec E oc parse img t (Ok d) \<Longrightarrow> \<exists>reason out recs. d = run_dict reason out recs"
  using run_spec_Ok_typed by blast

end
