(* ===== verification/Builds_Agree.thy ===== *)
theory Builds_Agree
  imports Guest_Run
begin

text \<open>
  Builds with and without overflow checks. Every checked operation between an image and its guest is
  exact when the segments end a page or more below the top of the address space, so both builds of the
  program do the same: the set-up gives the same engine or the same error, the hook does not compute
  with the guest's numbers, and \<open>run_elf\<close> returns the same result and leaves the same trace store. No
  law of the engine is used.
\<close>

lemma mm_insert_build:
  assumes "mm_inv m" and "no_wrap b s"
  shows "mm_insert oc m b s p = mm_insert oc' m b s p"
proof (cases "mm_claimed m \<inter> addr_range b s = {}")
  case True
  then show ?thesis using assms by (cases "s = 0") (simp_all add: mm_insert_free)
next
  case False
  then show ?thesis using assms by (simp add: mm_insert_taken)
qed

lemma claim_and_map_build:
  "mm_inv (v_map v) \<Longrightarrow> no_wrap b s \<Longrightarrow> claim_and_map E oc v uc b s fl pr = claim_and_map E oc' v uc b s fl pr"
  by (simp add: claim_and_map_def mm_insert_build [of "v_map v" b s oc fl oc'])

lemma claim_and_map_inv:
  assumes "mm_inv (v_map v)" and "no_wrap b s" and "claim_and_map E oc v uc b s fl pr = (r, v')"
  shows "mm_inv (v_map v')"
  using mm.insert_keeps [OF assms(1,2), of oc fl] assms(3)
  by (auto simp: claim_and_map_def split: prod.splits result.splits sum.splits)

lemma seg_no_wrap: "seg_mappable seg \<Longrightarrow> no_wrap (fst (seg_claim seg)) (fst (snd (seg_claim seg)))"
  by (drule seg_mappable_range_ok) (simp add: range_ok_def)

lemma seg_pages_mappable:
  "seg_mappable seg \<Longrightarrow> seg_pages oc seg = Ok (fst (seg_claim seg), fst (snd (seg_claim seg)))"
  by (intro seg_pages_eq) (simp add: seg_mappable_def)

lemma map_segment_build:
  assumes "seg_mappable seg" and "mm_inv (v_map v)"
  shows "map_segment E oc v uc seg = map_segment E oc' v uc seg"
  unfolding map_segment_def seg_pages_mappable [OF assms(1)] result.case prod.case seg_dest [OF assms(1)]
    claim_and_map_build [OF assms(2) seg_no_wrap [OF assms(1)], of E oc uc _ _ oc'] ..

lemma map_segment_inv:
  assumes "seg_mappable seg" and "mm_inv (v_map v)" and "map_segment E oc v uc seg = (r, v')"
  shows "mm_inv (v_map v')"
  using assms(3)
  unfolding map_segment_def seg_pages_mappable [OF assms(1)] result.case prod.case seg_dest [OF assms(1)]
  by (auto split: prod.splits result.splits sum.splits
      dest!: claim_and_map_inv [OF assms(2) seg_no_wrap [OF assms(1)]])

lemma map_segments_build:
  "\<forall>seg \<in> set segs. seg_mappable seg \<Longrightarrow> mm_inv (v_map v) \<Longrightarrow>
     map_segments E oc v uc segs = map_segments E oc' v uc segs"
proof (induction segs arbitrary: v uc)
  case (Cons seg segs)
  then have seg: "seg_mappable seg" and segs: "\<forall>seg \<in> set segs. seg_mappable seg" by simp_all
  obtain r v1 where m: "map_segment E oc' v uc seg = (r, v1)" by (cases "map_segment E oc' v uc seg")
  note inv = map_segment_inv [OF seg Cons.prems(2) m]
  show ?case
    unfolding map_segments.simps map_segment_build [OF seg Cons.prems(2), of E oc uc oc'] m
    using Cons.IH [OF segs inv] by (simp split: result.split)
qed simp

lemma map_segments_inv:
  "\<forall>seg \<in> set segs. seg_mappable seg \<Longrightarrow> mm_inv (v_map v) \<Longrightarrow>
     map_segments E oc v uc segs = (r, v') \<Longrightarrow> mm_inv (v_map v')"
proof (induction segs arbitrary: v uc)
  case (Cons seg segs)
  obtain q v1 where m: "map_segment E oc v uc seg = (q, v1)" by (cases "map_segment E oc v uc seg")
  have "seg_mappable seg" using Cons.prems(1) by simp
  note inv = map_segment_inv [OF this Cons.prems(2) m]
  show ?case using Cons.IH [OF _ inv] Cons.prems(1,3) inv by (cases q) (auto simp: m)
qed simp

section \<open>The set-up\<close>

lemma map_stack_build:
  "mm_inv (v_map v) \<Longrightarrow>
     map_stack E oc v STACK_BASE STACK_SIZE = map_stack E oc' v STACK_BASE STACK_SIZE"
  using stack_range_ok
  unfolding map_stack_def map_memory_def
  by (simp add: claim_and_map_build [of v STACK_BASE STACK_SIZE E oc _ _ _ oc'] range_ok_def split: option.split)

lemma setup_build:
  "setup_initial_state E oc v entry (STACK_BASE + STACK_SIZE) =
     setup_initial_state E oc' v entry (STACK_BASE + STACK_SIZE)"
proof -
  have "sub64 c (STACK_BASE + STACK_SIZE) 0x20 = (Ok (STACK_BASE + STACK_SIZE - 0x20) :: (vcpu_error, u64) result)" for c
    by (simp add: sub64_exact STACK_BASE_def STACK_SIZE_def)
  then show ?thesis unfolding setup_initial_state_def by (simp split: option.split)
qed

lemma prepare_build:
  assumes "\<forall>seg \<in> set (le_segments le). seg_mappable seg"
  shows "prepare_vcpu E oc le d = prepare_vcpu E oc' le d"
proof (cases "vcpu_new E d")
  case (Ok v0)
  have inv0: "mm_inv (v_map v0)"
    using Ok by (auto simp: vcpu_new_def install_syscall_hook_def Let_def split: prod.splits sum.splits)
  have elf: "map_elf E oc v0 le = map_elf E oc' v0 le"
    using map_segments_build [OF assms inv0] by (simp add: map_elf_def split: option.split)
  obtain r v1 where m: "map_elf E oc' v0 le = (r, v1)" by (cases "map_elf E oc' v0 le")
  have "mm_inv (v_map v1)"
    using m inv0 map_segments_inv [OF assms inv0] by (auto simp: map_elf_def split: option.splits)
  note stack = map_stack_build [OF this, of E oc oc']
  show ?thesis
    unfolding prepare_vcpu_def Ok to_err_simps r_bind.simps setup_build [of E oc _ _ oc'] elf m
  proof (cases "vcpu_stage (r, v1)")
    case (Ok v)
    then have "v = v1" by simp
    with Ok show "r_bind (vcpu_stage (r, v1)) (\<lambda>v1.
         r_bind (vcpu_stage (map_stack E oc v1 STACK_BASE STACK_SIZE)) (\<lambda>v2.
           vcpu_stage (setup_initial_state E oc' v2 (le_entry le) (STACK_BASE + STACK_SIZE)))) =
       r_bind (vcpu_stage (r, v1)) (\<lambda>v1.
         r_bind (vcpu_stage (map_stack E oc' v1 STACK_BASE STACK_SIZE)) (\<lambda>v2.
           vcpu_stage (setup_initial_state E oc' v2 (le_entry le) (STACK_BASE + STACK_SIZE))))"
      by (simp only: r_bind.simps stack)
  qed simp_all
qed (simp_all add: prepare_vcpu_def)

section \<open>Runs\<close>

lemma run_elf_build:
  assumes "\<And>le seg. load_elf oc parse img = Ok le \<Longrightarrow> seg \<in> set (le_segments le) \<Longrightarrow> seg_placed seg"
  shows "run_elf E oc parse img t ts = run_elf E oc' parse img t ts"
proof -
  have load: "load_elf oc' parse img = load_elf oc parse img"
    using load_elf_same_in_both_builds [of parse img] by (cases oc; cases oc') simp_all
  have prep: "prepared_engine E oc le = prepared_engine E oc' le" if "load_elf oc parse img = Ok le" for le
  proof -
    have "\<forall>seg \<in> set (le_segments le). seg_mappable seg"
      using load_elf_segments_ok [OF that] seg_placed_mappable assms [OF that] by blast
    then show ?thesis unfolding prepared_engine_def using prepare_build by metis
  qed
  have "run_elf E oc parse img t ts = Some (res, ts') \<longleftrightarrow> run_elf E oc' parse img t ts = Some (res, ts')" for res ts'
    unfolding run_elf_stages load using prep by (simp split: result.split)
  then show ?thesis by (metis option.exhaust prod.exhaust)
qed

text \<open>C33: a build with overflow checks and one without do the same on every image whose segments are not
  empty and end a page or more below the top of the address space, and on every image the loader
  rejects: \<open>run_elf\<close> returns the same, or does not return, in both.\<close>

theorem run_elf_same_in_both_builds:
  assumes "case load_elf True parse img of Ok le \<Rightarrow> \<forall>seg \<in> set (le_segments le). seg_placed seg | _ \<Rightarrow> True"
  shows "run_elf E True parse img t ts = run_elf E False parse img t ts"
  using assms by (intro run_elf_build) auto

theorem run_elf_same_in_both_builds_witness:
  "run_elf (ram_engine []) True (sample_parse (sample_headers 0x402000)) sample_bytes 0 empty_store =
   run_elf (ram_engine []) False (sample_parse (sample_headers 0x402000)) sample_bytes 0 empty_store"
  using two_image_placed by (intro run_elf_same_in_both_builds) (simp add: two_image_loads)

end
