(* ===== verification/Core_Module.thy ===== *)
theory Core_Module
  imports Guest_Run
begin

text \<open>
  The Python module as its callers see it, from the specification of \<open>run_elf\<close> in \<open>Guest_Run\<close>: what
  every call returns and when it does not, that calls do not influence each other, which messages a
  \<open>ValueError\<close> can carry, and the one way a guest can make the host panic.
\<close>

section \<open>Results\<close>

text \<open>C1: what \<open>run_elf\<close> returns, whatever the trace store it starts with. An image the loader rejects gives
  the loader's message and one that cannot be set up the message of that stage. Otherwise the guest
  runs on the engine alone, call after call, until the engine is done, faults, or a call panics; the
  dictionary is that of the last exit, of a falloff, or of a stop, its output and its trace are
  what the trapped calls add up to, and a fault or an unreadable buffer is an E504 error.\<close>

theorem run_elf_returns_iff:
  "(\<exists>ts'. run_elf E oc parse img t ts = Some (res, ts')) \<longleftrightarrow> run_spec E oc parse img t res"
  by (rule run_elf_spec)

text \<open>C6: \<open>run_elf\<close> fails to return exactly when the image is accepted and set up, and the guest then makes
  system calls for ever, each of them answered, or after some calls executes for ever without
  another one, as a guest in a plain loop does when no timeout stops it.\<close>

theorem run_elf_never_returns_iff:
  "run_elf E oc parse img t ts = None \<longleftrightarrow>
     (\<exists>le uc f. load_elf oc parse img = Ok le \<and> prepared_engine E oc le = Ok uc \<and>
        f 0 = engine_start E uc t \<and> (\<forall>i :: nat. guest_step E (f i) (f (Suc i)))) \<or>
     (\<exists>le uc ucs uc1. load_elf oc parse img = Ok le \<and> prepared_engine E oc le = Ok uc \<and>
        guest_path E (engine_start E uc t) ucs uc1 \<and> fst (e_advance E uc1) = EvSpin)"
proof (cases "load_elf oc parse img")
  case (Ok le)
  have sn: "sink_new ts = (ts_next ts, snd (sink_new ts))" by (simp add: sink_new_def)
  show ?thesis
  proof (cases "prepare_vcpu E oc le (std_table oc (ts_next ts))")
    case prep: (Ok v)
    then obtain uc where uc: "prepared_engine E oc le = Ok uc" "v_uc v = Some uc"
      using prepared_cases [of E oc le "std_table oc (ts_next ts)"] by auto
    have "v_hook v = Some (std_table oc (ts_next ts))" using prepare_frame [OF prep] by blast
    note None = vcpu_run_None_loop [OF uc(2) this, of E oc "snd (sink_new ts)" t, unfolded emu_diverges_guest]
    have "run_elf E oc parse img t ts = None \<longleftrightarrow> vcpu_run E oc v (snd (sink_new ts)) t = None"
      unfolding run_elf_prepared [OF Ok sn prep] by (simp split: option.split prod.split)
    then show ?thesis unfolding None by (simp add: Ok uc(1) engine_start_def)
  next
    case (Err msg)
    then have "prepared_engine E oc le = Err msg" by (simp add: prepared_Err)
    then show ?thesis by (subst run_elf_def, subst sn) (auto simp: Ok Err sink_clone_def Let_def)
  next
    case (Panic p)
    then have "prepared_engine E oc le = Panic p" by (simp add: prepared_Panic)
    then show ?thesis by (subst run_elf_def, subst sn) (auto simp: Ok Panic sink_clone_def Let_def)
  qed
qed (auto simp: run_elf_def)

section \<open>Sessions\<close>

lemma py_call_any_store:
  "map_option fst (py_call E oc parse ts c) = map_option fst (py_call E oc parse ts' c)"
  by (cases c) (simp_all add: run_elf_any_store [of E oc parse _ _ ts ts'])

lemma py_call_other_sinks:
  "py_call E oc parse ts c = Some (res, ts') \<Longrightarrow> s \<noteq> ts_next ts \<Longrightarrow> ts_buf ts' s = ts_buf ts s"
  by (cases c) (auto dest: run_elf_other_sinks)

text \<open>The part of a series up to the first call that aborts the process, that call included.\<close>

definition until_abort :: "(string, py_dict) result option list \<Rightarrow> (string, py_dict) result option list" where
  "until_abort rs =
     (let goes_on = (\<lambda>r. case r of Some r \<Rightarrow> \<not> aborts r | None \<Rightarrow> True)
      in takeWhile goes_on rs @ take 1 (dropWhile goes_on rs))"

lemma until_abort_simps [simp]:
  "until_abort [] = []"
  "until_abort (None # rs) = None # until_abort rs"
  "until_abort (Some r # rs) = Some r # (if aborts r then [] else until_abort rs)"
  by (simp_all add: until_abort_def Let_def)

lemma session_results:
  "map_option fst (session E oc parse ts cs) =
     those (until_abort (map (\<lambda>c. map_option fst (py_call E oc parse ts0 c)) cs))"
proof (induction cs arbitrary: ts)
  case (Cons c cs)
  show ?case
  proof (cases "py_call E oc parse ts c")
    case None
    then show ?thesis using py_call_any_store [of E oc parse ts c ts0] by simp
  next
    case (Some p)
    obtain r ts' where p: "p = (r, ts')" by (cases p)
    have "map_option fst (py_call E oc parse ts0 c) = Some r"
      using py_call_any_store [of E oc parse ts c ts0] by (simp add: Some p)
    then show ?thesis
      by (auto simp: Some p Cons.IH [of ts', symmetric] option.map_comp comp_def case_prod_beta split: option.splits)
  qed
qed simp

text \<open>C5: calls of the module do not influence each other. In any series of calls, each returns what it
  would return as the only call of a fresh process, errors and panics included, and the series gets
  to its end exactly when each of its calls returns; it ends earlier only with a call whose hook
  panics, which ends the process.\<close>

theorem session_independent:
  "map_option fst (session E oc parse ts cs) =
     those (until_abort (map (\<lambda>c. map_option fst (py_call E oc parse empty_store c)) cs))"
  by (rule session_results)

section \<open>Errors\<close>

abbreviation known_codes :: "string list" where
  "known_codes \<equiv> [''E001'', ''E002'', ''E003'', ''E004'', ''E005'', ''E006'', ''E007'',
     ''E501'', ''E502'', ''E503'', ''E504'', ''E505'']"

definition coded :: "string \<Rightarrow> bool" where
  "coded msg \<longleftrightarrow> (\<exists>code \<in> set known_codes. take 6 msg = code @ '': '')"

lemma coded_elf: "coded (show_elf_error e)"
  by (cases e) (simp_all add: coded_def)

lemma coded_vcpu: "coded (show_vcpu_error e)"
  by (cases e) (simp_all add: coded_def)

lemma to_err_Err: "to_err r = Err msg \<Longrightarrow> coded msg"
  by (cases r) (auto simp: coded_vcpu)

lemma vcpu_stage_Err: "vcpu_stage m = Err msg \<Longrightarrow> coded msg"
  by (auto simp: vcpu_stage_def r_bind_eq_Err dest: to_err_Err)

lemma prepare_Err: "prepare_vcpu E oc le d = Err msg \<Longrightarrow> coded msg"
  by (auto simp: prepare_vcpu_def r_bind_eq_Err dest: to_err_Err vcpu_stage_Err)

lemma guest_outcome_Err: "guest_outcome E e uc ucs = Err msg \<Longrightarrow> coded msg"
  unfolding guest_outcome_run by (auto split: result.splits dest: to_err_Err)

lemma py_call_Err:
  assumes "py_call E oc parse ts c = Some (Err msg, ts')"
  shows "coded msg"
proof (cases c)
  case (CallRunElf img t)
  then have "run_spec E oc parse img (timeout_arg t) (Err msg)"
    using assms run_elf_spec [of E oc parse img "timeout_arg t" ts] by auto
  moreover have "prepared_engine E oc le = Err m \<Longrightarrow> coded m" for le m
    using prepare_Err prepared_Err by blast
  ultimately show ?thesis
    by (auto simp: run_spec_def coded_elf split: result.splits dest: guest_outcome_Err [OF sym])
next
  case (CallParseElf img)
  then show ?thesis
    using assms by (cases "load_elf oc parse img") (auto simp: parse_elf_def coded_elf)
qed

text \<open>C19: every \<open>ValueError\<close> the module raises, from either function and at any stage, starts with one of the
  twelve stable codes, a colon and a space.\<close>

theorem module_error_codes:
  assumes "py_call E oc parse ts c = Some (Err msg, ts')"
  shows "\<exists>code \<in> {''E001'', ''E002'', ''E003'', ''E004'', ''E005'', ''E006'', ''E007'',
     ''E501'', ''E502'', ''E503'', ''E504'', ''E505''}. take 6 msg = code @ '': ''"
  using py_call_Err [OF assms] by (simp add: coded_def)


section \<open>Panics\<close>

text \<open>The set-up of an image whose segments are not empty and end a page or more below the top of the
  address space never panics.\<close>

lemma prepared_no_panic:
  assumes "mem_law E byte_at" and "regs_law E byte_at" and "e_new E = Inr uc0"
    and "e_hook_syscall E uc0 = (Inr (), uc1)" and "byte_at uc1 = (\<lambda>_. None)"
    and "load_elf oc' parse img = Ok le" and "\<forall>seg \<in> set (le_segments le). seg_placed seg"
  shows "prepared_engine E oc le \<noteq> Panic p"
proof (cases "ranges_disjoint (map seg_claim (le_segments le)) \<and>
    (\<forall>seg \<in> set (le_segments le). claim_range seg \<inter> addr_range STACK_BASE STACK_SIZE = {})")
  case True
  obtain v where "prepare_vcpu E oc le dispatch_new = Ok v"
    using prepare_outcome [OF assms(1,2,6,3-5,7), of oc dispatch_new] True by blast
  then show ?thesis using prepared_Panic [of E oc le dispatch_new p] by simp
next
  case False
  obtain b where "prepare_vcpu E oc le dispatch_new = Err (show_vcpu_error (Map b ''guest address space overlap''))"
    using prepare_overlap [OF assms(1,6,3-5,7) False, of oc dispatch_new] by blast
  then show ?thesis using prepared_Panic [of E oc le dispatch_new p] by simp
qed

lemma guest_outcome_Panic:
  assumes "guest_last E uc1 = Some (e, uc2)"
  shows "guest_outcome E e uc2 ucs = Panic p \<longleftrightarrow>
     p = Aborted CapacityOverflow \<and> e_advance E uc1 = (EvSyscall, uc2) \<and> call_panics E uc2"
  using assms
  by (auto simp: guest_last_def guest_outcome_def Let_def split: prod.splits uc_event.splits option.splits if_splits)

lemma run_spec_Panic:
  assumes "load_elf oc parse img = Ok le" and "\<And>p. prepared_engine E oc le \<noteq> Panic p"
  shows "run_spec E oc parse img t (Panic p) \<longleftrightarrow>
     p = Aborted CapacityOverflow \<and>
     (\<exists>uc ucs uc1 uc2. prepared_engine E oc le = Ok uc \<and> guest_path E (engine_start E uc t) ucs uc1 \<and>
        e_advance E uc1 = (EvSyscall, uc2) \<and> call_panics E uc2)"
proof (cases "prepared_engine E oc le")
  case (Ok uc)
  have "run_spec E oc parse img t (Panic p) \<longleftrightarrow>
      (\<exists>ucs uc1 e uc2. guest_path E (engine_start E uc t) ucs uc1 \<and> guest_last E uc1 = Some (e, uc2) \<and>
         guest_outcome E e uc2 ucs = Panic p)"
    unfolding run_spec_def assms(1) Ok result.case by metis
  also have "\<dots> \<longleftrightarrow> p = Aborted CapacityOverflow \<and> (\<exists>ucs uc1 uc2. guest_path E (engine_start E uc t) ucs uc1 \<and>
        e_advance E uc1 = (EvSyscall, uc2) \<and> call_panics E uc2)"
  proof -
    have "guest_last E uc1 = Some (EmuPanic CapacityOverflow, uc2)"
      if "e_advance E uc1 = (EvSyscall, uc2)" "call_panics E uc2" for uc1 uc2
      using that by (simp add: guest_last_def)
    then show ?thesis using guest_outcome_Panic by metis
  qed
  finally show ?thesis using Ok by auto
qed (use assms in \<open>simp_all add: run_spec_def\<close>)

text \<open>C4: for an accepted image whose segments are not empty and end a page or more below the top of the
  address space, on a fresh engine, a guest can make the host panic, and with it end the process, in one way
  only: by a \<open>write\<close> to stdout or stderr whose count is above \<open>isize::MAX\<close>; and every such call it
  gets to does. No other register contents, no memory
  access and no sequence of calls panics, with overflow checks or without.\<close>

theorem host_panics_only_by_count:
  assumes "mem_law E byte_at" and "regs_law E byte_at" and "e_new E = Inr uc0"
    and "e_hook_syscall E uc0 = (Inr (), uc1)" and "byte_at uc1 = (\<lambda>_. None)"
    and "load_elf oc parse img = Ok le" and "\<forall>seg \<in> set (le_segments le). seg_placed seg"
  shows "(\<exists>ts'. run_elf E oc parse img t ts = Some (Panic p, ts')) \<longleftrightarrow>
     p = Aborted CapacityOverflow \<and>
     (\<exists>uc ucs uc1 uc2. prepared_engine E oc le = Ok uc \<and> guest_path E (engine_start E uc t) ucs uc1 \<and>
        e_advance E uc1 = (EvSyscall, uc2) \<and> call_panics E uc2)"
  unfolding run_elf_spec by (rule run_spec_Panic [OF assms(6) prepared_no_panic [OF assms]])

section \<open>Witnesses\<close>

theorem module_error_codes_witness:
  "\<exists>msg ts'. py_call (ram_engine []) True (sample_parse []) empty_store (CallParseElf []) = Some (Err msg, ts') \<and>
     take 6 msg = ''E001: ''"
proof -
  have call: "py_call (ram_engine []) True (sample_parse []) empty_store (CallParseElf []) =
      Some (Err ''E001: not an ELF file (bad magic)'', empty_store)"
    by (simp add: parse_elf_def load_elf_def has_magic_def)
  show ?thesis using module_error_codes [OF call] call by simp
qed

lemma two_image_engine:
  obtains uc where "prepared_engine (ram_engine sc) oc two_image = Ok uc" "ram_script uc = sc"
proof -
  obtain v where v: "prepare_vcpu (ram_engine sc) oc two_image dispatch_new = Ok v"
    using prepare_outcome [OF ram_mem_law [of sc] ram_regs_law two_image_loads ram_fresh two_image_placed
        two_image_disjoint, of oc dispatch_new] by blast
  then show ?thesis using prepare_script [OF v] that by (auto simp: prepared_engine_def)
qed

text \<open>A guest that makes one system call, an unknown one, and then loops.\<close>

theorem run_elf_never_returns_iff_witness:
  "run_elf (ram_engine [([(RAX, 0)], EvSyscall), ([], EvSpin)]) True (sample_parse (sample_headers 0x402000))
     sample_bytes 0 empty_store = None"
proof -
  let ?sc = "[([(RAX, 0)], EvSyscall), ([], EvSpin)] :: ((reg \<times> u64) list \<times> uc_event) list"
  let ?E = "ram_engine ?sc"
  obtain uc where uc: "prepared_engine ?E True two_image = Ok uc" "ram_script uc = ?sc" by (rule two_image_engine)
  let ?uc1 = "snd (ram_advance (engine_start ?E uc 0))"
  have adv: "e_advance ?E (engine_start ?E uc 0) = (EvSyscall, ?uc1)"
    by (simp add: engine_start_def ram_advance_def uc(2))
  have quiet: "\<not> call_panics ?E ?uc1"
    by (simp add: call_panics_def Let_def hook_regs_def reg_or_0_def engine_start_def ram_advance_def uc(2) u64_as_i64_def)
  have spin: "fst (e_advance ?E (call_next ?E ?uc1)) = EvSpin"
    by (simp add: call_next_def call_effect_def Let_def hook_regs_def reg_or_0_def engine_start_def ram_advance_def uc(2)
        u64_as_i64_def hook_return_def)
  have "guest_path ?E (engine_start ?E uc 0) ([] @ [?uc1]) (call_next ?E ?uc1)"
    by (rule guest_path.call [OF guest_path.start adv quiet])
  with uc(1) spin show ?thesis
    unfolding run_elf_never_returns_iff using two_image_loads by blast
qed

text \<open>A guest that asks \<open>write\<close> for 2^63 bytes.\<close>

theorem host_panics_only_by_count_witness:
  "\<exists>ts'. run_elf (ram_engine [([(RAX, 1), (RDI, 1), (RDX, 0x8000000000000000)], EvSyscall)]) False
     (sample_parse (sample_headers 0x402000)) sample_bytes 0 empty_store = Some (Panic (Aborted CapacityOverflow), ts')"
proof -
  let ?sc = "[([(RAX, 1), (RDI, 1), (RDX, 0x8000000000000000)], EvSyscall)] :: ((reg \<times> u64) list \<times> uc_event) list"
  let ?E = "ram_engine ?sc"
  obtain uc where prep: "prepared_engine ?E False two_image = Ok uc" and uc: "ram_script uc = ?sc"
    by (rule two_image_engine)
  let ?uc1 = "engine_start ?E uc 0" and ?uc2 = "snd (ram_advance (engine_start ?E uc 0))"
  have adv: "e_advance ?E ?uc1 = (EvSyscall, ?uc2)" by (simp add: engine_start_def ram_advance_def uc)
  have "call_panics ?E ?uc2"
    by (simp add: call_panics_def Let_def hook_regs_def reg_or_0_def engine_start_def ram_advance_def uc
        u64_as_i64_def isize_max_def)
  then have "\<exists>uc ucs uc1 uc2. prepared_engine ?E False two_image = Ok uc \<and>
      guest_path ?E (engine_start ?E uc 0) ucs uc1 \<and> e_advance ?E uc1 = (EvSyscall, uc2) \<and> call_panics ?E uc2"
    by (intro exI conjI) (rule prep, rule guest_path.start, rule adv)
  with refl show ?thesis
    by (intro iffD2 [OF host_panics_only_by_count [OF ram_mem_law [of ?sc] ram_regs_law ram_fresh two_image_loads
          two_image_placed]] conjI)
qed

end
