(* ===== verification/Hello_Fixture.thy ===== *)
theory Hello_Fixture
  imports Elf_Loader
begin

text \<open>
  The image that the Rust unit tests include as bytes (\<open>tests/fixtures/hello_static\<close>, 8928 bytes), and
  what an ELF parser makes of its header. The parser is third-party code, so the tests hold for any
  \<open>parse\<close> that answers for these bytes as the ELF format says (\<open>reads_hello\<close>).
\<close>

definition hello_headers :: bytes where
  "hello_headers = [
    127, 69, 76, 70, 2, 1, 1, 0, 0, 0, 0, 0, 0, 0, 0, 0, 2, 0, 62, 0, 1, 0, 0, 0, 0, 16, 64, 0, 0, 0, 0,
    0, 64, 0, 0, 0, 0, 0, 0, 0, 32, 33, 0, 0, 0, 0, 0, 0, 0, 0, 0, 0, 64, 0, 56, 0, 4, 0, 64, 0, 7, 0,
    6, 0, 1, 0, 0, 0, 4, 0, 0, 0, 0, 0, 0, 0, 0, 0, 0, 0, 0, 0, 64, 0, 0, 0, 0, 0, 0, 0, 64, 0, 0, 0, 0,
    0, 68, 1, 0, 0, 0, 0, 0, 0, 68, 1, 0, 0, 0, 0, 0, 0, 0, 16, 0, 0, 0, 0, 0, 0, 1, 0, 0, 0, 5, 0, 0,
    0, 0, 16, 0, 0, 0, 0, 0, 0, 0, 16, 64, 0, 0, 0, 0, 0, 0, 16, 64, 0, 0, 0, 0, 0, 42, 0, 0, 0, 0, 0,
    0, 0, 42, 0, 0, 0, 0, 0, 0, 0, 0, 16, 0, 0, 0, 0, 0, 0, 1, 0, 0, 0, 4, 0, 0, 0, 0, 32, 0, 0, 0, 0,
    0, 0, 0, 32, 64, 0, 0, 0, 0, 0, 0, 32, 64, 0, 0, 0, 0, 0, 15, 0, 0, 0, 0, 0, 0, 0, 15, 0, 0, 0, 0,
    0, 0, 0, 0, 16, 0, 0, 0, 0, 0, 0, 4, 0, 0, 0, 4, 0, 0, 0, 32, 1, 0, 0, 0, 0, 0, 0, 32, 1, 64, 0, 0,
    0, 0, 0, 32, 1, 64, 0, 0, 0, 0, 0, 36, 0, 0, 0, 0, 0, 0, 0, 36, 0, 0, 0, 0, 0, 0, 0, 4, 0, 0, 0, 0,
    0, 0, 0, 4, 0, 0, 0, 20, 0, 0, 0, 3, 0, 0, 0, 71, 78, 85, 0, 44, 27, 214, 152, 222, 29, 65, 69, 233,
    237, 179, 33, 221, 43, 53, 237, 213, 91, 125, 30]"

definition hello_code :: bytes where
  "hello_code = [
    72, 199, 192, 1, 0, 0, 0, 72, 199, 199, 1, 0, 0, 0, 72, 141, 53, 235, 15, 0, 0, 72, 199, 194, 15, 0,
    0, 0, 15, 5, 72, 199, 192, 60, 0, 0, 0, 72, 49, 255, 15, 5]"

definition hello_text :: bytes where
  "hello_text = [
    104, 101, 108, 108, 111, 44, 32, 119, 105, 110, 86, 112, 119, 110, 10]"

definition hello_rest :: bytes where
  "hello_rest =
    replicate 25 0 @
    [
    1, 0, 0, 0, 4, 0, 241, 255, 0, 0, 0, 0, 0, 0, 0, 0, 0, 0, 0, 0, 0, 0, 0, 0, 12, 0, 0, 0, 0, 0, 3, 0,
    0, 32, 64, 0, 0, 0, 0, 0, 0, 0, 0, 0, 0, 0, 0, 0, 21, 0, 0, 0, 16, 0, 2, 0, 0, 16, 64, 0, 0, 0, 0,
    0, 0, 0, 0, 0, 0, 0, 0, 0, 16, 0, 0, 0, 16, 0, 3, 0, 15, 48, 64, 0, 0, 0, 0, 0, 0, 0, 0, 0, 0, 0, 0,
    0, 28, 0, 0, 0, 16, 0, 3, 0, 15, 48, 64, 0, 0, 0, 0, 0, 0, 0, 0, 0, 0, 0, 0, 0, 35, 0, 0, 0, 16, 0,
    3, 0, 16, 48, 64, 0, 0, 0, 0, 0, 0, 0, 0, 0, 0, 0, 0, 0, 0, 99, 99, 86, 103, 85, 98, 120, 48, 46,
    111, 0, 109, 115, 103, 0, 95, 95, 98, 115, 115, 95, 115, 116, 97, 114, 116, 0, 95, 101, 100, 97,
    116, 97, 0, 95, 101, 110, 100, 0, 0, 46, 115, 121, 109, 116, 97, 98, 0, 46, 115, 116, 114, 116, 97,
    98, 0, 46, 115, 104, 115, 116, 114, 116, 97, 98, 0, 46, 110, 111, 116, 101, 46, 103, 110, 117, 46,
    98, 117, 105, 108, 100, 45, 105, 100, 0, 46, 116, 101, 120, 116, 0, 46, 114, 111, 100, 97, 116, 97] @
    replicate 69 0 @
    [
    27, 0, 0, 0, 7, 0, 0, 0, 2, 0, 0, 0, 0, 0, 0, 0, 32, 1, 64, 0, 0, 0, 0, 0, 32, 1, 0, 0, 0, 0, 0, 0,
    36, 0, 0, 0, 0, 0, 0, 0, 0, 0, 0, 0, 0, 0, 0, 0, 4, 0, 0, 0, 0, 0, 0, 0, 0, 0, 0, 0, 0, 0, 0, 0, 46,
    0, 0, 0, 1, 0, 0, 0, 6, 0, 0, 0, 0, 0, 0, 0, 0, 16, 64, 0, 0, 0, 0, 0, 0, 16, 0, 0, 0, 0, 0, 0, 42,
    0, 0, 0, 0, 0, 0, 0, 0, 0, 0, 0, 0, 0, 0, 0, 1, 0, 0, 0, 0, 0, 0, 0, 0, 0, 0, 0, 0, 0, 0, 0, 52, 0,
    0, 0, 1, 0, 0, 0, 2, 0, 0, 0, 0, 0, 0, 0, 0, 32, 64, 0, 0, 0, 0, 0, 0, 32, 0, 0, 0, 0, 0, 0, 15, 0,
    0, 0, 0, 0, 0, 0, 0, 0, 0, 0, 0, 0, 0, 0, 1, 0, 0, 0, 0, 0, 0, 0, 0, 0, 0, 0, 0, 0, 0, 0, 1, 0, 0,
    0, 2, 0, 0, 0, 0, 0, 0, 0, 0, 0, 0, 0, 0, 0, 0, 0, 0, 0, 0, 0, 16, 32, 0, 0, 0, 0, 0, 0, 168, 0, 0,
    0, 0, 0, 0, 0, 5, 0, 0, 0, 3, 0, 0, 0, 8, 0, 0, 0, 0, 0, 0, 0, 24, 0, 0, 0, 0, 0, 0, 0, 9, 0, 0, 0,
    3, 0, 0, 0, 0, 0, 0, 0, 0, 0, 0, 0, 0, 0, 0, 0, 0, 0, 0, 0, 184, 32, 0, 0, 0, 0, 0, 0, 40, 0, 0, 0,
    0, 0, 0, 0, 0, 0, 0, 0, 0, 0, 0, 0, 1, 0, 0, 0, 0, 0, 0, 0, 0, 0, 0, 0, 0, 0, 0, 0, 17, 0, 0, 0, 3,
    0, 0, 0, 0, 0, 0, 0, 0, 0, 0, 0, 0, 0, 0, 0, 0, 0, 0, 0, 224, 32, 0, 0, 0, 0, 0, 0, 60, 0, 0, 0, 0,
    0, 0, 0, 0, 0, 0, 0, 0, 0, 0, 0, 1] @
    replicate 15 0"

definition hello_static :: bytes where
  "hello_static =
     hello_headers @ replicate 3772 0 @ hello_code @ replicate 4054 0 @ hello_text @ hello_rest"

definition hello_phdr :: "u32 \<Rightarrow> u32 \<Rightarrow> u64 \<Rightarrow> u64 \<Rightarrow> u64 \<Rightarrow> u64 \<Rightarrow> program_header" where
  "hello_phdr type flags offset vaddr sz align =
     \<lparr>p_type = type, p_flags = flags, p_offset = offset, p_vaddr = vaddr, p_filesz = sz, p_memsz = sz, p_align = align\<rparr>"

definition hello_elf :: goblin_elf where
  "hello_elf =
     \<lparr>is_64 = True, e_machine = 62, e_type = 2, e_entry = 0x401000,
      program_headers =
        [hello_phdr 1 4 0 0x400000 0x144 0x1000, hello_phdr 1 5 0x1000 0x401000 0x2a 0x1000,
         hello_phdr 1 4 0x2000 0x402000 0xf 0x1000, hello_phdr 4 4 0x120 0x400120 0x24 4]\<rparr>"

text \<open>The fixture with the type \<open>ET_DYN\<close> written over its own.\<close>

definition hello_pie :: bytes where
  "hello_pie = take 16 hello_static @ [3, 0] @ drop 18 hello_static"

definition reads_hello :: "(bytes \<Rightarrow> string + goblin_elf) \<Rightarrow> bool" where
  "reads_hello parse \<longleftrightarrow>
     parse hello_static = Inr hello_elf \<and> parse hello_pie = Inr (hello_elf\<lparr>e_type := ET_DYN\<rparr>) \<and>
     (\<exists>msg. parse (take 40 hello_static) = Inl msg)"

lemma hello_lengths [simp]:
  "length hello_headers = 324" "length hello_code = 42" "length hello_text = 15" "length hello_rest = 721"
  by (simp_all add: hello_headers_def hello_code_def hello_text_def hello_rest_def)

lemma hello_length [simp]: "length hello_static = 8928"
  by (simp add: hello_static_def)

lemma hello_magic: "has_magic hello_static" "has_magic (take 40 hello_static)" "has_magic hello_pie"
  by (simp_all add: has_magic_def hello_static_def hello_headers_def hello_pie_def)

end
