(* ===== verification/Hello_Run.thy ===== *)
theory Hello_Run
  imports Run_Elf Hello_Fixture
begin

text \<open>
  The fixture of the unit tests through the whole program: it is accepted, its three segments fall on
  three pages clear of the stack, its code page is executable, and on an engine that executes 42 bytes of
  mapped, executable code as the architecture says (\<open>runs_hello\<close>) the guest writes its text and exits.
\<close>

section \<open>Loading the fixture\<close>

abbreviation hello_image :: loaded_elf where
  "hello_image \<equiv> elf_image hello_static hello_elf"

lemma hello_pt_loads:
  "pt_loads hello_elf =
     [hello_phdr 1 4 0 0x400000 0x144 0x1000, hello_phdr 1 5 0x1000 0x401000 0x2a 0x1000,
      hello_phdr 1 4 0x2000 0x402000 0xf 0x1000]"
  by (simp add: hello_elf_def pt_loads_def hello_phdr_def)

lemma hello_accepted: "parse hello_static = Inr hello_elf \<Longrightarrow> elf_accepts parse hello_static hello_elf"
  unfolding elf_accepts_def hello_pt_loads
  by (simp add: hello_magic hello_elf_def hello_phdr_def phdr_fits_def phdrs_disjoint_def
      no_wrap_def isize_max_def addr_range_disjoint)

lemma hello_loads: "parse hello_static = Inr hello_elf \<Longrightarrow> load_elf oc parse hello_static = Ok hello_image"
  using hello_accepted load_elf_Ok_char by blast

definition hello_segment :: "u64 \<Rightarrow> bytes \<Rightarrow> u32 \<Rightarrow> segment" where
  "hello_segment vaddr data flags =
     \<lparr>s_vaddr = vaddr, s_memsz = of_nat (length data), s_filesz = of_nat (length data), s_data = data,
      s_flags = flags, s_align = 0x1000\<rparr>"

lemma hello_slices:
  "sub_slice 0 324 hello_static = hello_headers" "sub_slice 4096 4138 hello_static = hello_code"
  "sub_slice 8192 8207 hello_static = hello_text"
  by (simp_all add: sub_slice_def hello_static_def)

lemma hello_segments:
  "le_segments hello_image =
     [hello_segment 0x400000 hello_headers 4, hello_segment 0x401000 hello_code 5, hello_segment 0x402000 hello_text 4]"
  by (simp add: elf_image_def hello_pt_loads hello_phdr_def phdr_segment_def hello_slices hello_segment_def)

lemma hello_placed: "\<forall>seg \<in> set (le_segments hello_image). seg_placed seg"
  by (simp add: hello_segments seg_placed_def hello_segment_def)

lemma hello_claims:
  "seg_claim (hello_segment 0x400000 hello_headers 4) = (0x400000, 0x1000, 4)"
  "seg_claim (hello_segment 0x401000 hello_code 5) = (0x401000, 0x1000, 5)"
  "seg_claim (hello_segment 0x402000 hello_text 4) = (0x402000, 0x1000, 4)"
  by (simp_all add: seg_claim_def page_floor_def hello_segment_def PAGE_SIZE_def)

lemma hello_disjoint:
  "ranges_disjoint (map seg_claim (le_segments hello_image))"
  "\<forall>seg \<in> set (le_segments hello_image). claim_range seg \<inter> addr_range STACK_BASE STACK_SIZE = {}"
  by (simp_all add: hello_segments hello_claims ranges_disjoint_def addr_range_disjoint STACK_BASE_def STACK_SIZE_def)

lemma hello_bytes:
  "i < 42 \<Longrightarrow> image_byte f (le_segments hello_image) (0x401000 + i) = Some (hello_code ! i)"
  "i < 15 \<Longrightarrow> image_byte f (le_segments hello_image) (0x402000 + i) = Some (hello_text ! i)"
  by (simp_all add: image_byte_def hello_segments hello_claims addr_range_mem) (simp_all add: hello_segment_def)

section \<open>Running the fixture\<close>

text \<open>The 42 bytes of code are \<open>mov rax, 1; mov rdi, 1; lea rsi, [rip + 0xfeb]; mov rdx, 15; syscall\<close> and
  \<open>mov rax, 60; xor rdi, rdi; syscall\<close>. When they are mapped, on executable pages, in an engine that
  has been set up and not run, and the time limit \<open>t\<close> does not stop the guest in these nine
  instructions (0 is no limit), it traps twice, with these registers, and has written no memory
  before the first trap.\<close>

definition runs_hello :: "'uc engine \<Rightarrow> ('uc \<Rightarrow> nat \<Rightarrow> u8 option) \<Rightarrow> ('uc \<Rightarrow> nat \<Rightarrow> prot) \<Rightarrow> u64 \<Rightarrow> bool" where
  "runs_hello E byte_at prot_at t \<longleftrightarrow>
     (\<forall>uc. set_up E uc \<and> e_reg_read E uc RIP = Inr 0x401000 \<and>
        (\<forall>i < 42. byte_at uc (0x401000 + i) = Some (hello_code ! i) \<and> can_exec (prot_at uc (0x401000 + i))) \<longrightarrow>
        (\<exists>uc1 uc2. e_advance E (e_start E uc 0x401000 (- 1) t 0) = (EvSyscall, uc1) \<and>
           e_reg_read E uc1 RAX = Inr 1 \<and> e_reg_read E uc1 RDI = Inr 1 \<and>
           e_reg_read E uc1 RSI = Inr 0x402000 \<and> e_reg_read E uc1 RDX = Inr 15 \<and> byte_at uc1 = byte_at uc \<and>
           e_advance E (snd (e_reg_write E uc1 RAX 15)) = (EvSyscall, uc2) \<and>
           e_reg_read E uc2 RAX = Inr 60 \<and> e_reg_read E uc2 RDI = Inr 0))"

text \<open>An engine that is ready to run the fixture.\<close>

definition hello_ready :: "'uc engine \<Rightarrow> ('uc \<Rightarrow> nat \<Rightarrow> u8 option) \<Rightarrow> ('uc \<Rightarrow> nat \<Rightarrow> prot) \<Rightarrow> 'uc \<Rightarrow> bool" where
  "hello_ready E byte_at prot_at uc \<longleftrightarrow>
     set_up E uc \<and> e_reg_read E uc RIP = Inr 0x401000 \<and>
     (\<forall>i < 42. byte_at uc (0x401000 + i) = Some (hello_code ! i) \<and> can_exec (prot_at uc (0x401000 + i))) \<and>
     (\<forall>i < 15. byte_at uc (0x402000 + i) = Some (hello_text ! i))"

lemma reg_or_0_Inr: "e_reg_read E uc r = Inr x \<Longrightarrow> reg_or_0 E uc r = x"
  by (simp add: reg_or_0_def)

lemma hello_room: "\<forall>seg \<in> set (le_segments hello_image). seg_room seg"
  by (simp add: hello_segments seg_room_def hello_segment_def)

lemma hello_executable:
  assumes "prot_law E prot_at" and "prepare_vcpu E oc hello_image d = Ok v" and "v_uc v = Some uc" and "i < 42"
  shows "can_exec (prot_at uc (0x401000 + i))"
proof -
  have seg: "hello_segment 0x401000 hello_code 5 \<in> set (le_segments hello_image)" by (simp add: hello_segments)
  have x: "0x401000 + i \<in> claim_range (hello_segment 0x401000 hello_code 5)"
    using assms(4) by (simp add: hello_claims addr_range_mem)
  have "prot_at uc (0x401000 + i) = seg_prot (s_flags (hello_segment 0x401000 hello_code 5))"
    using prepare_engine [OF assms(2), of prot_at] assms(1,3) hello_room hello_disjoint seg x by auto
  then show ?thesis by (simp add: seg_prot_bits hello_segment_def)
qed

lemma hello_prepared:
  assumes "mem_law E byte_at" and "regs_law E byte_at" and "prot_law E prot_at"
    and "e_new E = Inr uc0" and "e_hook_syscall E uc0 = (Inr (), uc1)" and "byte_at uc1 = (\<lambda>_. None)"
  obtains v uc where "prepare_vcpu E oc hello_image d = Ok v" "v_uc v = Some uc" "v_hook v = Some d"
    "v_shared v = shared_new" "hello_ready E byte_at prot_at uc"
proof -
  obtain v uc where v: "prepare_vcpu E oc hello_image d = Ok v" "v_uc v = Some uc"
      "vcpu_reg E v RIP = Ok (le_entry hello_image)"
    and bytes: "\<forall>x. byte_at uc x =
      (if x \<in> addr_range STACK_BASE STACK_SIZE then Some 0 else image_byte (\<lambda>_. None) (le_segments hello_image) x)"
    using prepare_outcome [OF assms(1,2) hello_loads [of "\<lambda>_. Inr hello_elf"] assms(4-6) hello_placed hello_disjoint,
        of oc d] by auto
  have rip: "e_reg_read E uc RIP = Inr 0x401000"
    using v(2,3) by (cases "e_reg_read E uc RIP") (simp_all add: vcpu_reg_def elf_image_def hello_elf_def)
  have low: "0x401000 + i \<notin> addr_range STACK_BASE STACK_SIZE" "0x402000 + i \<notin> addr_range STACK_BASE STACK_SIZE"
    if "i < 42" for i using that by (simp_all add: addr_range_mem STACK_BASE_def STACK_SIZE_def)
  have "set_up E uc" using prepare_set_up [OF v(1)] v(2) by simp
  then have "hello_ready E byte_at prot_at uc"
    using low hello_executable [OF assms(3) v(1,2)] by (simp add: hello_ready_def rip bytes hello_bytes)
  then show ?thesis using that [OF v(1,2)] prepare_frame [OF v(1)] by simp
qed

text \<open>The two trapped calls.\<close>

lemma hello_write_hook:
  assumes "mem_law E byte_at" and "\<forall>i < 15. byte_at uc (0x402000 + i) = Some (hello_text ! i)"
    and "e_reg_read E uc RAX = Inr 1" "e_reg_read E uc RDI = Inr 1" "e_reg_read E uc RSI = Inr 0x402000"
      "e_reg_read E uc RDX = Inr 15"
  shows "syscall_hook E oc (std_table oc s) uc sh ts =
     (None, snd (e_reg_write E uc RAX 15), sh\<lparr>sh_output := sh_output sh @ hello_text\<rparr>,
      hook_record (hook_regs E uc) ts s ''write'' (Return 15))"
proof -
  note regs = assms(3-6) [THEN reg_or_0_Inr]
  have "\<forall>i < 15. byte_at uc (unat (0x402000 :: u64) + i) \<noteq> None" using assms(2) by simp
  then obtain f where f: "e_mem_read E uc 0x402000 15 = Inr f" "\<forall>i < 15. byte_at uc (0x402000 + i) = Some (f i)"
    using mem_law_read [OF assms(1), of "0x402000" 15 uc] by auto
  have "map f [0..<15] = hello_text" using f(2) assms(2) by (intro nth_equalityI) simp_all
  then have "ug_read E uc 0x402000 15 = Ok hello_text" using f(1) by (simp add: ug_read_eq_Ok isize_max_def)
  then show ?thesis
    unfolding syscall_hook_std
    by (simp add: hook_spec_def Let_def hook_regs_def regs u64_as_i64_def hook_return_def i64_as_u64_def)
qed

lemma hello_exit_hook:
  assumes "e_reg_read E uc RAX = Inr 60" "e_reg_read E uc RDI = Inr 0"
  shows "syscall_hook E oc (std_table oc s) uc sh ts =
     (None, hook_stop E uc, sh\<lparr>sh_exit := Some (Exit 0)\<rparr>,
      hook_record (hook_regs E uc) ts s ''exit'' (OExit (Exit 0)))"
  using assms [THEN reg_or_0_Inr] unfolding syscall_hook_std
  by (simp add: hook_spec_def Let_def hook_regs_def u64_as_i64_def)

lemma hello_vcpu_run:
  assumes "mem_law E byte_at" and "stop_law E" and "runs_hello E byte_at prot_at t"
    and v: "v_uc v = Some uc" "v_hook v = Some (std_table oc s)" and ready: "hello_ready E byte_at prot_at uc"
    and "ts_buf ts s = []"
  shows "\<exists>v' ts'. vcpu_run E oc v ts t = Some (Ok (Exit 0), v', ts') \<and>
     vcpu_output v' = vcpu_output v @ hello_text \<and>
     map tr_name (ts_buf ts' s) = [''write'', ''exit''] \<and> map tr_ret (ts_buf ts' s) = [15, 0] \<and>
     map tr_seq (ts_buf ts' s) = [0, 1]"
proof -
  obtain uc1 uc2 where adv: "e_advance E (e_start E uc 0x401000 (- 1) t 0) = (EvSyscall, uc1)"
      "e_advance E (snd (e_reg_write E uc1 RAX 15)) = (EvSyscall, uc2)"
    and regs1: "e_reg_read E uc1 RAX = Inr 1" "e_reg_read E uc1 RDI = Inr 1" "e_reg_read E uc1 RSI = Inr 0x402000"
      "e_reg_read E uc1 RDX = Inr 15"
    and regs2: "e_reg_read E uc2 RAX = Inr 60" "e_reg_read E uc2 RDI = Inr 0" and mem: "byte_at uc1 = byte_at uc"
    using assms(3) ready unfolding runs_hello_def hello_ready_def by blast
  have msg: "\<forall>i < 15. byte_at uc1 (0x402000 + i) = Some (hello_text ! i)" using ready by (simp add: mem hello_ready_def)
  have rip: "e_reg_read E uc RIP = Inr 0x401000" using ready by (simp add: hello_ready_def)
  note hook1 = hello_write_hook [OF assms(1) msg regs1, of oc s]
    and hook2 = hello_exit_hook [OF regs2, of oc s]
  have start: "run_start E v uc t ts = (e_start E uc 0x401000 (- 1) t 0, v_shared v, ts)"
    by (simp add: reg_or_0_Inr [OF rip])
  have steps: "emu_steps E oc (std_table oc s) (run_start E v uc t ts)
      (snd (e_reg_write E uc1 RAX 15), (v_shared v)\<lparr>sh_output := sh_output (v_shared v) @ hello_text\<rparr>,
       hook_record (hook_regs E uc1) ts s ''write'' (Return 15))"
    unfolding start using emu_step.trap [OF adv(1) hook1] by (rule r_into_rtranclp)
  from run_stops [OF assms(2) v(1,2) steps adv(2) hook2] show ?thesis
    using assms(7) by (auto simp: run_outcome_def vcpu_output_def hook_record_def sink_record_buf outcome_ret_def)
qed

end
