(* ===== verification/Vcpu_Api.thy ===== *)
theory Vcpu_Api
  imports Vcpu_Run
begin

text \<open>
  The virtual CPU as its clients see it: a step relation \<open>api_step\<close> for the public methods of
  \<open>Vcpu\<close> (\<open>cpu/unicorn_engine.rs\<close>), called in any order, for any arguments and whatever they
  return. What every reachable state keeps (\<open>api_ok\<close>): the bytes the engine has mapped are those of the
  recorded regions, which do not overlap and are claimed in the memory map. The map may claim more,
  as a mapping the engine refuses leaves its claim behind; so this is weaker than the invariant
  \<open>vcpu_inv\<close> of \<open>Vcpu_Memory\<close>, and it needs no condition on the arguments. The theory also says what is
  left of the methods once the engine has been dropped.
\<close>

section \<open>Guest memory across a run\<close>

lemma hook_keeps_mem:
  assumes "table_ok d" and "syscall_hook E oc d uc sh ts = (p, uc', sh', ts')"
    and "regs_law E byte_at" and "exec_law E byte_at"
  shows "dom (byte_at uc') = dom (byte_at uc)"
proof -
  obtain res ctx ts1 where call: "dispatch_call oc d (hook_ctx E uc) (hook_regs E uc) ts = (res, ctx, ts1)"
    using prod_cases3 by blast
  have "ctx_mem ctx = unicorn_box E uc"
    using syscall_contract.mem_same [OF dispatch_contract [OF assms(1), of oc ts], of "hook_ctx E uc" "hook_regs E uc"]
    by (simp add: dispatch_handle_def call)
  then have "uc' = uc \<or> (\<exists>x. uc' = snd (e_reg_write E uc RAX x)) \<or> uc' = snd (e_emu_stop E uc)"
    using assms(2) unfolding syscall_hook_def call
    by (cases res) (auto simp: hook_apply_def Let_def split: prod.splits syscall_outcome.splits)
  moreover have "dom (byte_at (snd (e_emu_stop E uc))) = dom (byte_at uc)"
    using assms(4) by (simp add: exec_law_def)
  ultimately show ?thesis using regs_lawD(4) [OF assms(3)] by metis
qed

lemma steps_keep_mem:
  assumes "emu_steps E oc d st st'" and "table_ok d" and "regs_law E byte_at" and "exec_law E byte_at"
  shows "dom (byte_at (fst st')) = dom (byte_at (fst st))"
  using assms(1)
proof (induction rule: rtranclp_induct)
  case (step y z)
  from step(2) show ?case
  proof cases
    case (trap uc uc1 sh ts uc2 sh2 ts2)
    have "dom (byte_at uc1) = dom (byte_at uc)"
      using assms(4) trap(3) unfolding exec_law_def by (metis snd_conv)
    then show ?thesis using hook_keeps_mem [OF assms(2) trap(4) assms(3,4)] step(3) trap(1,2) by simp
  qed
qed simp

lemma last_keeps_mem:
  assumes "emu_last E oc d st = Some (e, uc', sh', ts')"
    and "table_ok d" and "regs_law E byte_at" and "exec_law E byte_at"
  shows "dom (byte_at uc') = dom (byte_at (fst st))"
proof -
  obtain uc sh ts where st: "st = (uc, sh, ts)" by (cases st)
  obtain ev uc1 where adv: "e_advance E uc = (ev, uc1)" by (cases "e_advance E uc")
  have "dom (byte_at uc1) = dom (byte_at uc)"
    using assms(4) adv unfolding exec_law_def by (metis snd_conv)
  then show ?thesis
    using assms(1) adv hook_keeps_mem [OF assms(2) _ assms(3,4)]
    by (auto simp: st emu_last_def split: uc_event.splits prod.splits option.splits)
qed

section \<open>The public methods as steps\<close>

text \<open>Any method, any arguments, any result, a panic included. The only values that are not
  arbitrary are the images: a \<open>LoadedElf\<close> is what \<open>load_elf\<close> returns, in either build.\<close>

inductive api_step :: "'uc engine \<Rightarrow> bool \<Rightarrow> 'uc vcpu \<Rightarrow> 'uc vcpu \<Rightarrow> bool" for E oc where
  map_elf: "load_elf oc' parse img = Ok le \<Longrightarrow> map_elf E oc v le = (r, v') \<Longrightarrow> api_step E oc v v'"
| map_memory: "map_memory E oc v b s pr = (r, v') \<Longrightarrow> api_step E oc v v'"
| map_stack: "map_stack E oc v b s = (r, v') \<Longrightarrow> api_step E oc v v'"
| write_guest: "write_guest E v a d = (r, v') \<Longrightarrow> api_step E oc v v'"
| initial_state: "setup_initial_state E oc v entry stk = (r, v') \<Longrightarrow> api_step E oc v v'"
| set_reg: "vcpu_set_reg E v rg x = (r, v') \<Longrightarrow> api_step E oc v v'"
| run: "vcpu_run E oc v ts t = Some (r, v', ts') \<Longrightarrow> api_step E oc v v'"

text \<open>What stays, of a virtual CPU whose engine is in state \<open>uc\<close>.\<close>

definition in_regions :: "(u64 \<times> u64 \<times> u32) list \<Rightarrow> nat \<Rightarrow> bool" where
  "in_regions rs x \<longleftrightarrow> (\<exists>(b, s, f) \<in> set rs. x \<in> addr_range b s)"

definition recorded :: "('uc \<Rightarrow> nat \<Rightarrow> u8 option) \<Rightarrow> 'uc \<Rightarrow> 'uc vcpu \<Rightarrow> bool" where
  "recorded byte_at uc v \<longleftrightarrow>
     dom (byte_at uc) = {x. in_regions (v_regions v) x} \<and> ranges_disjoint (v_regions v) \<and>
     as_region ` set (v_regions v) \<subseteq> set (mm_regions (v_map v))"

definition api_ok :: "('uc \<Rightarrow> nat \<Rightarrow> u8 option) \<Rightarrow> 'uc dispatch \<Rightarrow> 'uc vcpu \<Rightarrow> bool" where
  "api_ok byte_at d v \<longleftrightarrow> v_hook v = Some d \<and> (\<exists>uc. v_uc v = Some uc \<and> recorded byte_at uc v)"

text \<open>A new engine state with the same mapped addresses changes nothing of this, nor do more claims.\<close>

lemma recorded_mono:
  "recorded byte_at uc v \<Longrightarrow> dom (byte_at uc') = dom (byte_at uc) \<Longrightarrow> v_regions v' = v_regions v \<Longrightarrow>
     set (mm_regions (v_map v)) \<subseteq> set (mm_regions (v_map v')) \<Longrightarrow> recorded byte_at uc' v'"
  by (auto simp: recorded_def)

lemma api_ok_uc:
  assumes "api_ok byte_at d v" and "v_uc v = Some uc" and "dom (byte_at uc') = dom (byte_at uc)"
  shows "api_ok byte_at d (v\<lparr>v_uc := Some uc'\<rparr>)" "api_ok byte_at d (v\<lparr>v_uc := Some uc', v_shared := sh\<rparr>)"
  using assms by (auto simp: api_ok_def elim: recorded_mono)

lemma in_regions_snoc: "in_regions (rs @ [(b, s, f)]) x \<longleftrightarrow> in_regions rs x \<or> x \<in> addr_range b s"
  by (auto simp: in_regions_def)

lemma ranges_disjoint_snoc:
  "ranges_disjoint (rs @ [(b, s, f)]) \<longleftrightarrow>
     ranges_disjoint rs \<and> (\<forall>x \<in> addr_range b s. \<not> in_regions rs x)"
  by (auto simp: ranges_disjoint_def sorted_wrt_append in_regions_def)

text \<open>A mapping the engine makes, once it is recorded.\<close>

lemma recorded_mapped:
  assumes "recorded byte_at uc v" and "\<forall>i < unat s. byte_at uc (unat b + i) = None"
    and "dom (byte_at uc') = dom (byte_at uc) \<union> addr_range b s"
    and "v_regions v' = v_regions v @ [(b, s, f)]" and "as_region (b, s, f) \<in> set (mm_regions (v_map v'))"
    and "set (mm_regions (v_map v)) \<subseteq> set (mm_regions (v_map v'))"
  shows "recorded byte_at uc' v'"
proof -
  have "x \<notin> dom (byte_at uc)" if "x \<in> addr_range b s" for x
    using assms(2) [rule_format, of "x - unat b"] that unfolding addr_range_mem by (auto simp: less_diff_conv2)
  then have "\<forall>x \<in> addr_range b s. \<not> in_regions (v_regions v) x" using assms(1) by (auto simp: recorded_def)
  then show ?thesis using assms by (auto simp: recorded_def in_regions_snoc ranges_disjoint_snoc)
qed

section \<open>Every method keeps it\<close>

lemma mm_insert_mono:
  assumes "mm_insert oc m b s p = (r, m')"
  shows "set (mm_regions m) \<subseteq> set (mm_regions m')"
    and "r = Ok () \<Longrightarrow> s \<noteq> 0 \<Longrightarrow> as_region (b, s, p) \<in> set (mm_regions m')"
  using assms
  by (auto simp: mm_insert_def as_region_def split: if_splits result.splits bool.splits)

lemma claim_and_map_any:
  assumes "map_law E byte_at" and "v_uc v = Some uc" and "claim_and_map E oc v uc b s f pr = (r, v1)"
  shows "v_regions v1 = v_regions v \<and> v_hook v1 = v_hook v \<and>
     set (mm_regions (v_map v)) \<subseteq> set (mm_regions (v_map v1)) \<and>
     (\<exists>uc1. v_uc v1 = Some uc1 \<and>
        (if is_Ok r then r = Ok uc1 \<and> as_region (b, s, f) \<in> set (mm_regions (v_map v1)) \<and>
           (\<forall>i < unat s. byte_at uc (unat b + i) = None) \<and>
           dom (byte_at uc1) = dom (byte_at uc) \<union> addr_range b s
         else byte_at uc1 = byte_at uc))"
proof -
  obtain q m where ins: "mm_insert oc (v_map v) b s f = (q, m)" by (cases "mm_insert oc (v_map v) b s f")
  obtain w uc1 where map: "e_mem_map E uc b s pr = (w, uc1)" by (cases "e_mem_map E uc b s pr")
  show ?thesis
  proof (cases q)
    case (Ok u)
    show ?thesis
    proof (cases w)
      case (Inl e)
      then show ?thesis
        using assms(2,3) Ok ins map map_lawD(1) [OF assms(1)] mm_insert_mono(1) [OF ins]
        by (auto simp: claim_and_map_def)
    next
      case (Inr u')
      then have m: "s \<noteq> 0 \<and> (\<forall>i < unat s. byte_at uc (unat b + i) = None) \<and>
          byte_at uc1 = upd_bytes (byte_at uc) (unat b) (replicate (unat s) 0)"
        using map_lawD(2) [OF assms(1)] map by blast
      then have "dom (byte_at uc1) = dom (byte_at uc) \<union> addr_range b s"
        by (simp add: dom_upd_bytes addr_range_def)
      moreover have "as_region (b, s, f) \<in> set (mm_regions m)" using mm_insert_mono(2) [OF ins] Ok m by simp
      moreover have "v1 = v\<lparr>v_map := m, v_uc := Some uc1\<rparr>" "r = result.Ok uc1"
        using assms(3) Ok Inr ins map by (simp_all add: claim_and_map_def)
      ultimately show ?thesis using m mm_insert_mono(1) [OF ins] by simp
    qed
  next
    case (Err e)
    then show ?thesis
      using assms(2,3) ins mm_insert_mono(1) [OF ins] by (auto simp: claim_and_map_def)
  next
    case (Panic p)
    then show ?thesis
      using assms(2,3) ins mm_insert_mono(1) [OF ins] by (auto simp: claim_and_map_def)
  qed
qed

lemma map_memory_keeps:
  assumes "map_law E byte_at" and "api_ok byte_at d v" and "map_memory E oc v b s pr = (r, v')"
  shows "api_ok byte_at d v'"
proof -
  obtain uc where uc: "v_uc v = Some uc" and rec: "recorded byte_at uc v" and hook: "v_hook v = Some d"
    using assms(2) by (auto simp: api_ok_def)
  obtain q v1 where claim: "claim_and_map E oc v uc b s 0 pr = (q, v1)" by fastforce
  note any = claim_and_map_any [OF assms(1) uc claim]
  then obtain uc1 where uc1: "v_uc v1 = Some uc1" by blast
  show ?thesis
  proof (cases "is_Ok q")
    case True
    then have v': "v' = v1\<lparr>v_regions := v_regions v @ [(b, s, 0)]\<rparr>"
      using assms(3) claim any by (cases q) (auto simp: map_memory_def uc)
    have "recorded byte_at uc1 v'"
      by (rule recorded_mapped [OF rec, of s b]) (use any uc1 True v' in auto)
    then show ?thesis using any uc1 hook by (simp add: api_ok_def v')
  next
    case False
    then have v': "v' = v1" using assms(3) claim by (cases q) (auto simp: map_memory_def uc)
    have "recorded byte_at uc1 v1" by (rule recorded_mono [OF rec]) (use any uc1 False in auto)
    then show ?thesis using any uc1 hook by (simp add: api_ok_def v')
  qed
qed

text \<open>The page range of a loaded segment, when it can be computed, covers the segment: no write of
  \<open>map_elf\<close> falls outside what it has just mapped.\<close>

lemma seg_pages_cover:
  assumes "segment_ok img seg" and "unat (s_memsz seg) \<le> isize_max" and "seg_pages oc seg = Ok (start, sz)"
  shows "start = page_floor (s_vaddr seg) \<and> unat (s_vaddr seg) + unat (s_memsz seg) \<le> unat start + unat sz"
proof (cases "seg_room seg")
  case True
  then show ?thesis
    using assms(3) seg_claim_range(2) [OF True] page_round_up [of "unat (s_vaddr seg) + unat (s_memsz seg)"]
    by (auto simp: seg_pages_eq seg_claim_def)
next
  case False
  have ok: "unat (s_vaddr seg) + unat (s_memsz seg) < 2 ^ 64" "s_filesz seg \<le> s_memsz seg"
    using assms(1) by (simp_all add: segment_ok_def no_wrap_def)
  then have top: "2 ^ 64 \<le> unat (s_vaddr seg) + unat (s_memsz seg) + 4096"
    using False by (auto simp: seg_room_def)
  from ok have u: "unat (s_vaddr seg + s_memsz seg) = unat (s_vaddr seg) + unat (s_memsz seg)"
      "unat (s_vaddr seg + s_filesz seg) \<le> unat (s_vaddr seg + s_memsz seg)"
    by (simp_all add: unat_add64 word_le_nat_alt)
  show ?thesis
  proof (cases oc)
    case True
    have "max (s_vaddr seg + s_memsz seg) (s_vaddr seg + s_filesz seg) = s_vaddr seg + s_memsz seg"
      using u by (intro max_absorb1) (simp add: word_le_nat_alt)
    moreover have "add64 True (s_vaddr seg + s_memsz seg) PAGE_SIZE = (Panic AddOverflow :: (vcpu_error, u64) result)"
      using top by (simp add: add64_def u)
    ultimately have "seg_pages True seg = Panic AddOverflow"
      using ok by (simp add: seg_pages_def Let_def add64_exact word_le_nat_alt)
    then show ?thesis using assms(3) True by simp
  next
    case False
    then have False': "seg_pages False seg = Ok (start, sz)" using assms(3) by simp
    from seg_pages_top_release [OF ok assms(2) top] this
    show ?thesis using page_round_up [of "unat (s_vaddr seg) + unat (s_memsz seg)"] by auto
  qed
qed

lemma segment_ok_dest:
  assumes "segment_ok img seg"
  shows "r_bind (sub64 oc (s_vaddr seg) (page_floor (s_vaddr seg))) (\<lambda>offset.
         r_bind (file_bytes seg) (\<lambda>data.
         r_bind (add64 oc (page_floor (s_vaddr seg)) offset) (\<lambda>dest. Ok (dest, data)))) =
       (Ok (s_vaddr seg, take (unat (s_filesz seg)) (s_data seg)) :: (vcpu_error, u64 \<times> bytes) result)"
proof -
  let ?b = "page_floor (s_vaddr seg)"
  have "unat ?b + unat (s_vaddr seg - ?b) < 2 ^ 64"
    using unat_less64 [of "s_vaddr seg"] page_floor_le [of "s_vaddr seg"]
    by (simp add: unat_sub64 word_le_nat_alt)
  then have "add64 oc ?b (s_vaddr seg - ?b) = (Ok (s_vaddr seg) :: (vcpu_error, u64) result)"
    by (simp add: add64_exact)
  moreover have "sub64 oc (s_vaddr seg) ?b = (Ok (s_vaddr seg - ?b) :: (vcpu_error, u64) result)"
    using page_floor_le by (simp add: sub64_exact)
  ultimately show ?thesis by (simp add: file_bytes_ok [OF assms])
qed

lemma seg_write_fits:
  assumes "mem_law E byte_at" and "segment_ok img seg"
    and "unat (s_vaddr seg) + unat (s_memsz seg) \<le> unat (page_floor (s_vaddr seg)) + unat sz"
    and "addr_range (page_floor (s_vaddr seg)) sz \<subseteq> dom (byte_at uc)"
  shows "\<exists>uc'. e_mem_write E uc (s_vaddr seg) (take (unat (s_filesz seg)) (s_data seg)) = (Inr (), uc') \<and>
     dom (byte_at uc') = dom (byte_at uc)"
proof -
  let ?d = "take (unat (s_filesz seg)) (s_data seg)"
  have len: "length ?d \<le> unat (s_memsz seg)" using assms(2) by (simp add: segment_ok_def)
  have fit: "unat (s_vaddr seg) + length ?d < 2 ^ 64"
    using assms(2) len by (simp add: segment_ok_def no_wrap_def del: length_take)
  have "unat (s_vaddr seg) + i \<in> addr_range (page_floor (s_vaddr seg)) sz" if "i < length ?d" for i
    using assms(3) that len page_floor_le [of "s_vaddr seg"] unfolding addr_range_mem word_le_nat_alt by linarith
  then have "\<forall>i < length ?d. byte_at uc (unat (s_vaddr seg) + i) \<noteq> None" using assms(4) by blast
  from mem_law_write [OF assms(1) fit this] show ?thesis
    using mem_law_write_dom [OF assms(1) fit, of uc] by auto
qed

text \<open>One round of \<open>map_elf\<close> ends before it changes memory or records what it has mapped.\<close>

lemma map_segment_keeps:
  assumes laws: "mem_law E byte_at" "map_law E byte_at" and ok: "api_ok byte_at d v" and uc: "v_uc v = Some uc"
    and seg: "segment_ok img seg" "unat (s_memsz seg) \<le> isize_max"
    and m: "map_segment E oc v uc seg = (r, v')"
  shows "api_ok byte_at d v' \<and> (\<forall>uc'. r = Ok uc' \<longrightarrow> v_uc v' = Some uc')"
proof (cases "seg_pages oc seg")
  case (Ok pages)
  obtain start sz where pages: "seg_pages oc seg = Ok (start, sz)" using Ok by (cases pages) simp
  note cover = seg_pages_cover [OF seg pages]
  have rec: "recorded byte_at uc v" and hook: "v_hook v = Some d" using ok uc by (auto simp: api_ok_def)
  let ?f = "s_flags seg"
  obtain q v1 where claim: "claim_and_map E oc v uc start sz ?f (seg_prot ?f) = (q, v1)" by fastforce
  note any = claim_and_map_any [OF laws(2) uc claim]
  then obtain uc1 where uc1: "v_uc v1 = Some uc1" by blast
  show ?thesis
  proof (cases "is_Ok q")
    case True
    then have q: "q = result.Ok uc1" and dom1: "dom (byte_at uc1) = dom (byte_at uc) \<union> addr_range start sz"
      using any uc1 by auto
    then obtain uc2 where w: "e_mem_write E uc1 (s_vaddr seg) (take (unat (s_filesz seg)) (s_data seg)) = (Inr (), uc2)"
      and dom2: "dom (byte_at uc2) = dom (byte_at uc1)"
      using seg_write_fits [OF laws(1) seg(1), of sz uc1] cover by blast
    have res: "r = result.Ok uc2" "v' = v1\<lparr>v_uc := Some uc2, v_regions := v_regions v1 @ [(start, sz, ?f)]\<rparr>"
      using m unfolding map_segment_def pages result.case prod.case claim q
      unfolding cover [THEN conjunct1] segment_ok_dest [OF seg(1)] result.case prod.case w sum.case by simp_all
    have "recorded byte_at uc2 v'"
      by (rule recorded_mapped [OF rec, of sz start]) (use any uc1 True res dom1 dom2 in auto)
    then show ?thesis using any hook res by (simp add: api_ok_def)
  next
    case False
    then have v': "v' = v1" "\<not> is_Ok r" using m claim pages by (cases q; auto simp: map_segment_def)+
    have "recorded byte_at uc1 v1" by (rule recorded_mono [OF rec]) (use any uc1 False in auto)
    then show ?thesis using any uc1 hook v' by (auto simp: api_ok_def)
  qed
qed (use m ok in \<open>auto simp: map_segment_def\<close>)

lemma map_segments_keep:
  assumes "mem_law E byte_at" "map_law E byte_at"
  shows "api_ok byte_at d v \<Longrightarrow> v_uc v = Some uc \<Longrightarrow>
     \<forall>seg \<in> set segs. segment_ok img seg \<and> unat (s_memsz seg) \<le> isize_max \<Longrightarrow>
     map_segments E oc v uc segs = (r, v') \<Longrightarrow> api_ok byte_at d v'"
proof (induction segs arbitrary: v uc)
  case (Cons seg segs)
  obtain q v1 where seg: "map_segment E oc v uc seg = (q, v1)" by fastforce
  have keeps: "api_ok byte_at d v1 \<and> (\<forall>uc'. q = Ok uc' \<longrightarrow> v_uc v1 = Some uc')"
    by (rule map_segment_keeps [OF assms Cons.prems(1,2) _ _ seg]) (use Cons.prems(3) in auto)
  show ?case
  proof (cases q)
    case (Ok uc')
    then show ?thesis using Cons.IH [of v1 uc'] Cons.prems(3,4) keeps seg by simp
  qed (use keeps Cons.prems(4) seg in auto)
qed simp

lemma setup_keeps:
  assumes "regs_law E byte_at" and "map_law E byte_at" and ok: "api_ok byte_at d v"
    and "setup_initial_state E oc v entry stk = (r, v')"
  shows "api_ok byte_at d v'"
proof -
  obtain uc where uc: "v_uc v = Some uc" using ok by (auto simp: api_ok_def)
  note w = map_lawD(3) [OF assms(2), of uc _ "replicate 0x20 0"] and reg = regs_lawD(4) [OF assms(1)]
  show ?thesis
  proof (cases "sub64 oc stk 0x20 :: (vcpu_error, u64) result")
    case (Ok a)
    obtain x uc1 where x: "e_mem_write E uc a (replicate 0x20 0) = (x, uc1)" by fastforce
    obtain y uc2 where y: "e_reg_write E uc1 RSP a = (y, uc2)" by fastforce
    have "v' = v\<lparr>v_uc := Some uc1\<rparr> \<or> v' = v\<lparr>v_uc := Some uc2\<rparr> \<or>
        v' = v\<lparr>v_uc := Some (snd (e_reg_write E uc2 RIP entry))\<rparr>"
      using assms(4) unfolding setup_initial_state_def uc option.case Ok result.case x
      by (auto simp: y reg_op_def split: sum.splits)
    moreover have "dom (byte_at uc1) = dom (byte_at uc)" using w [of a] unfolding x by simp
    moreover have "byte_at uc2 = byte_at uc1" using reg [of uc1 RSP a] by (simp add: y)
    ultimately show ?thesis using reg [of uc2 RIP entry] api_ok_uc(1) [OF ok uc] by auto
  qed (use assms(4) ok in \<open>simp_all add: setup_initial_state_def uc\<close>)
qed

lemma run_keeps:
  assumes "regs_law E byte_at" and "exec_law E byte_at" and "table_ok d" and "api_ok byte_at d v"
    and "vcpu_run E oc v ts t = Some (r, v', ts')"
  shows "api_ok byte_at d v'"
proof -
  obtain uc where uc: "v_uc v = Some uc" and hook: "v_hook v = Some d"
    using assms(4) by (auto simp: api_ok_def)
  obtain st e uc' sh' where steps: "emu_steps E oc d (run_start E v uc t ts) st"
    and end_: "emu_last E oc d st = Some (e, uc', sh', ts')" and v': "v' = v\<lparr>v_uc := Some uc', v_shared := sh'\<rparr>"
    using assms(5) unfolding vcpu_run_char [OF uc hook] by blast
  have "dom (byte_at uc') = dom (byte_at uc)"
    using last_keeps_mem [OF end_ assms(3,1,2)] steps_keep_mem [OF steps assms(3,1,2)] assms(2)
    by (simp add: exec_law_def)
  then show ?thesis unfolding v' by (rule api_ok_uc(2) [OF assms(4) uc])
qed

lemma api_step_keeps:
  assumes laws: "mem_law E byte_at" "map_law E byte_at" "regs_law E byte_at" "exec_law E byte_at"
    and tab: "table_ok d" and "api_step E oc v v'" and ok: "api_ok byte_at d v"
  shows "api_ok byte_at d v'"
proof -
  obtain uc where uc: "v_uc v = Some uc" using ok by (auto simp: api_ok_def)
  from assms(6) show ?thesis
  proof cases
    case (map_elf oc' parse img le r)
    have "\<forall>seg \<in> set (le_segments le). segment_ok img seg \<and> unat (s_memsz seg) \<le> isize_max"
      using load_elf_segments_ok [OF map_elf(1)] load_elf_memsz [OF map_elf(1)] by blast
    from map_segments_keep [OF laws(1,2) ok uc this] show ?thesis using map_elf(2) by (simp add: map_elf_def uc)
  next
    case (map_memory b s pr r)
    then show ?thesis using map_memory_keeps [OF laws(2) ok] by blast
  next
    case (map_stack b s r)
    then show ?thesis using map_memory_keeps [OF laws(2) ok] unfolding map_stack_def by blast
  next
    case (write_guest a data r)
    then have "v' = v\<lparr>v_uc := Some (snd (e_mem_write E uc a data))\<rparr>" by (simp add: write_guest_def uc reg_op_def)
    then show ?thesis using api_ok_uc(1) [OF ok uc map_lawD(3) [OF laws(2)]] by simp
  next
    case (initial_state entry stk r)
    then show ?thesis using setup_keeps [OF laws(3,2) ok] by blast
  next
    case (set_reg rg x r)
    then have "v' = v\<lparr>v_uc := Some (snd (e_reg_write E uc rg x))\<rparr>" by (simp add: vcpu_set_reg_def uc reg_op_def)
    then show ?thesis using api_ok_uc(1) [OF ok uc] regs_lawD(4) [OF laws(3)] by simp
  next
    case (run ts t r ts')
    then show ?thesis using run_keeps [OF laws(3,4) tab ok] by blast
  qed
qed

lemma api_steps_keep:
  assumes "mem_law E byte_at" "map_law E byte_at" "regs_law E byte_at" "exec_law E byte_at" "table_ok d"
    and "(api_step E oc)\<^sup>*\<^sup>* v v'" and "api_ok byte_at d v"
  shows "api_ok byte_at d v'"
  using assms(6,7) by (induction rule: rtranclp_induct) (use api_step_keeps [OF assms(1-5)] in blast)+

section \<open>Properties\<close>

text \<open>C17: from a fresh virtual CPU on an engine with nothing mapped, whatever its public methods are
  called for, with any arguments (the images are what the loader returns), and whatever they return, an
  error or a panic included: a range of guest memory, of at most \<open>isize::MAX\<close> bytes and ending below
  the top of the address space, can be read exactly when every byte of it lies in a region the CPU
  has recorded; the recorded regions do not overlap, and each is claimed in the memory map.\<close>

theorem api_regions_readable:
  assumes "mem_law E byte_at" and "map_law E byte_at" and "regs_law E byte_at" and "exec_law E byte_at"
    and "table_ok d"
    and "e_new E = Inr uc0" and "e_hook_syscall E uc0 = (Inr (), uc1)" and "byte_at uc1 = (\<lambda>_. None)"
    and "vcpu_new E d = Ok v0" and "(api_step E oc)\<^sup>*\<^sup>* v0 v"
    and "unat a + n < 2 ^ 64" and "n \<le> isize_max"
  shows "(is_Ok (read_guest E v a n) \<longleftrightarrow>
            (\<forall>i < n. \<exists>(b, s, f) \<in> set (v_regions v). unat a + i \<in> addr_range b s)) \<and>
         ranges_disjoint (v_regions v) \<and> as_region ` set (v_regions v) \<subseteq> set (mm_regions (v_map v))"
proof -
  have "v0 = \<lparr>v_uc = Some uc1, v_hook = Some d, v_shared = shared_new, v_map = mm_new, v_regions = []\<rparr>"
    using assms(9) vcpu_new_eq [OF assms(6,7), of d] by simp
  then have "api_ok byte_at d v0"
    by (simp add: api_ok_def recorded_def assms(8) in_regions_def ranges_disjoint_def)
  then have "api_ok byte_at d v" by (rule api_steps_keep [OF assms(1-5,10)])
  then obtain uc where uc: "v_uc v = Some uc" and rec: "recorded byte_at uc v" by (auto simp: api_ok_def)
  then have "byte_at uc x \<noteq> None \<longleftrightarrow> in_regions (v_regions v) x" for x by (auto simp: recorded_def)
  moreover have "is_Ok (read_guest E v a n) \<longleftrightarrow> (\<forall>i < n. byte_at uc (unat a + i) \<noteq> None)"
    by (rule read_guest_is_Ok [OF assms(1) uc assms(11,12)])
  ultimately show ?thesis using rec by (simp add: recorded_def in_regions_def)
qed

text \<open>After the engine has been dropped, registers and guest memory answer \<open>NotLoaded\<close> and change
  nothing, mapping, setting up and running panic on the missing engine, and the output and the
  exit reason of earlier runs are still there.\<close>

theorem vcpu_dropped:
  "let w = vcpu_drop v in
     vcpu_reg E w r = Err NotLoaded \<and> vcpu_set_reg E w r x = (Err NotLoaded, w) \<and>
     write_guest E w a bs = (Err NotLoaded, w) \<and> read_guest E w a n = Err NotLoaded \<and>
     map_elf E oc w le = (Panic ExpectFailed, w) \<and> map_memory E oc w b s pr = (Panic ExpectFailed, w) \<and>
     map_stack E oc w b s = (Panic ExpectFailed, w) \<and>
     setup_initial_state E oc w entry stk = (Panic ExpectFailed, w) \<and>
     vcpu_run E oc w ts t = Some (Panic ExpectFailed, w, ts) \<and>
     vcpu_output w = vcpu_output v \<and> vcpu_exit_reason w = vcpu_exit_reason v"
  by (simp add: vcpu_drop_def vcpu_reg_def vcpu_set_reg_def write_guest_def read_guest_def map_elf_def
      map_memory_def map_stack_def setup_initial_state_def vcpu_run_def vcpu_output_def vcpu_exit_reason_def)

section \<open>Witnesses\<close>

text \<open>A page is mapped, and then a mapping is tried that the engine refuses.\<close>

lemma page_mapped:
  obtains v uc where "map_memory (ram_engine []) True (ram_vcpu [] d) 0x1000 0x1000 PROT_READ = (Ok (), v)"
    "v_regions v = [(0x1000, 0x1000, 0)]" "mm_inv (v_map v)" "mm_claimed (v_map v) = addr_range 0x1000 0x1000"
    "v_uc v = Some uc"
proof -
  have ok: "range_ok 0x1000 0x1000" by (simp add: range_ok_def page_aligned_def no_wrap_def)
  show ?thesis
    using map_memory_cases [OF ram_mem_law [of "[]"] ram_vcpu_inv [of "[]" d] ram_vcpu_simps(1) ok, of True PROT_READ] that
    by (auto simp: ram_new_def ram_vcpu_def vcpu_inv_def)
qed

theorem api_regions_readable_witness:
  "\<exists>v v'. map_memory (ram_engine []) True (ram_vcpu [] (std_table True 0)) 0x1000 0x1000 PROT_READ = (Ok (), v) \<and>
       map_memory (ram_engine []) True v 0x3001 0x1000 PROT_READ = (Err (Map 0x3001 ''Invalid memory mapping (UC_ERR_MAP)''), v') \<and>
       is_Ok (read_guest (ram_engine []) v' 0x1ff0 16) \<and> \<not> is_Ok (read_guest (ram_engine []) v' 0x1ff0 17)"
proof -
  let ?d = "std_table True 0"
  obtain v uc where m: "map_memory (ram_engine []) True (ram_vcpu [] ?d) 0x1000 0x1000 PROT_READ = (Ok (), v)"
    and reg: "v_regions v = [(0x1000, 0x1000, 0)]" and inv: "mm_inv (v_map v)"
    and claimed: "mm_claimed (v_map v) = addr_range 0x1000 0x1000" and uc: "v_uc v = Some uc" by (rule page_mapped)
  obtain r v' where m': "map_memory (ram_engine []) True v 0x3001 0x1000 PROT_READ = (r, v')" by fastforce
  have "r = Err (Map 0x3001 ''Invalid memory mapping (UC_ERR_MAP)'') \<and> v_regions v' = v_regions v"
    using m' by (auto simp: map_memory_def uc claim_and_map_def mm_insert_free inv claimed no_wrap_def
        addr_range_disjoint ram_map_def page_aligned_def)
  then have r: "r = Err (Map 0x3001 ''Invalid memory mapping (UC_ERR_MAP)'')" "v_regions v' = [(0x1000, 0x1000, 0)]"
    using reg by simp_all
  have steps: "(api_step (ram_engine []) True)\<^sup>*\<^sup>* (ram_vcpu [] ?d) v'"
    using api_step.map_memory [OF m] api_step.map_memory [OF m'] by (meson converse_rtranclp_into_rtranclp rtranclp.rtrancl_refl)
  have fresh: "e_new (ram_engine []) = Inr (ram_new [])" "e_hook_syscall (ram_engine []) (ram_new []) = (Inr (), ram_new [])"
      "ram_mem (ram_new []) = (\<lambda>_. None)" by (simp_all add: ram_new_def)
  note main = api_regions_readable [OF ram_mem_law ram_map_law ram_regs_law ram_exec_law table_ok_standard fresh
    vcpu_new_ram steps]
  have "unat (0x1ff0 :: u64) + i \<in> addr_range 0x1000 0x1000 \<longleftrightarrow> i < 16" for i
    by (auto simp: addr_range_mem)
  moreover have "\<not> (\<forall>i < 17 :: nat. i < 16)" by (auto intro: exI [of _ 16])
  ultimately have "is_Ok (read_guest (ram_engine []) v' 0x1ff0 16)" "\<not> is_Ok (read_guest (ram_engine []) v' 0x1ff0 17)"
    using main [of "0x1ff0" 16] main [of "0x1ff0" 17] r(2) by (auto simp: isize_max_def)
  then show ?thesis using m m' r(1) by blast
qed

end
