(* ===== verification/Unit_Tests.thy ===== *)
theory Unit_Tests
  imports Hello_Run Vcpu_Spec Vcpu_Api
begin

text \<open>
  The unit tests of the Rust modules, translated one by one: each \<open>#[test]\<close> function is a definition
  of type \<open>bool\<close> that makes the same calls and the same assertions on the model, in either build
  (\<open>oc\<close>), and is then proved to pass. \<open>unwrap_then\<close> is \<open>unwrap\<close>: an error or a panic fails the test.
  The tests that include the fixture or run a guest have the third-party parser and emulator as
  parameters and pass for any that answer as documented.
\<close>

definition unwrap_then :: "('e, 'a) result \<times> 's \<Rightarrow> ('a \<Rightarrow> 's \<Rightarrow> bool) \<Rightarrow> bool" where
  "unwrap_then m k = (case fst m of Ok x \<Rightarrow> k x (snd m) | _ \<Rightarrow> False)"

lemma unwrap_then_Ok [simp]: "unwrap_then (Ok x, s) k = k x s"
  by (simp add: unwrap_then_def)

section \<open>memory/mmap.rs\<close>

definition test_insert_and_query :: "bool \<Rightarrow> bool" where
  "test_insert_and_query oc \<longleftrightarrow>
     unwrap_then (mm_insert oc mm_new 0x400000 0x1000 5) (\<lambda>_ m.
     unwrap_then (mm_insert oc m 0x401000 0x2000 6) (\<lambda>_ m.
       length (regions m) = 2 \<and>
       (region_contains oc (regions m ! 0) 0x400800 :: (unit, bool) result) = Ok True \<and>
       (region_contains oc (regions m ! 0) 0x401000 :: (unit, bool) result) = Ok False))"

definition test_rejects_overlap :: "bool \<Rightarrow> bool" where
  "test_rejects_overlap oc \<longleftrightarrow>
     unwrap_then (mm_insert oc mm_new 0x1000 0x3000 0) (\<lambda>_ m.
       case mm_insert oc m 0x2000 0x100 0 of (r1, m) \<Rightarrow>
       case mm_insert oc m 0x3f00 0x200 0 of (r2, m) \<Rightarrow>
       case mm_insert oc m 0x4000 0x100 0 of (r3, m) \<Rightarrow> is_Err r1 \<and> is_Err r2 \<and> is_Ok r3)"

definition test_zero_size_is_noop :: "bool \<Rightarrow> bool" where
  "test_zero_size_is_noop oc \<longleftrightarrow> unwrap_then (mm_insert oc mm_new 0x1000 0 0) (\<lambda>_ m. regions m = [])"

definition test_adjacent_does_not_overlap :: "bool \<Rightarrow> bool" where
  "test_adjacent_does_not_overlap oc \<longleftrightarrow>
     unwrap_then (mm_insert oc mm_new 0x1000 0x1000 0) (\<lambda>_ m. is_Ok (fst (mm_insert oc m 0x2000 0x1000 0)))"

lemma mmap_tests_pass:
  "test_insert_and_query oc" "test_rejects_overlap oc" "test_zero_size_is_noop oc"
  "test_adjacent_does_not_overlap oc"
proof -
  note defs = mm_insert_def mm_new_def region_overlaps_def region_end_def add64_def region_contains_def regions_def
  show "test_insert_and_query oc" by (simp add: test_insert_and_query_def defs)
  show "test_rejects_overlap oc" by (simp add: test_rejects_overlap_def defs)
  show "test_zero_size_is_noop oc" by (simp add: test_zero_size_is_noop_def defs)
  show "test_adjacent_does_not_overlap oc" by (simp add: test_adjacent_does_not_overlap_def defs)
qed

section \<open>elf/loader.rs\<close>

definition test_loads_static_exec :: "bool \<Rightarrow> (bytes \<Rightarrow> string + goblin_elf) \<Rightarrow> bool" where
  "test_loads_static_exec oc parse \<longleftrightarrow>
     (case load_elf oc parse hello_static of
        Ok elf \<Rightarrow> 0x400000 \<le> le_entry elf \<and> le_segments elf \<noteq> [] \<and>
          list_ex (\<lambda>s. s_flags s AND PF_X \<noteq> 0) (le_segments elf) \<and>
          list_ex (\<lambda>s. s_flags s AND PF_R \<noteq> 0) (le_segments elf)
      | _ \<Rightarrow> False)"

definition test_rejects_non_elf :: "bool \<Rightarrow> (bytes \<Rightarrow> string + goblin_elf) \<Rightarrow> bool" where
  "test_rejects_non_elf oc parse \<longleftrightarrow>
     (case load_elf oc parse [0x4d, 0x5a, 0x90, 0x00, 0x6a, 0x75, 0x6e, 0x6b] of
        Err e \<Rightarrow> elf_code e = ''E001'' | _ \<Rightarrow> False)"

definition test_rejects_truncated_image :: "bool \<Rightarrow> (bytes \<Rightarrow> string + goblin_elf) \<Rightarrow> bool" where
  "test_rejects_truncated_image oc parse \<longleftrightarrow>
     (case load_elf oc parse (take 40 hello_static) of
        Err (BadPhdr _) \<Rightarrow> True | Err (Truncated _) \<Rightarrow> True | _ \<Rightarrow> False)"

definition test_rejects_pie_in_stage1 :: "bool \<Rightarrow> (bytes \<Rightarrow> string + goblin_elf) \<Rightarrow> bool" where
  "test_rejects_pie_in_stage1 oc parse \<longleftrightarrow>
     (case load_elf oc parse hello_pie of Err e \<Rightarrow> elf_code e = ''E004'' | _ \<Rightarrow> False)"

definition test_perms_mapping :: bool where
  "test_perms_mapping \<longleftrightarrow>
     perms_string PF_R = ''R--'' \<and> perms_string (PF_R OR PF_W) = ''RW-'' \<and> perms_string (PF_R OR PF_X) = ''R-X''"

definition test_file_bytes_match_memsz_bss :: "bool \<Rightarrow> (bytes \<Rightarrow> string + goblin_elf) \<Rightarrow> bool" where
  "test_file_bytes_match_memsz_bss oc parse \<longleftrightarrow>
     (case load_elf oc parse hello_static of
        Ok elf \<Rightarrow> list_all (\<lambda>seg.
            (case (file_bytes seg :: (unit, bytes) result) of Ok bs \<Rightarrow> of_nat (length bs) = s_filesz seg | _ \<Rightarrow> False) \<and>
            s_filesz seg \<le> s_memsz seg) (le_segments elf)
      | _ \<Rightarrow> False)"

lemma loader_tests_pass:
  assumes "reads_hello parse"
  shows "test_loads_static_exec oc parse" "test_rejects_non_elf oc parse" "test_rejects_truncated_image oc parse"
    "test_rejects_pie_in_stage1 oc parse" "test_perms_mapping" "test_file_bytes_match_memsz_bss oc parse"
proof -
  have img: "load_elf oc parse hello_static = Ok hello_image"
    using assms hello_loads by (simp add: reads_hello_def)
  show "test_loads_static_exec oc parse"
    by (simp add: test_loads_static_exec_def img hello_segments hello_segment_def) (simp add: elf_image_def hello_elf_def)
  show "test_rejects_non_elf oc parse" by (simp add: test_rejects_non_elf_def load_elf_def has_magic_def)
  show "test_rejects_truncated_image oc parse"
    using assms by (auto simp: test_rejects_truncated_image_def load_elf_def hello_magic reads_hello_def)
  show "test_rejects_pie_in_stage1 oc parse"
    using assms by (simp add: test_rejects_pie_in_stage1_def load_elf_def hello_magic reads_hello_def hello_elf_def Let_def)
  show "test_perms_mapping" by (simp add: test_perms_mapping_def perms_string_def)
  show "test_file_bytes_match_memsz_bss oc parse"
    by (simp add: test_file_bytes_match_memsz_bss_def img hello_segments hello_segment_def file_bytes_def
        slice_index_def sub_slice_def)
qed

section \<open>vkernel/mem.rs\<close>

definition ascii :: "string \<Rightarrow> bytes" where
  "ascii s = map of_char s"

definition test_map_and_read :: "bool \<Rightarrow> bool" where
  "test_map_and_read oc \<longleftrightarrow>
     unwrap_then (im_map_anon im_new 0x400000 32 3) (\<lambda>_ mem.
     unwrap_then (im_write oc mem 0x400000 (ascii ''hello'')) (\<lambda>_ mem.
       im_read oc mem 0x400000 5 = Ok (ascii ''hello'')))"

definition test_read_returns_io_error_outside_map :: "bool \<Rightarrow> bool" where
  "test_read_returns_io_error_outside_map oc \<longleftrightarrow>
     unwrap_then (im_map_anon im_new 0x1000 16 3) (\<lambda>_ mem.
       case im_read oc mem 0x2000 1 of Err e \<Rightarrow> ge_addr e = 0x2000 | _ \<Rightarrow> False)"

definition test_double_map_rejected :: bool where
  "test_double_map_rejected \<longleftrightarrow>
     unwrap_then (im_map_anon im_new 0x1000 16 3) (\<lambda>_ mem. is_Err (fst (im_map_anon mem 0x1000 16 3)))"

definition test_write_past_end_is_io_error :: "bool \<Rightarrow> bool" where
  "test_write_past_end_is_io_error oc \<longleftrightarrow>
     unwrap_then (im_map_anon im_new 0x1000 8 3) (\<lambda>_ mem. is_Err (fst (im_write oc mem 0x1004 (ascii ''toolong''))))"

text \<open>A mapped region of zeros, and reading and writing in it.\<close>

lemma map_anon_new:
  "n \<le> isize_max \<Longrightarrow> im_map_anon im_new base n prot = (Ok (), \<lparr>im_bytes = [(base, replicate n 0)]\<rparr>)"
  by (simp add: im_map_anon_def im_new_def vec_zeroed_def)

definition zeros_at :: "u64 \<Rightarrow> nat \<Rightarrow> in_mem_guest" where
  "zeros_at base n = \<lparr>im_bytes = [(base, replicate n 0)]\<rparr>"

lemma zeros_at_inv: "0 < n \<Longrightarrow> unat base + n < 2 ^ 64 \<Longrightarrow> im_inv (zeros_at base n)"
  by (simp add: zeros_at_def im_inv_def)

lemma zeros_at_byte: "im_byte (zeros_at base n) a = (if unat base \<le> a \<and> a < unat base + n then Some 0 else None)"
  by (auto simp: zeros_at_def im_byte_def in_entry_def)

lemma hello_written:
  assumes "5 \<le> n" and "n < 2 ^ 16"
  shows "\<exists>m. im_write oc (zeros_at 0x400000 n) 0x400000 (ascii ''hello'') = (Ok (), m) \<and>
     im_read oc m 0x400000 5 = Ok (ascii ''hello'')"
proof -
  have len: "length (ascii ''hello'') = 5" by (simp add: ascii_def)
  obtain m where w: "im_write oc (zeros_at 0x400000 n) 0x400000 (ascii ''hello'') = (Ok (), m)" and "im_inv m"
    and m: "im_byte m = upd_bytes (im_byte (zeros_at 0x400000 n)) 0x400000 (ascii ''hello'')"
    using im.write_ok [OF zeros_at_inv, of n "0x400000" "0x400000" "ascii ''hello''" oc] assms
    by (auto simp: len zeros_at_byte)
  have "im_read oc m 0x400000 5 = Ok (ascii ''hello'')"
    by (subst im.read_Ok_iff [OF \<open>im_inv m\<close>]) (simp_all add: isize_max_def m len upd_bytes_def)
  with w show ?thesis by blast
qed

lemma mem_tests_pass:
  "test_map_and_read oc" "test_read_returns_io_error_outside_map oc" "test_double_map_rejected"
  "test_write_past_end_is_io_error oc"
proof -
  have small: "n \<le> 32 \<Longrightarrow> n \<le> isize_max" for n by (simp add: isize_max_def)
  show "test_map_and_read oc"
    using hello_written [of 32 oc] by (auto simp: test_map_and_read_def map_anon_new small zeros_at_def)
  have "ref_read (im_byte (zeros_at 0x1000 16)) 0x2000 1 = Inl (0x2000, 1)" by (simp add: zeros_at_byte)
  then have "im_read oc (zeros_at 0x1000 16) 0x2000 1 = Err \<lparr>ge_addr = 0x2000, ge_len = 1\<rparr>"
    by (subst im_read_spec [OF zeros_at_inv]) (simp_all add: isize_max_def)
  then show "test_read_returns_io_error_outside_map oc"
    by (simp add: test_read_returns_io_error_outside_map_def map_anon_new small zeros_at_def)
  show "test_double_map_rejected"
    by (simp add: test_double_map_rejected_def map_anon_new small) (simp add: im_map_anon_def)
  have "length (ascii ''toolong'') = 7" by (simp add: ascii_def)
  moreover have "\<exists>i < 7. im_byte (zeros_at 0x1000 8) (0x1004 + i) = None"
    by (rule exI [of _ 4]) (simp add: zeros_at_byte)
  ultimately show "test_write_past_end_is_io_error oc"
    using im.write_err [OF zeros_at_inv, of 8 "0x1000" "0x1004" "ascii ''toolong''" oc]
    by (auto simp: test_write_past_end_is_io_error_def map_anon_new small zeros_at_def)
qed

section \<open>vkernel/io.rs\<close>

definition test_capture_stdout :: bool where
  "test_capture_stdout \<longleftrightarrow>
     (let cap = capture_write (capture_write capture_new 1 (ascii ''a'')) 1 (ascii ''b'')
      in capture_stdout cap = ascii ''ab'' \<and> capture_stderr cap = [])"

definition test_capture_stderr_separately :: bool where
  "test_capture_stderr_separately \<longleftrightarrow>
     (let cap = capture_write capture_new 2 (ascii ''err'')
      in capture_stdout cap = [] \<and> capture_stderr cap = ascii ''err'')"

definition test_combined_in_fd_order :: bool where
  "test_combined_in_fd_order \<longleftrightarrow>
     (let cap = capture_write (capture_write capture_new 2 (ascii ''e'')) 1 (ascii ''o'')
      in capture_combined cap = ascii ''oe'')"

lemma io_tests_pass: "test_capture_stdout" "test_capture_stderr_separately" "test_combined_in_fd_order"
  by (simp_all add: test_capture_stdout_def test_capture_stderr_separately_def test_combined_in_fd_order_def
      capture_combined_eq capture_stdout_def capture_stderr_def capture_get_write ascii_def)

section \<open>syscall/dispatch.rs\<close>

definition test_unknown_returns_enosys :: "bool \<Rightarrow> trace_store \<Rightarrow> bool" where
  "test_unknown_returns_enosys oc ts \<longleftrightarrow>
     fst (dispatch_call oc dispatch_new (ctxt_new oc) (from_regs 999 (0, 0, 0, 0, 0, 0) 0x400000) ts) =
       Ok (Return (- ENOSYS))"

definition test_implemented_lists_sorted :: "bool \<Rightarrow> bool" where
  "test_implemented_lists_sorted oc \<longleftrightarrow>
     implemented (register (register (dispatch_new :: in_mem_guest dispatch) (write_handler oc)) exit_handler) = [1, 60]"

lemma dispatch_tests_pass: "test_unknown_returns_enosys oc ts" "test_implemented_lists_sorted oc"
proof -
  show "test_unknown_returns_enosys oc ts"
    by (simp add: test_unknown_returns_enosys_def dispatch_call_unknown ENOSYS_def)
  show "test_implemented_lists_sorted oc"
    by (simp add: test_implemented_lists_sorted_def implemented_def register_def dispatch_new_def)
qed

section \<open>syscall/dispatch_impl.rs\<close>

definition on_guest ::
  "('m dyn_guest \<Rightarrow> 'm \<Rightarrow> (gm_error, unit) result \<times> 'm) \<Rightarrow> 'm ctxt \<Rightarrow> (gm_error, unit) result \<times> 'm ctxt" where
  "on_guest f ctx =
     (let (r, m) = f (ctx_mem ctx) (dg_state (ctx_mem ctx)) in (r, ctx\<lparr>ctx_mem := (ctx_mem ctx)\<lparr>dg_state := m\<rparr>\<rparr>))"

definition test_write_captures_output :: "bool \<Rightarrow> trace_store \<Rightarrow> bool" where
  "test_write_captures_output oc ts \<longleftrightarrow>
     unwrap_then (on_guest (\<lambda>g m. dg_map_anon g m 0x400000 16 3) (ctxt_new oc)) (\<lambda>_ ctx.
     unwrap_then (on_guest (\<lambda>g m. dg_write g m 0x400000 (ascii ''hello'')) ctx) (\<lambda>_ ctx.
       case dispatch_call oc (register dispatch_new (write_handler oc)) ctx
              (from_regs 1 (1, 0x400000, 5, 0, 0, 0) 0x400100) ts of
         (Ok (Return ret), ctx, _) \<Rightarrow> ret = 5 \<and> capture_stdout (ctx_io ctx) = ascii ''hello''
       | _ \<Rightarrow> False))"

definition test_write_rejects_bad_fd :: "bool \<Rightarrow> trace_store \<Rightarrow> bool" where
  "test_write_rejects_bad_fd oc ts \<longleftrightarrow>
     (case dispatch_call oc (register dispatch_new (write_handler oc)) (ctxt_new oc)
              (from_regs 1 (42, 0, 0, 0, 0, 0) 0) ts of
        (Ok (Return ret), _) \<Rightarrow> (errno_err oc EBADF :: (unit, i64) result) = Ok ret
      | _ \<Rightarrow> False)"

definition test_exit_sets_state :: "bool \<Rightarrow> trace_store \<Rightarrow> bool" where
  "test_exit_sets_state oc ts \<longleftrightarrow>
     (case dispatch_call oc (register dispatch_new exit_handler) (ctxt_new oc) (from_regs 60 (7, 0, 0, 0, 0, 0) 0) ts of
        (Ok (OExit (Exit code)), ctx, _) \<Rightarrow> code = 7 \<and> ctx_process ctx = Exited 7
      | _ \<Rightarrow> False)"

definition test_register_all_installs_three :: "bool \<Rightarrow> bool" where
  "test_register_all_installs_three oc \<longleftrightarrow>
     implemented (register_all oc (dispatch_new :: in_mem_guest dispatch)) = [1, 60, 231]"

lemma dispatch_impl_tests_pass:
  "test_write_captures_output oc ts" "test_write_rejects_bad_fd oc ts" "test_exit_sets_state oc ts"
  "test_register_all_installs_three oc"
proof -
  have find: "find_handler (register d h) nr = (if nr = h_number h then Some h else find_handler d nr)"
    for d :: "in_mem_guest dispatch" and h nr by (rule find_handler_register)
  obtain m where m: "im_write oc (zeros_at 0x400000 16) 0x400000 (ascii ''hello'') = (Ok (), m)"
      "im_read oc m 0x400000 5 = Ok (ascii ''hello'')" using hello_written [of 16 oc] by auto
  have "length (ascii ''hello'') = 5" by (simp add: ascii_def)
  then show "test_write_captures_output oc ts"
    using m
    by (simp add: test_write_captures_output_def on_guest_def ctxt_new_def in_mem_box_def map_anon_new isize_max_def
        dispatch_call_known find write_handle_def ctx_read_def u64_as_i64_def capture_stdout_def capture_get_write
        flip: zeros_at_def)
  show "test_write_rejects_bad_fd oc ts"
    by (simp add: test_write_rejects_bad_fd_def dispatch_call_known find write_handle_def u64_as_i64_def)
  show "test_exit_sets_state oc ts"
    by (simp add: test_exit_sets_state_def dispatch_call_known find exit_handle_def)
  show "test_register_all_installs_three oc"
    by (simp add: test_register_all_installs_three_def register_all_def implemented_def register_def dispatch_new_def)
qed

section \<open>trace/recorder.rs\<close>

definition test_drain_roundtrip :: "trace_store \<Rightarrow> bool" where
  "test_drain_roundtrip ts \<longleftrightarrow>
     (let (sink, ts) = sink_new ts;
          ts = sink_record ts sink ''write'' 1 (1, 0, 5, 0, 0, 0) 0x401000 (Return 5);
          (recs, ts) = sink_drain ts sink
      in length recs = 1 \<and> tr_name (recs ! 0) = ''write'' \<and> tr_nr (recs ! 0) = 1 \<and> tr_ret (recs ! 0) = 5 \<and>
         sink_is_empty ts sink)"

definition test_clones_share_buffer :: "trace_store \<Rightarrow> bool" where
  "test_clones_share_buffer ts \<longleftrightarrow>
     (let (a, ts) = sink_new ts; b = sink_clone a;
          ts = sink_record ts a ''exit'' 60 (0, 0, 0, 0, 0, 0) 0 (OExit (Exit 0));
          (recs, ts) = sink_drain ts b
      in length recs = 1)"

lemma recorder_tests_pass: "test_drain_roundtrip ts" "test_clones_share_buffer ts"
  by (simp_all add: test_drain_roundtrip_def test_clones_share_buffer_def sink_new_def sink_clone_def sink_drain_def
      sink_record_buf sink_is_empty_def sink_len_def outcome_ret_def)

section \<open>cpu/context.rs\<close>

definition test_syscall_regs_order :: bool where
  "test_syscall_regs_order \<longleftrightarrow>
     cc_syscall_regs (cpu_context_new\<lparr>cc_rdi := 1, cc_rsi := 2, cc_rdx := 3, cc_r10 := 4, cc_r8 := 5, cc_r9 := 6\<rparr>) =
       (1, 2, 3, 4, 5, 6)"

definition test_default_is_zeroed :: bool where
  "test_default_is_zeroed \<longleftrightarrow> cc_rax cpu_context_new = 0 \<and> cc_rip cpu_context_new = 0"

lemma context_tests_pass: "test_syscall_regs_order" "test_default_is_zeroed"
  by (simp_all add: test_syscall_regs_order_def cc_syscall_regs_def test_default_is_zeroed_def cpu_context_new_def)

section \<open>cpu/unicorn_engine.rs\<close>

definition test_vcpu :: "'uc engine \<Rightarrow> bool \<Rightarrow> (vcpu_error, 'uc vcpu) result" where
  "test_vcpu E oc = vcpu_new E (register_all oc dispatch_new)"

definition test_maps_and_runs_hello ::
  "'uc engine \<Rightarrow> bool \<Rightarrow> (bytes \<Rightarrow> string + goblin_elf) \<Rightarrow> trace_store \<Rightarrow> bool" where
  "test_maps_and_runs_hello E oc parse ts \<longleftrightarrow>
     (case load_elf oc parse hello_static of
        Ok elf \<Rightarrow>
          (case test_vcpu E oc of
             Ok v \<Rightarrow>
               unwrap_then (map_elf E oc v elf) (\<lambda>_ v.
               unwrap_then (map_stack E oc v STACK_BASE STACK_SIZE) (\<lambda>_ v.
               unwrap_then (setup_initial_state E oc v (le_entry elf) (STACK_BASE + STACK_SIZE)) (\<lambda>_ v.
                 case vcpu_run E oc v ts 0 of
                   Some (Ok reason, v, _) \<Rightarrow>
                     reason = Exit 0 \<and> vcpu_output v = ascii (''hello, winVpwn'' @ [CHR 0x0A])
                 | _ \<Rightarrow> False)))
           | _ \<Rightarrow> False)
      | _ \<Rightarrow> False)"

definition test_stack_layout_is_zeroed :: "'uc engine \<Rightarrow> bool \<Rightarrow> bool" where
  "test_stack_layout_is_zeroed E oc \<longleftrightarrow>
     (case test_vcpu E oc of
        Ok v \<Rightarrow>
          unwrap_then (map_stack E oc v STACK_BASE STACK_SIZE) (\<lambda>_ v.
          unwrap_then (setup_initial_state E oc v 0x401000 (STACK_BASE + STACK_SIZE)) (\<lambda>_ v.
            vcpu_reg E v RIP = Ok 0x401000 \<and> vcpu_reg E v RSP = Ok (STACK_BASE + STACK_SIZE - 0x20)))
      | _ \<Rightarrow> False)"

definition test_run_falls_off_image_returns_falloff :: "'uc engine \<Rightarrow> bool \<Rightarrow> trace_store \<Rightarrow> bool" where
  "test_run_falls_off_image_returns_falloff E oc ts \<longleftrightarrow>
     (case test_vcpu E oc of
        Ok v \<Rightarrow>
          unwrap_then (map_memory E oc v 0x400000 0x1000 (sup PROT_READ PROT_EXEC)) (\<lambda>_ v.
          unwrap_then (write_guest E v 0x400000 [0xc3]) (\<lambda>_ v.
          unwrap_then (map_stack E oc v STACK_BASE STACK_SIZE) (\<lambda>_ v.
          unwrap_then (vcpu_set_reg E v RIP 0x400000) (\<lambda>_ v.
          unwrap_then (vcpu_set_reg E v RSP (STACK_BASE + STACK_SIZE - 8)) (\<lambda>_ v.
            case vcpu_run E oc v ts 0 of Some (Ok (Falloff _), _) \<Rightarrow> True | _ \<Rightarrow> False)))))
      | _ \<Rightarrow> False)"

text \<open>What the tests rely on in the emulator, besides the laws: a new engine has no memory, and a \<open>ret\<close> on
  an executable page, with a readable stack that holds the address 0, where nothing is mapped, faults
  on the fetch (with no time limit).\<close>

definition fresh_engine :: "'uc engine \<Rightarrow> ('uc \<Rightarrow> nat \<Rightarrow> u8 option) \<Rightarrow> bool" where
  "fresh_engine E byte_at \<longleftrightarrow>
     (\<exists>uc0 uc1. e_new E = Inr uc0 \<and> e_hook_syscall E uc0 = (Inr (), uc1) \<and> byte_at uc1 = (\<lambda>_. None))"

definition faults_on_ret :: "'uc engine \<Rightarrow> ('uc \<Rightarrow> nat \<Rightarrow> u8 option) \<Rightarrow> ('uc \<Rightarrow> nat \<Rightarrow> prot) \<Rightarrow> bool" where
  "faults_on_ret E byte_at prot_at \<longleftrightarrow>
     (\<forall>uc rip rsp. set_up E uc \<and> e_reg_read E uc RIP = Inr rip \<and> e_reg_read E uc RSP = Inr rsp \<and>
        byte_at uc (unat rip) = Some 0xc3 \<and> can_exec (prot_at uc (unat rip)) \<and>
        (\<forall>i < 8. byte_at uc (unat rsp + i) = Some 0 \<and> can_read (prot_at uc (unat rsp + i))) \<and> byte_at uc 0 = None \<longrightarrow>
        (\<exists>msg uc1. e_advance E (e_start E uc rip (- 1) 0 0) = (EvFault msg, uc1) \<and>
           str_contains ''FETCH_UNMAPPED'' msg))"

lemma map_memory_hook: "map_memory E oc v b s pr = (r, v') \<Longrightarrow> v_hook v' = v_hook v"
  by (auto simp: map_memory_def claim_and_map_def split: option.splits prod.splits result.splits sum.splits)

lemma new_vcpu:
  assumes "fresh_engine E byte_at"
  obtains v uc where "vcpu_new E d = Ok v" "vcpu_inv byte_at v" "v_uc v = Some uc" "byte_at uc = (\<lambda>_. None)"
    "v_hook v = Some d" "v_map v = mm_new"
  using assms vcpu_new_eq that by (fastforce simp: fresh_engine_def vcpu_inv_def)

lemma vcpu_run_hook: "vcpu_run E oc v ts t = Some (r, v', ts') \<Longrightarrow> v_hook v' = v_hook v"
  by (auto simp: vcpu_run_def split: option.splits)

lemma hook_update [simp]: "v_hook v = Some d \<Longrightarrow> v\<lparr>v_hook := Some d\<rparr> = v"
  by (cases v) simp

lemma hello_test_passes:
  assumes "mem_law E byte_at" and "regs_law E byte_at" and "stop_law E" and "prot_law E prot_at"
    and "fresh_engine E byte_at" and "runs_hello E byte_at prot_at 0" and "reads_hello parse"
  shows "test_maps_and_runs_hello E oc parse ts"
proof -
  let ?d = "register_all oc dispatch_new"
  have img: "load_elf oc parse hello_static = Ok hello_image" using assms(7) hello_loads by (simp add: reads_hello_def)
  obtain uc0 uc1 where "e_new E = Inr uc0" "e_hook_syscall E uc0 = (Inr (), uc1)" "byte_at uc1 = (\<lambda>_. None)"
    using assms(5) by (auto simp: fresh_engine_def)
  from hello_prepared [OF assms(1,2,4) this, of oc ?d] obtain v uc where prep: "prepare_vcpu E oc hello_image ?d = Ok v"
    and v: "v_uc v = Some uc" "v_hook v = Some ?d" "v_shared v = shared_new" "hello_ready E byte_at prot_at uc" by metis
  let ?w = "v\<lparr>v_hook := Some (std_table oc 0)\<rparr>"
  have w: "v_uc ?w = Some uc" "v_hook ?w = Some (std_table oc 0)" using v(1) by simp_all
  have buf: "ts_buf empty_store 0 = []" by (simp add: empty_store_def)
  obtain v' ts1 where run: "vcpu_run E oc ?w empty_store 0 = Some (Ok (Exit 0), v', ts1)"
    and out: "vcpu_output v' = hello_text"
    using hello_vcpu_run [OF assms(1,3,6) w v(4) buf] v(3) by (auto simp: vcpu_output_def)
  have "v'\<lparr>v_hook := Some (std_table oc 0)\<rparr> = v'" using vcpu_run_hook [OF run] by simp
  then obtain ts2 where "vcpu_run E oc v ts 0 = Some (Ok (Exit 0), v'\<lparr>v_hook := Some ?d\<rparr>, ts2)"
    using run_same [OF _ v(1), where d = "std_table oc 0" and d' = ?d and v' = v' and ts' = ts, OF _ ] run v(2)
    by (fastforce simp: set_trace_def)
  moreover have "hello_text = ascii (''hello, winVpwn'' @ [CHR 0x0A])" by (simp add: hello_text_def ascii_def)
  moreover obtain v0 v1 v2 where "vcpu_new E ?d = Ok v0" "map_elf E oc v0 hello_image = (Ok (), v1)"
      "map_stack E oc v1 STACK_BASE STACK_SIZE = (Ok (), v2)"
      "setup_initial_state E oc v2 (le_entry hello_image) (STACK_BASE + STACK_SIZE) = (Ok (), v)"
    using prep by (auto simp: prepare_vcpu_def)
  ultimately show ?thesis using out by (simp add: test_maps_and_runs_hello_def img test_vcpu_def vcpu_output_def)
qed

lemma stack_test_passes:
  assumes "mem_law E byte_at" and "regs_law E byte_at" and "fresh_engine E byte_at"
  shows "test_stack_layout_is_zeroed E oc"
proof -
  obtain v uc where v: "vcpu_new E (register_all oc dispatch_new) = Ok v" "vcpu_inv byte_at v" "v_uc v = Some uc"
      "v_map v = mm_new" by (rule new_vcpu [OF assms(3)])
  then have "mm_claimed (v_map v) \<inter> addr_range STACK_BASE STACK_SIZE = {}" by simp
  from stack_prepared [OF assms(1,2) v(2,3) this, of oc "0x401000"] show ?thesis
    by (auto simp: test_stack_layout_is_zeroed_def test_vcpu_def v(1)) (simp add: STACK_BASE_def STACK_SIZE_def)
qed

lemma set_reg_ok:
  assumes "regs_law E byte_at" and "v_uc v = Some uc" and "named r"
  obtains uc' where "vcpu_set_reg E v r x = (Ok (), v\<lparr>v_uc := Some uc'\<rparr>)" "e_reg_read E uc' r = Inr x"
    "\<forall>r'. named r' \<and> r' \<noteq> r \<longrightarrow> e_reg_read E uc' r' = e_reg_read E uc r'" "byte_at uc' = byte_at uc"
  using regs_lawD [OF assms(1)] assms(3) that by (simp add: vcpu_set_reg_def assms(2) reg_op_def)

text \<open>The mapped pages of the falloff test, and the engine they are mapped in.\<close>

definition ret_ready :: "'uc engine \<Rightarrow> ('uc \<Rightarrow> nat \<Rightarrow> u8 option) \<Rightarrow> ('uc \<Rightarrow> nat \<Rightarrow> prot) \<Rightarrow> 'uc \<Rightarrow> bool" where
  "ret_ready E byte_at prot_at uc \<longleftrightarrow>
     set_up E uc \<and> byte_at uc 0x400000 = Some 0xc3 \<and> can_exec (prot_at uc 0x400000) \<and> byte_at uc 0 = None \<and>
     (\<forall>i < 8. byte_at uc (unat (STACK_BASE + STACK_SIZE - 8) + i) = Some 0 \<and>
        can_read (prot_at uc (unat (STACK_BASE + STACK_SIZE - 8) + i)))"

lemma ret_page_ready:
  assumes "mem_law E byte_at" and "prot_law E prot_at" and "fresh_engine E byte_at"
  obtains v v1 v2 v3 uc where "vcpu_new E d = Ok v"
    "map_memory E oc v 0x400000 0x1000 (sup PROT_READ PROT_EXEC) = (Ok (), v1)"
    "write_guest E v1 0x400000 [0xc3] = (Ok (), v2)"
    "map_stack E oc v2 STACK_BASE STACK_SIZE = (Ok (), v3)" "v_uc v3 = Some uc" "v_hook v3 = Some d"
    "ret_ready E byte_at prot_at uc"
proof -
  let ?pr = "sup PROT_READ PROT_EXEC"
  obtain v uc where v: "vcpu_new E d = Ok v" "vcpu_inv byte_at v" "v_uc v = Some uc" "byte_at uc = (\<lambda>_. None)"
      "v_hook v = Some d" "v_map v = mm_new" by (rule new_vcpu [OF assms(3)])
  have set0: "set_up E uc" using new_set_up [OF v(1)] v(3) by simp
  have ok: "range_ok 0x400000 0x1000" by (simp add: range_ok_def page_aligned_def no_wrap_def)
  obtain v1 uc1 where v1: "map_memory E oc v 0x400000 0x1000 ?pr = (Ok (), v1)" "vcpu_inv byte_at v1" "v_uc v1 = Some uc1"
    and b1: "byte_at uc1 = upd_bytes (\<lambda>_. None) 0x400000 (replicate 4096 0)"
    and cl1: "mm_claimed (v_map v1) = addr_range 0x400000 0x1000"
    using map_memory_cases [OF assms(1) v(2,3) ok, of oc ?pr] v(4,6) by auto
  have hook1: "v_hook v1 = Some d" using map_memory_hook [OF v1(1)] v(5) by simp
  have p1: "set_up E uc1" "can_exec (prot_at uc1 0x400000)"
    using map_memory_engine [OF v1(1) v(3), of prot_at] v1(3) set0 assms(2) by (auto simp: addr_range_mem prot_defs)
  have "\<forall>i < length [0xc3 :: u8]. byte_at uc1 (unat (0x400000 :: u64) + i) \<noteq> None" by (simp add: b1 upd_bytes_def)
  then obtain uc2 where w: "e_mem_write E uc1 0x400000 [0xc3] = (Inr (), uc2)"
    and b2: "byte_at uc2 = upd_bytes (byte_at uc1) 0x400000 [0xc3]"
    using mem_law_write [OF assms(1), of "0x400000" "[0xc3]" uc1] by auto
  let ?v2 = "v1\<lparr>v_uc := Some uc2\<rparr>"
  have v2: "write_guest E v1 0x400000 [0xc3] = (Ok (), ?v2)" by (simp add: write_guest_def v1(3) w reg_op_def)
  have "dom (byte_at uc2) = dom (byte_at uc1)" by (auto simp: b2 b1 upd_bytes_def dom_def)
  then have inv2: "vcpu_inv byte_at ?v2" using v1(2,3) by (simp add: vcpu_inv_def)
  have "mm_claimed (v_map ?v2) \<inter> addr_range STACK_BASE STACK_SIZE = {}"
    by (simp add: cl1 addr_range_disjoint STACK_BASE_def STACK_SIZE_def)
  then obtain v3 uc3 where v3: "map_stack E oc ?v2 STACK_BASE STACK_SIZE = (Ok (), v3)" "v_uc v3 = Some uc3"
    and b3: "byte_at uc3 = upd_bytes (byte_at uc2) (unat STACK_BASE) (replicate (unat STACK_SIZE) 0)"
    using map_memory_cases [OF assms(1) inv2 _ stack_range_ok, of uc2 oc "sup PROT_READ PROT_WRITE"]
    by (auto simp: map_stack_def)
  have prot2: "prot_at uc2 = prot_at uc1" by (rule prot_lawD(2) [OF assms(2) w])
  have p3: "set_up E uc3" "prot_at uc3 x = (if x \<in> addr_range STACK_BASE STACK_SIZE then sup PROT_READ PROT_WRITE else prot_at uc1 x)" for x
    using map_memory_engine [OF v3(1) [unfolded map_stack_def], of uc2 prot_at] v3(2) set_up_eqI(2) [OF p1(1) w] assms(2)
    by (auto simp: prot2)
  have "ret_ready E byte_at prot_at uc3"
    using p1(2) by (simp add: ret_ready_def p3 b3 b2 b1 upd_bytes_def STACK_BASE_def STACK_SIZE_def addr_range_mem prot_defs)
  then show ?thesis using that [OF v(1) v1(1) v2 v3] map_memory_hook [OF v3(1) [unfolded map_stack_def]] hook1 by simp
qed

lemma set_reg_set_up:
  "vcpu_set_reg E v r x = (q, v') \<Longrightarrow> v_uc v = Some uc \<Longrightarrow> v_uc v' = Some uc' \<Longrightarrow> named r \<Longrightarrow> set_up E uc \<Longrightarrow>
     prot_law E prot_at \<Longrightarrow> set_up E uc' \<and> prot_at uc' = prot_at uc"
  using set_up_eqI(3) prot_lawD(3) by (fastforce simp: vcpu_set_reg_def reg_op_def prod_eq_iff)

lemma falloff_test_passes:
  assumes "mem_law E byte_at" and "regs_law E byte_at" and "prot_law E prot_at" and "fresh_engine E byte_at"
    and "faults_on_ret E byte_at prot_at"
  shows "test_run_falls_off_image_returns_falloff E oc ts"
proof -
  let ?d = "register_all oc dispatch_new" and ?rsp = "STACK_BASE + STACK_SIZE - 8"
  obtain v v1 v2 v3 uc where v: "vcpu_new E ?d = Ok v"
      "map_memory E oc v 0x400000 0x1000 (sup PROT_READ PROT_EXEC) = (Ok (), v1)"
      "write_guest E v1 0x400000 [0xc3] = (Ok (), v2)" "map_stack E oc v2 STACK_BASE STACK_SIZE = (Ok (), v3)"
    and uc: "v_uc v3 = Some uc" "v_hook v3 = Some ?d" and ready: "ret_ready E byte_at prot_at uc"
    by (rule ret_page_ready [OF assms(1,3,4)])
  obtain uc1 where s1: "vcpu_set_reg E v3 RIP 0x400000 = (Ok (), v3\<lparr>v_uc := Some uc1\<rparr>)"
      "e_reg_read E uc1 RIP = Inr 0x400000" "byte_at uc1 = byte_at uc"
    by (rule set_reg_ok [OF assms(2) uc(1), where r = RIP]) simp_all
  have uc1: "v_uc (v3\<lparr>v_uc := Some uc1\<rparr>) = Some uc1" by simp
  from set_reg_ok [OF assms(2) this, of RSP ?rsp] obtain uc2 where
      set2: "vcpu_set_reg E (v3\<lparr>v_uc := Some uc1\<rparr>) RSP ?rsp = (Ok (), v3\<lparr>v_uc := Some uc1, v_uc := Some uc2\<rparr>)"
      "e_reg_read E uc2 RSP = Inr ?rsp" "\<forall>r'. named r' \<and> r' \<noteq> RSP \<longrightarrow> e_reg_read E uc2 r' = e_reg_read E uc1 r'"
      "byte_at uc2 = byte_at uc1" by auto
  then have s2: "vcpu_set_reg E (v3\<lparr>v_uc := Some uc1\<rparr>) RSP ?rsp = (Ok (), v3\<lparr>v_uc := Some uc2\<rparr>)"
      "e_reg_read E uc2 RSP = Inr ?rsp" "e_reg_read E uc2 RIP = Inr 0x400000" "byte_at uc2 = byte_at uc"
    using s1(2,3) by simp_all
  let ?v = "v3\<lparr>v_uc := Some uc2\<rparr>"
  have "set_up E uc" using ready by (simp add: ret_ready_def)
  then have up1: "set_up E uc1 \<and> prot_at uc1 = prot_at uc"
    using set_reg_set_up [OF s1(1) uc(1), of uc1 prot_at] assms(3) by simp
  then have up: "set_up E uc2 \<and> prot_at uc2 = prot_at uc"
    using set_reg_set_up [OF s2(1) uc1, of uc2 prot_at] assms(3) by simp
  obtain msg uc3 where f: "e_advance E (e_start E uc2 0x400000 (- 1) 0 0) = (EvFault msg, uc3)"
      "str_contains ''FETCH_UNMAPPED'' msg"
    using assms(5) [unfolded faults_on_ret_def, rule_format, of uc2 "0x400000" ?rsp] s2(2-4) up ready
    by (auto simp: ret_ready_def)
  have "emu_last E oc ?d (run_start E ?v uc2 0 ts) = Some (EmuFault msg, uc3, v_shared v3, ts)"
    using f(1) by (simp add: emu_last_def reg_or_0_Inr [OF s2(3)])
  from run_ends [OF _ _ rtranclp.rtrancl_refl this] have
    "vcpu_run E oc ?v ts 0 = Some (run_outcome E (EmuFault msg) uc3 (v_shared v3), ?v\<lparr>v_uc := Some uc3, v_shared := v_shared v3\<rparr>, ts)"
    using uc(2) by simp
  then show ?thesis
    using f(2)
    by (simp add: test_run_falls_off_image_returns_falloff_def test_vcpu_def v s1(1) s2(1) run_outcome_def falloff_message_def)
qed

section \<open>All tests\<close>

text \<open>The model passes the unit tests of the program: every \<open>#[test]\<close> function of the Rust sources,
  translated call by call and assertion by assertion, holds of the model, in the checked and in the
  release build, for any parser that reads the fixture and any emulator that obeys the laws, executes
  the fixture's code and faults on a return to an unmapped page. This checks the definitions against
  the expectations of the program's authors on fixed inputs; it is not a general property.\<close>

theorem unit_tests_pass:
  assumes "mem_law E byte_at" and "regs_law E byte_at" and "stop_law E" and "prot_law E prot_at"
    and "fresh_engine E byte_at"
    and "runs_hello E byte_at prot_at 0" and "faults_on_ret E byte_at prot_at" and "reads_hello parse"
  shows "test_insert_and_query oc \<and> test_rejects_overlap oc \<and> test_zero_size_is_noop oc \<and>
     test_adjacent_does_not_overlap oc \<and>
     test_loads_static_exec oc parse \<and> test_rejects_non_elf oc parse \<and> test_rejects_truncated_image oc parse \<and>
     test_rejects_pie_in_stage1 oc parse \<and> test_perms_mapping \<and> test_file_bytes_match_memsz_bss oc parse \<and>
     test_map_and_read oc \<and> test_read_returns_io_error_outside_map oc \<and> test_double_map_rejected \<and>
     test_write_past_end_is_io_error oc \<and>
     test_capture_stdout \<and> test_capture_stderr_separately \<and> test_combined_in_fd_order \<and>
     test_unknown_returns_enosys oc ts \<and> test_implemented_lists_sorted oc \<and>
     test_write_captures_output oc ts \<and> test_write_rejects_bad_fd oc ts \<and> test_exit_sets_state oc ts \<and>
     test_register_all_installs_three oc \<and>
     test_drain_roundtrip ts \<and> test_clones_share_buffer ts \<and>
     test_syscall_regs_order \<and> test_default_is_zeroed \<and>
     test_maps_and_runs_hello E oc parse ts \<and> test_stack_layout_is_zeroed E oc \<and>
     test_run_falls_off_image_returns_falloff E oc ts"
  by (intro conjI mmap_tests_pass loader_tests_pass [OF assms(8)] mem_tests_pass io_tests_pass dispatch_tests_pass
      dispatch_impl_tests_pass recorder_tests_pass context_tests_pass
      hello_test_passes [OF assms(1-6,8)] stack_test_passes [OF assms(1,2,5)] falloff_test_passes [OF assms(1,2,4,5,7)])

section \<open>An engine for the tests\<close>

text \<open>The scripted engine's registers and memory, with the little execution the tests need: at the two
  addresses where the fixture's code starts, or goes on after its first system call, it runs to the
  next \<open>syscall\<close>; on anything that is not a \<open>mov\<close> (\<open>0x48\<close>) on an executable page it faults.\<close>

definition test_advance :: "ram \<Rightarrow> uc_event \<times> ram" where
  "test_advance uc =
     (let regs = ram_regs uc; rip = regs RIP in
      if ram_stopped uc then (EvDone, uc)
      else if ram_mem uc (unat rip) \<noteq> Some 0x48 \<or> \<not> can_exec (ram_prot uc (unat rip)) then (EvFault ''FETCH_UNMAPPED'', uc)
      else if rip = 0x401000 then
        (EvSyscall, uc\<lparr>ram_regs := regs(RAX := 1, RDI := 1, RSI := 0x402000, RDX := 15, RIP := 0x40101e)\<rparr>)
      else if rip = 0x40101e then (EvSyscall, uc\<lparr>ram_regs := regs(RAX := 60, RDI := 0, RIP := 0x40102a)\<rparr>)
      else (EvDone, uc))"

definition test_engine :: "ram engine" where
  "test_engine = (ram_engine [])\<lparr>e_advance := test_advance\<rparr>"

lemma test_engine_laws:
  "mem_law test_engine ram_mem" "regs_law test_engine ram_mem" "stop_law test_engine" "prot_law test_engine ram_prot"
  "fresh_engine test_engine ram_mem"
proof -
  have same: "e_mem_read test_engine = e_mem_read (ram_engine [])" "e_mem_write test_engine = e_mem_write (ram_engine [])"
      "e_mem_map test_engine = e_mem_map (ram_engine [])"
      "e_reg_write test_engine = e_reg_write (ram_engine [])" by (simp_all add: test_engine_def)
  show "mem_law test_engine ram_mem"
    using ram_mem_law [of "[]"] unfolding mem_law_def same .
  show "prot_law test_engine ram_prot"
    using ram_prot_law [of "[]"] unfolding prot_law_def same .
  show "regs_law test_engine ram_mem" by (simp add: regs_law_def test_engine_def)
  show "stop_law test_engine" by (simp add: stop_law_def test_engine_def test_advance_def Let_def)
  show "fresh_engine test_engine ram_mem" by (simp add: fresh_engine_def test_engine_def ram_new_def)
qed

lemma test_engine_runs: "runs_hello test_engine ram_mem ram_prot t" "faults_on_ret test_engine ram_mem ram_prot"
proof -
  have code: "hello_code ! 0 = 0x48" "hello_code ! 30 = 0x48" by (simp_all add: hello_code_def)
  show "runs_hello test_engine ram_mem ram_prot t"
    unfolding runs_hello_def
  proof (intro allI impI, elim conjE)
    fix uc :: ram
    assume rip: "e_reg_read test_engine uc RIP = Inr 0x401000"
      and bytes: "\<forall>i < 42. ram_mem uc (0x401000 + i) = Some (hello_code ! i) \<and> can_exec (ram_prot uc (0x401000 + i))"
    have "ram_mem uc 0x401000 = Some 0x48" "ram_mem uc 0x40101e = Some 0x48"
      "can_exec (ram_prot uc 0x401000)" "can_exec (ram_prot uc 0x40101e)"
      using bytes [rule_format, of 0] bytes [rule_format, of 30] by (simp_all add: code)
    then show "\<exists>uc1 uc2. e_advance test_engine (e_start test_engine uc 0x401000 (- 1) t 0) = (EvSyscall, uc1) \<and>
           e_reg_read test_engine uc1 RAX = Inr 1 \<and> e_reg_read test_engine uc1 RDI = Inr 1 \<and>
           e_reg_read test_engine uc1 RSI = Inr 0x402000 \<and> e_reg_read test_engine uc1 RDX = Inr 15 \<and>
           ram_mem uc1 = ram_mem uc \<and>
           e_advance test_engine (snd (e_reg_write test_engine uc1 RAX 15)) = (EvSyscall, uc2) \<and>
           e_reg_read test_engine uc2 RAX = Inr 60 \<and> e_reg_read test_engine uc2 RDI = Inr 0"
      using rip by (simp add: test_engine_def test_advance_def)
  qed
  show "faults_on_ret test_engine ram_mem ram_prot"
    by (auto simp: faults_on_ret_def test_engine_def test_advance_def)
qed

definition test_parse :: "bytes \<Rightarrow> string + goblin_elf" where
  "test_parse img =
     (if length img < 64 then Inl ''type is too big''
      else Inr (hello_elf\<lparr>e_type := ucast (img ! 16) OR push_bit 8 (ucast (img ! 17))\<rparr>))"

lemma test_parse_reads: "reads_hello test_parse"
proof -
  have "hello_static ! 16 = 2" "hello_static ! 17 = 0" "length hello_pie = 8928" "hello_pie ! 16 = 3" "hello_pie ! 17 = 0"
    by (simp_all add: hello_static_def hello_pie_def nth_append hello_headers_def)
  moreover have "hello_elf\<lparr>e_type := 2\<rparr> = hello_elf" by (simp add: hello_elf_def)
  ultimately show ?thesis by (simp add: reads_hello_def test_parse_def)
qed

theorem unit_tests_pass_witness:
  "test_maps_and_runs_hello test_engine True test_parse empty_store \<and>
   test_run_falls_off_image_returns_falloff test_engine False empty_store"
  using unit_tests_pass [OF test_engine_laws test_engine_runs test_parse_reads, of True empty_store]
    unit_tests_pass [OF test_engine_laws test_engine_runs test_parse_reads, of False empty_store] by blast

end
