(* ===== verification/Python_Tests.thy ===== *)
theory Python_Tests
  imports Core_Module Unit_Tests
begin

text \<open>
  The tests of the Python module, \<open>tests/unit/test_dispatch.py\<close> and \<open>tests/unit/test_elf_loader.py\<close>, as
  bool-valued definitions over calls of the module (\<open>py_call\<close>), and the proof that the model passes them.
  The test of an infinite loop is treated on its own: the image it builds does not map the code it is
  given, so the guest starts on zero bytes.
\<close>

section \<open>Reading results\<close>

fun py_item :: "string \<Rightarrow> py_value \<Rightarrow> py_value option" where
  "py_item k (PyDict d) = map_of d k"
| "py_item k _ = None"

fun as_int :: "py_value option \<Rightarrow> int option" where
  "as_int (Some (PyInt i)) = Some i"
| "as_int _ = None"

definition returns ::
  "((string, py_dict) result \<times> trace_store) option \<Rightarrow> (py_dict \<Rightarrow> bool) \<Rightarrow> bool" where
  "returns call P = (case call of Some (Ok d, _) \<Rightarrow> P d | _ \<Rightarrow> False)"

definition raises ::
  "((string, py_dict) result \<times> trace_store) option \<Rightarrow> (string \<Rightarrow> bool) \<Rightarrow> bool" where
  "raises call P = (case call of Some (Err msg, _) \<Rightarrow> P msg | _ \<Rightarrow> False)"

section \<open>tests/unit/test_dispatch.py\<close>

definition test_run_hello_exits_zero ::
  "'uc engine \<Rightarrow> bool \<Rightarrow> (bytes \<Rightarrow> string + goblin_elf) \<Rightarrow> trace_store \<Rightarrow> bool" where
  "test_run_hello_exits_zero E oc parse ts \<longleftrightarrow>
     returns (py_call E oc parse ts (CallRunElf hello_static None)) (\<lambda>result.
       map_of result ''exit'' = Some (PyStr ''exit'') \<and> map_of result ''code'' = Some (PyInt 0) \<and>
       map_of result ''output'' = Some (PyBytes (ascii (''hello, winVpwn'' @ [CHR 0x0A]))))"

definition test_run_trace_records_write_and_exit ::
  "'uc engine \<Rightarrow> bool \<Rightarrow> (bytes \<Rightarrow> string + goblin_elf) \<Rightarrow> trace_store \<Rightarrow> bool" where
  "test_run_trace_records_write_and_exit E oc parse ts \<longleftrightarrow>
     returns (py_call E oc parse ts (CallRunElf hello_static None)) (\<lambda>result.
       case map_of result ''trace'' of
         Some (PyList trace) \<Rightarrow>
           list_ex (\<lambda>rec. py_item ''name'' rec = Some (PyStr ''write'') \<and> py_item ''ret'' rec = Some (PyInt 15)) trace \<and>
           list_ex (\<lambda>rec. py_item ''name'' rec = Some (PyStr ''exit'') \<or> py_item ''name'' rec = Some (PyStr ''exit_group'')) trace \<and>
           (case those (map (\<lambda>rec. as_int (py_item ''seq'' rec)) trace) of
              Some seqs \<Rightarrow> seqs = sort seqs | None \<Rightarrow> False)
       | _ \<Rightarrow> False)"

definition test_run_rejects_non_elf ::
  "'uc engine \<Rightarrow> bool \<Rightarrow> (bytes \<Rightarrow> string + goblin_elf) \<Rightarrow> trace_store \<Rightarrow> bool" where
  "test_run_rejects_non_elf E oc parse ts \<longleftrightarrow>
     raises (py_call E oc parse ts (CallRunElf (ascii ''not an elf'') None)) (str_contains ''E001'')"

definition test_run_timeout_parameter_is_accepted ::
  "'uc engine \<Rightarrow> bool \<Rightarrow> (bytes \<Rightarrow> string + goblin_elf) \<Rightarrow> trace_store \<Rightarrow> bool" where
  "test_run_timeout_parameter_is_accepted E oc parse ts \<longleftrightarrow>
     returns (py_call E oc parse ts (CallRunElf hello_static (Some 5000))) (\<lambda>result.
       map_of result ''exit'' = Some (PyStr ''exit''))"

section \<open>tests/unit/test_elf_loader.py\<close>

definition test_parse_static_exec ::
  "'uc engine \<Rightarrow> bool \<Rightarrow> (bytes \<Rightarrow> string + goblin_elf) \<Rightarrow> trace_store \<Rightarrow> bool" where
  "test_parse_static_exec E oc parse ts \<longleftrightarrow>
     returns (py_call E oc parse ts (CallParseElf hello_static)) (\<lambda>info.
       map_of info ''is_pie'' = Some (PyBool False) \<and>
       (case map_of info ''entry'' of Some (PyInt entry) \<Rightarrow> 0x400000 \<le> entry | _ \<Rightarrow> False) \<and>
       (case map_of info ''segments'' of
          Some (PyList segs) \<Rightarrow>
            0 < length segs \<and>
            list_all (\<lambda>seg. case (py_item ''memsz'' seg, py_item ''filesz'' seg) of
                (Some (PyInt memsz), Some (PyInt filesz)) \<Rightarrow> filesz \<le> memsz | _ \<Rightarrow> False) segs
        | _ \<Rightarrow> False))"

definition test_parse_rejects_garbage ::
  "'uc engine \<Rightarrow> bool \<Rightarrow> (bytes \<Rightarrow> string + goblin_elf) \<Rightarrow> trace_store \<Rightarrow> bool" where
  "test_parse_rejects_garbage E oc parse ts \<longleftrightarrow>
     raises (py_call E oc parse ts (CallParseElf ([0x4d, 0x5a, 0x90, 0x00] @ ascii ''not an elf at all'')))
       (str_contains ''E001'')"

definition test_parse_rejects_truncated ::
  "'uc engine \<Rightarrow> bool \<Rightarrow> (bytes \<Rightarrow> string + goblin_elf) \<Rightarrow> trace_store \<Rightarrow> bool" where
  "test_parse_rejects_truncated E oc parse ts \<longleftrightarrow>
     raises (py_call E oc parse ts (CallParseElf (take 64 hello_static)))
       (\<lambda>msg. take 4 msg = ''E005'' \<or> take 4 msg = ''E006'')"

definition test_parse_empty_image ::
  "'uc engine \<Rightarrow> bool \<Rightarrow> (bytes \<Rightarrow> string + goblin_elf) \<Rightarrow> trace_store \<Rightarrow> bool" where
  "test_parse_empty_image E oc parse ts \<longleftrightarrow>
     raises (py_call E oc parse ts (CallParseElf [])) (str_contains ''E001'')"

section \<open>The hello-world image through the module\<close>

lemma hello_run_elf:
  assumes "mem_law E byte_at" and "regs_law E byte_at" and "stop_law E" and "prot_law E prot_at"
    and "fresh_engine E byte_at" and "runs_hello E byte_at prot_at t" and "parse hello_static = Inr hello_elf"
  shows "\<exists>ts' recs. run_elf E oc parse hello_static t ts = Some (Ok (run_dict (Exit 0) hello_text recs), ts') \<and>
     map tr_name recs = [''write'', ''exit''] \<and> map tr_ret recs = [15, 0] \<and> map tr_seq recs = [0, 1]"
proof -
  obtain s ts1 where sn: "sink_new ts = (s, ts1)" by (cases "sink_new ts")
  then have buf: "ts_buf ts1 s = []" by (auto simp: sink_new_def)
  obtain uc0 uc1 where "e_new E = Inr uc0" "e_hook_syscall E uc0 = (Inr (), uc1)" "byte_at uc1 = (\<lambda>_. None)"
    using assms(5) by (auto simp: fresh_engine_def)
  from hello_prepared [OF assms(1,2,4) this, of oc "std_table oc s"] obtain v uc where
      prep: "prepare_vcpu E oc hello_image (std_table oc s) = Ok v"
    and v: "v_uc v = Some uc" "v_hook v = Some (std_table oc s)" "v_shared v = shared_new"
      "hello_ready E byte_at prot_at uc" by metis
  obtain v' ts2 where run: "vcpu_run E oc v ts1 t = Some (Ok (Exit 0), v', ts2)"
    and out: "vcpu_output v' = hello_text" "map tr_name (ts_buf ts2 s) = [''write'', ''exit'']"
      "map tr_ret (ts_buf ts2 s) = [15, 0]" "map tr_seq (ts_buf ts2 s) = [0, 1]"
    using hello_vcpu_run [OF assms(1,3,6) v(1,2,4) buf] v(3) by (auto simp: vcpu_output_def)
  show ?thesis
    using out by (auto simp: run_elf_prepared [OF hello_loads [where parse = parse, OF assms(7)] sn prep] run)
qed

lemma hello_greeting: "hello_text = ascii (''hello, winVpwn'' @ [CHR 0x0A])"
  by (simp add: hello_text_def ascii_def)

lemma record_items [simp]:
  "py_item ''name'' (record_dict r) = Some (PyStr (tr_name r))"
  "py_item ''ret'' (record_dict r) = Some (PyInt (tr_ret r))"
  "py_item ''seq'' (record_dict r) = Some (py_u64 (tr_seq r))"
  by (cases "tr_args r"; simp add: record_dict_def)+


section \<open>The tests pass\<close>

lemma raises_E001:
  assumes "\<not> has_magic img"
  shows "raises (py_call E oc parse ts (CallRunElf img t)) (str_contains ''E001'')"
    and "raises (py_call E oc parse ts (CallParseElf img)) (str_contains ''E001'')"
proof -
  have "load_elf oc parse img = Err NotElf" using assms by (simp add: load_elf_def)
  then show "raises (py_call E oc parse ts (CallRunElf img t)) (str_contains ''E001'')"
    and "raises (py_call E oc parse ts (CallParseElf img)) (str_contains ''E001'')"
    by (simp_all add: raises_def run_elf_def parse_elf_def)
qed

lemma no_magic:
  "\<not> has_magic (ascii ''not an elf'')" "\<not> has_magic ([0x4d, 0x5a, 0x90, 0x00] @ ascii ''not an elf at all'')"
  "\<not> has_magic []"
  by (simp_all add: has_magic_def ascii_def)

lemma hello_truncated:
  assumes "parse (take 64 hello_static) = Inr hello_elf"
  shows "\<exists>why. load_elf oc parse (take 64 hello_static) = Err (Truncated why)"
proof -
  have magic: "has_magic (take 64 hello_static)" by (simp add: has_magic_def hello_static_def hello_headers_def)
  have bits: "is_64 hello_elf" "e_machine hello_elf = EM_X86_64" "e_type hello_elf = ET_EXEC"
    by (simp_all add: hello_elf_def)
  show ?thesis
    by (simp add: load_elf_def magic assms bits hello_pt_loads hello_phdr_def load_segment_def mm_insert_def
        checked_add64_def sub64_def)
qed

lemma dispatch_file_tests:
  assumes "mem_law E byte_at" and "regs_law E byte_at" and "stop_law E" and "prot_law E prot_at"
    and "fresh_engine E byte_at" and "runs_hello E byte_at prot_at 0" and "runs_hello E byte_at prot_at 5000"
    and "parse hello_static = Inr hello_elf"
  shows "test_run_hello_exits_zero E oc parse ts" "test_run_trace_records_write_and_exit E oc parse ts"
    "test_run_timeout_parameter_is_accepted E oc parse ts"
proof -
  note run = hello_run_elf [where parse = parse, OF assms(1-5) _ assms(8)]
  obtain ts' recs where r: "run_elf E oc parse hello_static 0 ts = Some (Ok (run_dict (Exit 0) hello_text recs), ts')"
    and recs: "map tr_name recs = [''write'', ''exit'']" "map tr_ret recs = [15, 0]" "map tr_seq recs = [0, 1]"
    using run [OF assms(6), of oc ts] by (elim exE conjE)
  obtain r1 r2 where rs: "recs = [r1, r2]" "tr_name r1 = ''write''" "tr_ret r1 = 15" "tr_seq r1 = 0"
      "tr_name r2 = ''exit''" "tr_seq r2 = 1"
    using recs by (auto simp: map_eq_Cons_conv)
  show "test_run_hello_exits_zero E oc parse ts"
    by (simp add: test_run_hello_exits_zero_def returns_def timeout_arg_def r hello_greeting)
  show "test_run_trace_records_write_and_exit E oc parse ts"
    by (simp add: test_run_trace_records_write_and_exit_def returns_def timeout_arg_def r rs py_u64_def)
  obtain ts2 recs2 where "run_elf E oc parse hello_static 5000 ts = Some (Ok (run_dict (Exit 0) hello_text recs2), ts2)"
    using run [OF assms(7), of oc ts] by (elim exE conjE)
  then show "test_run_timeout_parameter_is_accepted E oc parse ts"
    by (simp add: test_run_timeout_parameter_is_accepted_def returns_def timeout_arg_def)
qed

lemma loader_file_tests:
  assumes "parse hello_static = Inr hello_elf"
    and "parse (take 64 hello_static) = Inl msg \<or> parse (take 64 hello_static) = Inr hello_elf"
  shows "test_parse_static_exec E oc parse ts" "test_parse_rejects_truncated E oc parse ts"
proof -
  have le: "load_elf oc parse hello_static = Ok hello_image" using hello_loads [where parse = parse, OF assms(1)] .
  show "test_parse_static_exec E oc parse ts"
    by (simp add: test_parse_static_exec_def returns_def parse_elf_def le hello_segments segment_dict_def
        hello_segment_def py_u64_def) (simp add: elf_image_def hello_elf_def)
  have "has_magic (take 64 hello_static)" by (simp add: has_magic_def hello_static_def hello_headers_def)
  then have "(\<exists>why. load_elf oc parse (take 64 hello_static) = Err (BadPhdr why)) \<or>
      (\<exists>why. load_elf oc parse (take 64 hello_static) = Err (Truncated why))"
    using assms(2) hello_truncated [where parse = parse] by (auto simp: load_elf_def)
  then show "test_parse_rejects_truncated E oc parse ts"
    by (auto simp: test_parse_rejects_truncated_def raises_def parse_elf_def)
qed


section \<open>The image of the timeout test\<close>

text \<open>\<open>_minimal_exec\<close> packs an ELF header, one program header and a body of \<open>entry - 120\<close> zeros and the
  code; \<open>minimal_elf\<close> is what its headers say. The body is padded as if file offsets were addresses.\<close>

definition pack_le :: "nat \<Rightarrow> nat \<Rightarrow> bytes" where
  "pack_le n x = map (\<lambda>i. of_nat (x div 256 ^ i)) [0..<n]"

definition minimal_entry :: nat where
  "minimal_entry = 0x400078"

definition minimal_body :: "bytes \<Rightarrow> bytes" where
  "minimal_body code = replicate (minimal_entry - 64 - 56) 0 @ code"

definition minimal_headers :: "bytes \<Rightarrow> bytes" where
  "minimal_headers code =
     [0x7f, 0x45, 0x4c, 0x46] @ pack_le 1 2 @ pack_le 1 1 @ pack_le 1 1 @ replicate 9 0 @
     pack_le 2 2 @ pack_le 2 62 @ pack_le 4 1 @ pack_le 8 minimal_entry @ pack_le 8 64 @ pack_le 8 0 @
     pack_le 4 0 @ pack_le 2 64 @ pack_le 2 56 @ pack_le 2 1 @ pack_le 2 0 @ pack_le 2 0 @ pack_le 2 0 @
     pack_le 4 1 @ pack_le 4 5 @ pack_le 8 0 @ pack_le 8 0x400000 @ pack_le 8 0x400000 @
     pack_le 8 (length (minimal_body code)) @ pack_le 8 (length (minimal_body code)) @ pack_le 8 0x1000"

definition minimal_exec :: "bytes \<Rightarrow> bytes" where
  "minimal_exec code = minimal_headers code @ minimal_body code"

definition minimal_phdr :: "bytes \<Rightarrow> program_header" where
  "minimal_phdr code =
     \<lparr>p_type = PT_LOAD, p_flags = 5, p_offset = 0, p_vaddr = 0x400000,
      p_filesz = of_nat (length (minimal_body code)), p_memsz = of_nat (length (minimal_body code)), p_align = 0x1000\<rparr>"

definition minimal_elf :: "bytes \<Rightarrow> goblin_elf" where
  "minimal_elf code =
     \<lparr>is_64 = True, e_machine = EM_X86_64, e_type = ET_EXEC, e_entry = of_nat minimal_entry,
      program_headers = [minimal_phdr code]\<rparr>"

definition jmp_self :: bytes where
  "jmp_self = [0xeb, 0xfe]"

abbreviation minimal_image :: loaded_elf where
  "minimal_image \<equiv> elf_image (minimal_exec jmp_self) (minimal_elf jmp_self)"

lemma pack_le_length [simp]: "length (pack_le n x) = n"
  by (simp add: pack_le_def)

lemma minimal_lengths:
  "length (minimal_headers code) = 120" "length (minimal_body jmp_self) = 0x400002"
  "length (minimal_exec jmp_self) = 0x40007a"
  by (simp_all add: minimal_headers_def minimal_exec_def minimal_body_def minimal_entry_def jmp_self_def)

lemma minimal_zero: "120 \<le> i \<Longrightarrow> i < 0x400078 \<Longrightarrow> minimal_exec jmp_self ! i = 0"
  by (auto simp: minimal_exec_def nth_append minimal_lengths minimal_body_def minimal_entry_def)

lemma minimal_pt_loads: "pt_loads (minimal_elf jmp_self) = [minimal_phdr jmp_self]"
  by (simp add: pt_loads_def minimal_elf_def minimal_phdr_def)

lemma minimal_phdr_fields:
  "p_vaddr (minimal_phdr jmp_self) = 0x400000" "p_offset (minimal_phdr jmp_self) = 0"
  "p_filesz (minimal_phdr jmp_self) = 0x400002" "p_memsz (minimal_phdr jmp_self) = 0x400002"
  by (simp_all add: minimal_phdr_def minimal_lengths)

lemma minimal_accepted:
  assumes "parse (minimal_exec jmp_self) = Inr (minimal_elf jmp_self)"
  shows "elf_accepts parse (minimal_exec jmp_self) (minimal_elf jmp_self)"
proof -
  have "has_magic (minimal_exec jmp_self)"
    by (simp add: has_magic_def minimal_lengths) (simp add: minimal_exec_def minimal_headers_def)
  moreover have "phdr_fits (minimal_exec jmp_self) (minimal_phdr jmp_self)"
    by (simp add: phdr_fits_def minimal_phdr_fields minimal_lengths no_wrap_def isize_max_def)
  ultimately show ?thesis
    using assms by (simp add: elf_accepts_def minimal_pt_loads phdrs_disjoint_def) (simp add: minimal_elf_def)
qed

lemma minimal_segments: "le_segments minimal_image = [phdr_segment (minimal_exec jmp_self) (minimal_phdr jmp_self)]"
  by (simp add: elf_image_def minimal_pt_loads)

lemma minimal_segment_fields:
  "s_vaddr (phdr_segment img (minimal_phdr jmp_self)) = 0x400000"
  "s_memsz (phdr_segment img (minimal_phdr jmp_self)) = 0x400002"
  "s_filesz (phdr_segment img (minimal_phdr jmp_self)) = 0x400002"
  by (simp_all add: phdr_segment_def minimal_phdr_fields)

lemma minimal_claim:
  "fst (seg_claim (phdr_segment img (minimal_phdr jmp_self))) = 0x400000"
  "fst (snd (seg_claim (phdr_segment img (minimal_phdr jmp_self)))) = 0x401000"
  by (simp_all add: seg_claim_def minimal_segment_fields page_floor_def PAGE_SIZE_def)

lemma minimal_data:
  assumes "120 \<le> i" and "i < 0x400002"
  shows "s_data (phdr_segment (minimal_exec jmp_self) (minimal_phdr jmp_self)) ! i = 0"
  using assms minimal_zero [of i]
  by (simp add: phdr_segment_def minimal_phdr_fields sub_slice_def nth_append minimal_lengths)

text \<open>\<open>test_run_infinite_loop_times_out\<close> does not run the loop it is named after. The two bytes of its code
  lie in the file behind the part that is mapped: when the guest starts, every byte from the entry
  point to the end of the mapped pages is zero, so what it executes is \<open>00 00\<close> (\<open>add [rax], al\<close>).\<close>

theorem timeout_test_maps_no_code:
  assumes "mem_law E byte_at" and "regs_law E byte_at" and "e_new E = Inr uc0"
    and "e_hook_syscall E uc0 = (Inr (), uc1)" and "byte_at uc1 = (\<lambda>_. None)"
    and "parse (minimal_exec jmp_self) = Inr (minimal_elf jmp_self)"
  shows "load_elf oc parse (minimal_exec jmp_self) = Ok minimal_image \<and>
     (\<exists>v uc. prepare_vcpu E oc minimal_image d = Ok v \<and> v_uc v = Some uc \<and>
        vcpu_reg E v RIP = Ok (of_nat minimal_entry) \<and>
        (\<forall>x. minimal_entry \<le> x \<and> x < 0x801000 \<longrightarrow> byte_at uc x = Some 0))"
proof -
  have le: "load_elf oc parse (minimal_exec jmp_self) = Ok minimal_image"
    using minimal_accepted [where parse = parse, OF assms(6)] load_elf_Ok_char by blast
  have placed: "\<forall>seg \<in> set (le_segments minimal_image). seg_placed seg"
    by (simp add: minimal_segments seg_placed_def minimal_segment_fields)
  have disj: "ranges_disjoint (map seg_claim (le_segments minimal_image))"
    "\<forall>seg \<in> set (le_segments minimal_image). claim_range seg \<inter> addr_range STACK_BASE STACK_SIZE = {}"
    by (simp_all add: minimal_segments minimal_claim ranges_disjoint_def addr_range_disjoint STACK_BASE_def STACK_SIZE_def)
  obtain v uc where v: "prepare_vcpu E oc minimal_image d = Ok v" "v_uc v = Some uc"
      "vcpu_reg E v RIP = Ok (le_entry minimal_image)"
    and bytes: "\<forall>x. byte_at uc x =
      (if x \<in> addr_range STACK_BASE STACK_SIZE then Some 0 else image_byte (\<lambda>_. None) (le_segments minimal_image) x)"
    using prepare_outcome [OF assms(1,2) le assms(3-5) placed disj, of oc d] by auto
  have "byte_at uc x = Some 0" if "minimal_entry \<le> x" "x < 0x801000" for x
    using that minimal_data [of "x - 0x400000"]
    by (simp add: bytes image_byte_def minimal_segments minimal_claim minimal_segment_fields addr_range_mem
        minimal_entry_def STACK_BASE_def STACK_SIZE_def)
  moreover have "le_entry minimal_image = of_nat minimal_entry" by (simp add: elf_image_def minimal_elf_def)
  ultimately show ?thesis using le v by auto
qed

section \<open>The tests hold of the model\<close>

text \<open>The tests of \<open>test_dispatch.py\<close> and \<open>test_elf_loader.py\<close>, but for the one on an infinite loop,
  whose image is treated above, hold in both builds and whatever calls came before, for any
  emulator that obeys the laws and executes the fixture's code, in less than the 5000 units of time
  that one of them allows, and any parser that reads the fixture's headers and, of its first 64
  bytes, reports these headers or an error. A check of the definitions on fixed inputs.\<close>

theorem python_tests_pass:
  assumes "mem_law E byte_at" and "regs_law E byte_at" and "stop_law E" and "prot_law E prot_at"
    and "fresh_engine E byte_at" and "runs_hello E byte_at prot_at 0" and "runs_hello E byte_at prot_at 5000"
    and "parse hello_static = Inr hello_elf"
    and "parse (take 64 hello_static) = Inl msg \<or> parse (take 64 hello_static) = Inr hello_elf"
  shows "test_run_hello_exits_zero E oc parse ts \<and> test_run_trace_records_write_and_exit E oc parse ts \<and>
     test_run_rejects_non_elf E oc parse ts \<and> test_run_timeout_parameter_is_accepted E oc parse ts \<and>
     test_parse_static_exec E oc parse ts \<and> test_parse_rejects_garbage E oc parse ts \<and>
     test_parse_rejects_truncated E oc parse ts \<and> test_parse_empty_image E oc parse ts"
  unfolding test_run_rejects_non_elf_def test_parse_rejects_garbage_def test_parse_empty_image_def
  by (intro conjI dispatch_file_tests [where parse = parse, OF assms(1-8)]
      loader_file_tests [where parse = parse, OF assms(8,9)] raises_E001 no_magic)

theorem python_tests_pass_witness:
  "test_run_trace_records_write_and_exit test_engine True test_parse empty_store \<and>
   test_parse_rejects_truncated test_engine False test_parse empty_store"
proof -
  have "hello_static ! 16 = 2" "hello_static ! 17 = 0"
    by (simp_all add: hello_static_def nth_append hello_headers_def)
  then have "test_parse (take 64 hello_static) = Inr (hello_elf\<lparr>e_type := 2\<rparr>)" by (simp add: test_parse_def)
  then have part: "test_parse (take 64 hello_static) = Inl [] \<or> test_parse (take 64 hello_static) = Inr hello_elf"
    by (simp add: hello_elf_def)
  have whole: "test_parse hello_static = Inr hello_elf" using test_parse_reads by (simp add: reads_hello_def)
  show ?thesis
    using python_tests_pass [where parse = test_parse, OF test_engine_laws test_engine_runs(1) test_engine_runs(1) whole part] by blast
qed

end
