(* ===== verification/Py_Format.thy ===== *)
theory Py_Format
  imports Python_Api
begin

text \<open>
  The part of Python's standard library that the command line uses on text: \<open>str\<close> of integers, strings and
  booleans and of the containers built from them, the formats \<open>:x\<close> and \<open>:08x\<close>, \<open>bytes.hex\<close> and
  \<open>bytes.fromhex\<close>, \<open>bytes.decode("utf-8", "replace")\<close> and \<open>json.dumps\<close> of a string. Strings are lists of
  characters, here of ASCII; decoded text, which has any code point, is a list of numbers, and its JSON text is
  ASCII again. The lemmas are the round trips: a dump reads back as the bytes it shows, ASCII decodes to
  itself, and the JSON text of a string is printable.
\<close>

section \<open>Exceptions\<close>

datatype py_exn =
    ValueError string
  | OSError string
  | OverflowError
  | KeyError string
  | ImportError string
  | OtherError string
  | PanicException panic

section \<open>Numbers\<close>

definition str_int :: "int \<Rightarrow> string" where
  "str_int i = (if i < 0 then CHR ''-'' # fmt_dec (nat (- i)) else fmt_dec (nat i))"

definition fmt_x :: "int \<Rightarrow> string" where
  "fmt_x i = (if i < 0 then CHR ''-'' # fmt_hex (nat (- i)) else fmt_hex (nat i))"

definition zfill :: "nat \<Rightarrow> string \<Rightarrow> string" where
  "zfill n s = replicate (n - length s) (CHR ''0'') @ s"

definition fmt_08x :: "int \<Rightarrow> string" where
  "fmt_08x i = (if i < 0 then CHR ''-'' # zfill 7 (fmt_hex (nat (- i))) else zfill 8 (fmt_hex (nat i)))"

lemma str_int_of_nat [simp]: "str_int (int n) = fmt_dec n"
  by (simp add: str_int_def)

lemma str_int_uint [simp]: "str_int (uint w) = fmt_dec (unat w)"
  using str_int_of_nat [of "unat w"] by simp

lemma fmt_x_of_nat [simp]: "fmt_x (int n) = fmt_hex n"
  by (simp add: fmt_x_def)

section \<open>Text of values\<close>

fun join :: "string \<Rightarrow> string list \<Rightarrow> string" where
  "join sep [] = []"
| "join sep [s] = s"
| "join sep (s # t # ss) = s @ sep @ join sep (t # ss)"

definition hex2 :: "nat \<Rightarrow> string" where
  "hex2 n = [digit_char (n div 16 mod 16), digit_char (n mod 16)]"

text \<open>\<open>repr\<close> of a string or of bytes: single quotes, unless the text has one and no double quote; the quote,
  backslashes and control characters are escaped.\<close>

definition repr_quote :: "string \<Rightarrow> char" where
  "repr_quote s = (if CHR 0x27 \<in> set s \<and> CHR 0x22 \<notin> set s then CHR 0x22 else CHR 0x27)"

definition repr_char :: "char \<Rightarrow> char \<Rightarrow> string" where
  "repr_char q c =
     (if c = q \<or> c = CHR 0x5C then [CHR 0x5C, c]
      else if c = CHR 0x0A then [CHR 0x5C, CHR ''n'']
      else if c = CHR 0x0D then [CHR 0x5C, CHR ''r'']
      else if c = CHR 0x09 then [CHR 0x5C, CHR ''t'']
      else if of_char c < (32 :: nat) \<or> 127 \<le> (of_char c :: nat) then [CHR 0x5C, CHR ''x''] @ hex2 (of_char c)
      else [c])"

definition repr_str :: "string \<Rightarrow> string" where
  "repr_str s = [repr_quote s] @ concat (map (repr_char (repr_quote s)) s) @ [repr_quote s]"

definition chars_of :: "bytes \<Rightarrow> string" where
  "chars_of bs = map (\<lambda>b. char_of (unat b)) bs"

fun py_repr :: "py_value \<Rightarrow> string" where
  "py_repr (PyBool b) = (if b then ''True'' else ''False'')"
| "py_repr (PyInt i) = str_int i"
| "py_repr (PyStr s) = repr_str s"
| "py_repr (PyBytes bs) = CHR ''b'' # repr_str (chars_of bs)"
| "py_repr (PyList vs) = ''['' @ join '', '' (map py_repr vs) @ '']''"
| "py_repr (PyDict kvs) =
     ''{'' @ join '', '' (map (\<lambda>(k, v). repr_str k @ '': '' @ v) (map (map_prod id py_repr) kvs)) @ ''}''"

fun py_str :: "py_value \<Rightarrow> string" where
  "py_str (PyStr s) = s"
| "py_str v = py_repr v"

section \<open>Hexadecimal dumps\<close>

definition bytes_hex :: "bytes \<Rightarrow> string" where
  "bytes_hex bs = concat (map (\<lambda>b. hex2 (unat b)) bs)"

definition hex_digit :: "char \<Rightarrow> nat option" where
  "hex_digit c =
     (let n = of_char c :: nat in
      if 48 \<le> n \<and> n \<le> 57 then Some (n - 48)
      else if 97 \<le> n \<and> n \<le> 102 then Some (n - 87)
      else if 65 \<le> n \<and> n \<le> 70 then Some (n - 55)
      else None)"

definition is_space :: "char \<Rightarrow> bool" where
  "is_space c \<longleftrightarrow> of_char c \<in> {9, 10, 11, 12, 13, 32 :: nat}"

definition fromhex_error :: "nat \<Rightarrow> py_exn" where
  "fromhex_error i = ValueError (''non-hexadecimal number found in fromhex() arg at position '' @ fmt_dec i)"

text \<open>White space is skipped before a pair of digits and nowhere else; \<open>i\<close> is the position of the next
  character.\<close>

fun fromhex_loop :: "nat \<Rightarrow> string \<Rightarrow> py_exn + bytes" where
  "fromhex_loop i [] = Inr []"
| "fromhex_loop i [c] =
     (if is_space c then Inr []
      else case hex_digit c of None \<Rightarrow> Inl (fromhex_error i) | Some _ \<Rightarrow> Inl (fromhex_error (i + 1)))"
| "fromhex_loop i (c # d # s) =
     (if is_space c then fromhex_loop (i + 1) (d # s)
      else case hex_digit c of
             None \<Rightarrow> Inl (fromhex_error i)
           | Some h \<Rightarrow>
               (case hex_digit d of
                  None \<Rightarrow> Inl (fromhex_error (i + 1))
                | Some l \<Rightarrow> map_sum id (\<lambda>bs. of_nat (16 * h + l) # bs) (fromhex_loop (i + 2) s)))"

definition bytes_fromhex :: "string \<Rightarrow> py_exn + bytes" where
  "bytes_fromhex s =
     (case find (\<lambda>i. 128 \<le> (of_char (s ! i) :: nat)) [0..<length s] of
        Some i \<Rightarrow> Inl (fromhex_error i)
      | None \<Rightarrow> fromhex_loop 0 s)"


section \<open>Decoding UTF-8\<close>

text \<open>\<open>decode("utf-8", "replace")\<close>: the code points of the text, with U+FFFD for each maximal part of a sequence
  that is not well-formed. \<open>cont\<close> is a continuation byte; the second byte of a sequence has a
  narrower range after some first bytes.\<close>

definition cont :: "nat \<Rightarrow> bool" where
  "cont b \<longleftrightarrow> 0x80 \<le> b \<and> b < 0xC0"

definition second_ok :: "nat \<Rightarrow> nat \<Rightarrow> bool" where
  "second_ok a b \<longleftrightarrow>
     (if a = 0xE0 then 0xA0 \<le> b \<and> b < 0xC0
      else if a = 0xED then 0x80 \<le> b \<and> b < 0xA0
      else if a = 0xF0 then 0x90 \<le> b \<and> b < 0xC0
      else if a = 0xF4 then 0x80 \<le> b \<and> b < 0x90
      else cont b)"

definition seq_length :: "nat \<Rightarrow> nat" where
  "seq_length a =
     (if 0xC2 \<le> a \<and> a < 0xE0 then 2 else if 0xE0 \<le> a \<and> a < 0xF0 then 3 else if 0xF0 \<le> a \<and> a < 0xF5 then 4 else 1)"

text \<open>How many bytes a sequence with first byte \<open>a\<close> takes of the bytes \<open>bs\<close> after it, and whether it is
  complete.\<close>

definition seq_taken :: "nat \<Rightarrow> nat list \<Rightarrow> nat \<times> bool" where
  "seq_taken a bs =
     (let good = takeWhile (\<lambda>(i, b). if i = 0 then second_ok a b else cont b)
                   (zip [0..<seq_length a - 1] bs)
      in (length good, length good = seq_length a - 1))"

definition code_point :: "nat \<Rightarrow> nat list \<Rightarrow> nat" where
  "code_point a bs = foldl (\<lambda>acc b. acc * 64 + b mod 64) (a mod (2 ^ (7 - seq_length a))) bs"

function utf8_decode :: "nat list \<Rightarrow> nat list" where
  "utf8_decode [] = []"
| "utf8_decode (a # bs) =
     (if a < 0x80 then a # utf8_decode bs
      else if seq_length a = 1 then 0xFFFD # utf8_decode bs
      else let (k, complete) = seq_taken a bs in
           (if complete then code_point a (take k bs) else 0xFFFD) # utf8_decode (drop k bs))"
  by pat_completeness auto
termination
  by (relation "measure length") auto

section \<open>JSON text\<close>

definition hex4 :: "nat \<Rightarrow> string" where
  "hex4 n = hex2 (n div 256) @ hex2 (n mod 256)"

definition json_escape :: "nat \<Rightarrow> string" where
  "json_escape n =
     (if n = 0x22 then [CHR 0x5C, CHR 0x22]
      else if n = 0x5C then [CHR 0x5C, CHR 0x5C]
      else if n = 0x0A then [CHR 0x5C, CHR ''n'']
      else if n = 0x0D then [CHR 0x5C, CHR ''r'']
      else if n = 0x09 then [CHR 0x5C, CHR ''t'']
      else if n = 0x0C then [CHR 0x5C, CHR ''f'']
      else if n = 0x08 then [CHR 0x5C, CHR ''b'']
      else if 0x20 \<le> n \<and> n \<le> 0x7E then [char_of n]
      else if n < 0x10000 then [CHR 0x5C, CHR ''u''] @ hex4 n
      else [CHR 0x5C, CHR ''u''] @ hex4 (0xD800 + (n - 0x10000) div 0x400) @
           [CHR 0x5C, CHR ''u''] @ hex4 (0xDC00 + (n - 0x10000) mod 0x400))"

definition json_dumps_str :: "nat list \<Rightarrow> string" where
  "json_dumps_str cps = [CHR 0x22] @ concat (map json_escape cps) @ [CHR 0x22]"

section \<open>Lemmas\<close>

lemma of_char_digit: "d < 16 \<Longrightarrow> of_char (digit_char d) = (if d < 10 then 48 + d else 87 + d :: nat)"
proof -
  have "\<forall>d \<in> set [0..<16]. of_char (digit_char d) = (if d < 10 then 48 + d else 87 + d :: nat)"
    by (simp add: digit_char_def upt_rec numeral_nat)
  then show "d < 16 \<Longrightarrow> ?thesis" by simp
qed

lemma hex_digit_char: "d < 16 \<Longrightarrow> hex_digit (digit_char d) = Some d"
  by (simp add: hex_digit_def of_char_digit Let_def)

lemma digit_not_space: "d < 16 \<Longrightarrow> \<not> is_space (digit_char d)"
  by (auto simp: is_space_def of_char_digit)

lemma digit_ascii: "d < 16 \<Longrightarrow> of_char (digit_char d) < (128 :: nat)"
  by (simp add: of_char_digit)

lemma fromhex_loop_hex: "fromhex_loop i (bytes_hex bs) = Inr bs"
proof (induction bs arbitrary: i)
  case (Cons b bs)
  have "unat b < 256" by (rule order_less_le_trans [OF unsigned_less]) simp
  then have h: "16 * (unat b div 16) + unat b mod 16 = unat b" and d: "unat b div 16 < 16" by simp_all
  have hex: "bytes_hex (b # bs) = digit_char (unat b div 16) # digit_char (unat b mod 16) # bytes_hex bs"
    using d by (simp add: bytes_hex_def hex2_def)
  show ?case
    unfolding hex using Cons.IH [of "i + 2"] d h
    by (simp add: digit_not_space hex_digit_char)
qed (simp add: bytes_hex_def)

lemma hex_ascii: "c \<in> set (bytes_hex bs) \<Longrightarrow> of_char c < (128 :: nat)"
  by (auto simp: bytes_hex_def hex2_def digit_ascii)

lemma fromhex_hex: "bytes_fromhex (bytes_hex bs) = Inr bs"
proof -
  have "find (\<lambda>i. 128 \<le> (of_char (bytes_hex bs ! i) :: nat)) [0..<length (bytes_hex bs)] = None"
    using hex_ascii [OF nth_mem] by (simp add: find_None_iff not_le)
  then show ?thesis by (simp add: bytes_fromhex_def fromhex_loop_hex)
qed

lemma utf8_ascii: "\<forall>b \<in> set bs. b < 0x80 \<Longrightarrow> utf8_decode bs = bs"
  by (induction bs) simp_all

definition printable :: "char \<Rightarrow> bool" where
  "printable c \<longleftrightarrow> 32 \<le> (of_char c :: nat) \<and> (of_char c :: nat) < 127"

lemma printable_hex: "c \<in> set (hex4 n) \<Longrightarrow> printable c"
  by (auto simp: hex4_def hex2_def printable_def of_char_digit)

lemma json_escape_printable: "c \<in> set (json_escape n) \<Longrightarrow> printable c"
  by (auto simp: json_escape_def printable_def split: if_splits dest: printable_hex [unfolded printable_def])

lemma json_dumps_printable: "\<forall>c \<in> set (json_dumps_str cps). printable c"
  by (auto simp: json_dumps_str_def dest: json_escape_printable) (simp_all add: printable_def)

end
