(* ===== verification/Cli.thy ===== *)
theory Cli
  imports Complex_Main Core_Module Py_Format
begin

text \<open>
  The two commands of \<open>src/winvpwn/cli.py\<close> that call the engine, \<open>run\<close> and \<open>elf\<close>: what they write to
  standard output, the text they print, and how the process ends. A command's options come in as values:
  the file is the result of reading it, the timeout a Python float. What goes to standard output is a list of
  items in order: bytes, a line of \<open>rich\<close> markup, a table with its title, columns and cells, a JSON value.

  What becomes of an item is up to \<open>rich\<close> and the system, a parameter \<open>console\<close>: an item is written to
  standard output as some bytes, or it raises, as \<open>rich\<close> does with a \<open>MarkupError\<close> on a line that closes
  a tag it has not opened. \<open>--no-color\<close>, which makes another console, is an instance of this.

  The commands are written over any module with the two functions, as Python's are; \<open>cli_run\<close> and
  \<open>cli_elf\<close> put the model's in. The locale \<open>core_contract\<close> is what \<open>_core.pyi\<close> promises of the
  results, and under it no command fails on a missing key or a value of another type.

  Both commands catch \<open>ValueError\<close> and \<open>OSError\<close> of the engine. Python's \<open>int\<close> raises \<open>OverflowError\<close> for
  an infinite float, PyO3 raises it for an integer that is no \<open>u64\<close>, and a panic of the engine arrives as
  \<open>PanicException\<close>; none of these is a \<open>ValueError\<close>. What the console raises is not caught either, in the
  handler as elsewhere. A panic in the engine's hook ends the process.
\<close>

section \<open>Values and output\<close>

datatype py_float = Finite real | Infinity | NegInfinity | NotANumber

datatype cli_item =
    StdoutBytes bytes
  | PrintLine string
  | PrintTable string "string list" "string list list"
  | PrintJson py_value

datatype cli_end = ExitCode int | Uncaught py_exn | ProcessAborted

type_synonym console = "cli_item \<Rightarrow> py_exn + bytes"

text \<open>A statement prints and then goes on with a value or raises.\<close>

type_synonym 'a stmt = "cli_item list \<times> (py_exn + 'a)"

definition e_bind :: "py_exn + 'a \<Rightarrow> ('a \<Rightarrow> py_exn + 'b) \<Rightarrow> py_exn + 'b" where
  "e_bind r f = (case r of Inl e \<Rightarrow> Inl e | Inr x \<Rightarrow> f x)"

definition then_do :: "'a stmt \<Rightarrow> ('a \<Rightarrow> 'b stmt) \<Rightarrow> 'b stmt" where
  "then_do m f =
     (case snd m of Inl e \<Rightarrow> (fst m, Inl e) | Inr x \<Rightarrow> (fst m @ fst (f x), snd (f x)))"

definition prints :: "console \<Rightarrow> cli_item \<Rightarrow> unit stmt" where
  "prints con i = (case con i of Inl e \<Rightarrow> ([], Inl e) | Inr _ \<Rightarrow> ([i], Inr ()))"

definition of_value :: "py_exn + 'a \<Rightarrow> 'a stmt" where
  "of_value r = ([], r)"

fun map_e :: "('a \<Rightarrow> py_exn + 'b) \<Rightarrow> 'a list \<Rightarrow> py_exn + 'b list" where
  "map_e f [] = Inr []"
| "map_e f (x # xs) = e_bind (f x) (\<lambda>y. e_bind (map_e f xs) (\<lambda>ys. Inr (y # ys)))"

definition stmt_end :: "int stmt \<Rightarrow> cli_item list \<times> cli_end" where
  "stmt_end m = (fst m, case snd m of Inl e \<Rightarrow> Uncaught e | Inr code \<Rightarrow> ExitCode code)"

text \<open>\<open>print_json\<close> raises on a value that JSON has no form for, which of these is bytes.\<close>

fun json_ok :: "py_value \<Rightarrow> bool" where
  "json_ok (PyBytes bs) = False"
| "json_ok (PyList vs) = list_all json_ok vs"
| "json_ok (PyDict kvs) = list_all snd (map (map_prod id json_ok) kvs)"
| "json_ok v = True"

definition print_json :: "console \<Rightarrow> py_value \<Rightarrow> unit stmt" where
  "print_json con v = (if json_ok v then prints con (PrintJson v) else of_value (Inl (OtherError ''TypeError'')))"

definition subscript :: "py_dict \<Rightarrow> string \<Rightarrow> py_exn + py_value" where
  "subscript d k = (case map_of d k of None \<Rightarrow> Inl (KeyError k) | Some v \<Rightarrow> Inr v)"

definition get_or :: "py_dict \<Rightarrow> string \<Rightarrow> py_value \<Rightarrow> py_value" where
  "get_or d k v = (case map_of d k of None \<Rightarrow> v | Some w \<Rightarrow> w)"

fun truthy :: "py_value \<Rightarrow> bool" where
  "truthy (PyBool b) = b"
| "truthy (PyInt i) = (i \<noteq> 0)"
| "truthy (PyStr s) = (s \<noteq> [])"
| "truthy (PyBytes bs) = (bs \<noteq> [])"
| "truthy (PyList vs) = (vs \<noteq> [])"
| "truthy (PyDict kvs) = (kvs \<noteq> [])"

definition markup :: "string \<Rightarrow> string \<Rightarrow> string" where
  "markup style txt = ''['' @ style @ '']'' @ txt @ ''[/]''"

definition OK :: string where "OK = ''green''"
definition WARN :: string where "WARN = ''gold3''"
definition ERROR :: string where "ERROR = ''indian_red''"
definition PRIMARY :: string where "PRIMARY = ''cyan''"

definition error_line :: "string \<Rightarrow> cli_item" where
  "error_line msg = PrintLine (markup ERROR ''error'' @ '' '' @ msg)"

definition report_error :: "console \<Rightarrow> string \<Rightarrow> cli_item list \<times> cli_end" where
  "report_error con msg = stmt_end (then_do (prints con (error_line msg)) (\<lambda>_. of_value (Inr 2)))"

fun cli_except :: "console \<Rightarrow> py_exn \<Rightarrow> cli_item list \<times> cli_end" where
  "cli_except con (ValueError msg) = report_error con msg"
| "cli_except con (OSError msg) = report_error con msg"
| "cli_except con e = ([], Uncaught e)"

section \<open>Arguments and results of the module\<close>

text \<open>\<open>int(timeout)\<close> truncates towards zero; the argument of \<open>run_elf\<close> is a \<open>u64\<close>.\<close>

fun py_int :: "py_float \<Rightarrow> py_exn + int" where
  "py_int (Finite x) = Inr (if 0 \<le> x then \<lfloor>x\<rfloor> else \<lceil>x\<rceil>)"
| "py_int NotANumber = Inl (ValueError ''cannot convert float NaN to integer'')"
| "py_int _ = Inl OverflowError"

definition u64_arg :: "int \<Rightarrow> py_exn + u64" where
  "u64_arg i = (if 0 \<le> i \<and> i < 2 ^ 64 then Inr (of_int i) else Inl OverflowError)"

definition py_result :: "(string, 'a) result \<Rightarrow> py_exn + 'a" where
  "py_result r = (case r of Ok x \<Rightarrow> Inr x | Err msg \<Rightarrow> Inl (ValueError msg) | Panic p \<Rightarrow> Inl (PanicException p))"

section \<open>The command \<open>run\<close>\<close>

definition exit_code :: "py_dict \<Rightarrow> int" where
  "exit_code result =
     (if map_of result ''exit'' = Some (PyStr ''exit'')
      then (case map_of result ''code'' of
              Some (PyInt code) \<Rightarrow> code | Some (PyBool b) \<Rightarrow> (if b then 1 else 0) | _ \<Rightarrow> 0)
      else 1)"

definition print_run_summary :: "console \<Rightarrow> py_dict \<Rightarrow> unit stmt" where
  "print_run_summary con result =
     then_do (of_value (subscript result ''exit'')) (\<lambda>exit_kind.
       if exit_kind = PyStr ''exit'' then
         (let code = get_or result ''code'' (PyInt 0);
              style = (if code = PyInt 0 \<or> code = PyBool False \<or> code = PyStr ''0'' then OK else WARN)
          in prints con (PrintLine (markup style (''exit('' @ py_str code @ '')''))))
       else if exit_kind = PyStr ''falloff'' then
         prints con (PrintLine (markup WARN (''instruction falloff at '' @ py_str (get_or result ''rip'' (PyInt 0)))))
       else prints con (PrintLine (markup WARN ''stopped by user'')))"

fun trace_row :: "py_value \<Rightarrow> py_exn + string list" where
  "trace_row (PyDict rec) =
     (let args = (case map_of rec ''args'' of Some (PyList vs) \<Rightarrow> vs | _ \<Rightarrow> [])
      in Inr [py_str (get_or rec ''seq'' (PyStr [])), py_str (get_or rec ''name'' (PyStr [])),
              join '', '' (map py_str args), py_str (get_or rec ''ret'' (PyStr []))])"
| "trace_row _ = Inl (OtherError ''AttributeError'')"

definition print_trace :: "console \<Rightarrow> py_value \<Rightarrow> unit stmt" where
  "print_trace con trace =
     (if \<not> truthy trace then prints con (PrintLine (markup ''bright_black'' ''no syscalls were executed''))
      else then_do
        (of_value (case trace of
           PyList recs \<Rightarrow> map_e trace_row recs
         | PyInt _ \<Rightarrow> Inl (OtherError ''TypeError'') | PyBool _ \<Rightarrow> Inl (OtherError ''TypeError'')
         | _ \<Rightarrow> Inl (OtherError ''AttributeError'')))
        (\<lambda>rows. prints con (PrintTable ''syscall trace'' [''#'', ''syscall'', ''args'', ''ret''] rows)))"

definition json_payload :: "py_dict \<Rightarrow> py_value \<Rightarrow> py_exn + py_value" where
  "json_payload result output =
     (case output of
        PyBytes bs \<Rightarrow>
          Inr (PyDict (set_item ''output'' (PyStr (json_dumps_str (utf8_decode (map unat bs)))) result))
      | _ \<Rightarrow> Inl (OtherError ''AttributeError''))"

definition write_stdout :: "console \<Rightarrow> py_value \<Rightarrow> unit stmt" where
  "write_stdout con output =
     (if \<not> truthy output then ([], Inr ())
      else case output of PyBytes bs \<Rightarrow> prints con (StdoutBytes bs) | _ \<Rightarrow> of_value (Inl (OtherError ''TypeError'')))"

definition show_run :: "console \<Rightarrow> bool \<Rightarrow> bool \<Rightarrow> py_dict \<Rightarrow> int stmt" where
  "show_run con json quiet result =
     then_do (of_value (subscript result ''output'')) (\<lambda>output.
     then_do (write_stdout con output) (\<lambda>_.
       if json then
         then_do (of_value (json_payload result output)) (\<lambda>payload.
         then_do (print_json con payload) (\<lambda>_. of_value (Inr (exit_code result))))
       else if quiet then of_value (Inr (exit_code result))
       else
         then_do (prints con (PrintLine [])) (\<lambda>_.
         then_do (print_run_summary con result) (\<lambda>_.
         then_do (print_trace con (get_or result ''trace'' (PyList []))) (\<lambda>_.
           of_value (Inr (exit_code result)))))))"

definition cli_run_with ::
  "console \<Rightarrow> (bytes \<Rightarrow> u64 \<Rightarrow> 's \<Rightarrow> ((string, py_dict) result \<times> 's) option) \<Rightarrow> py_exn + bytes \<Rightarrow> py_float \<Rightarrow> bool \<Rightarrow>
     bool \<Rightarrow> 's \<Rightarrow> ((cli_item list \<times> cli_end) \<times> 's) option" where
  "cli_run_with con core_run file timeout json quiet s =
     (case e_bind file (\<lambda>img. e_bind (py_int timeout) (\<lambda>i. e_bind (u64_arg i) (\<lambda>ms. Inr (img, ms)))) of
        Inl e \<Rightarrow> Some (cli_except con e, s)
      | Inr (img, ms) \<Rightarrow>
          map_option (\<lambda>(r, s').
              (if aborts r then ([], ProcessAborted)
               else case py_result r of
                 Inl e \<Rightarrow> cli_except con e
               | Inr result \<Rightarrow> stmt_end (show_run con json quiet result), s'))
            (core_run img ms s))"

definition core_run ::
  "'uc engine \<Rightarrow> bool \<Rightarrow> (bytes \<Rightarrow> string + goblin_elf) \<Rightarrow> bytes \<Rightarrow> u64 \<Rightarrow> trace_store \<Rightarrow>
     ((string, py_dict) result \<times> trace_store) option" where
  "core_run E oc parse img ms ts = py_call E oc parse ts (CallRunElf img (Some ms))"

definition cli_run ::
  "console \<Rightarrow> 'uc engine \<Rightarrow> bool \<Rightarrow> (bytes \<Rightarrow> string + goblin_elf) \<Rightarrow> py_exn + bytes \<Rightarrow> py_float \<Rightarrow> bool \<Rightarrow> bool \<Rightarrow> trace_store \<Rightarrow>
     ((cli_item list \<times> cli_end) \<times> trace_store) option" where
  "cli_run con E oc parse = cli_run_with con (core_run E oc parse)"

section \<open>The command \<open>elf\<close>\<close>

text \<open>\<open>:x\<close> and \<open>:08x\<close> take an integer.\<close>

definition quoted :: "string \<Rightarrow> string" where
  "quoted s = [CHR 0x27] @ s @ [CHR 0x27]"

fun for_x :: "py_value \<Rightarrow> py_exn + int" where
  "for_x (PyInt i) = Inr i"
| "for_x (PyBool b) = Inr (if b then 1 else 0)"
| "for_x (PyStr _) = Inl (ValueError (''Unknown format code '' @ quoted ''x'' @ '' for object of type '' @ quoted ''str''))"
| "for_x _ = Inl (OtherError ''TypeError'')"

definition hex_item :: "py_dict \<Rightarrow> string \<Rightarrow> py_exn + string" where
  "hex_item d k = e_bind (subscript d k) (\<lambda>v. e_bind (for_x v) (\<lambda>i. Inr (''0x'' @ fmt_x i)))"

fun segment_row :: "py_value \<Rightarrow> py_exn + string list" where
  "segment_row (PyDict seg) =
     e_bind (e_bind (subscript seg ''flags'') for_x) (\<lambda>flags.
     e_bind (hex_item seg ''vaddr'') (\<lambda>vaddr.
     e_bind (hex_item seg ''memsz'') (\<lambda>memsz.
     e_bind (hex_item seg ''filesz'') (\<lambda>filesz.
     e_bind (hex_item seg ''align'') (\<lambda>align.
       Inr [vaddr, memsz, filesz, fmt_08x flags, align])))))"
| "segment_row _ = Inl (OtherError ''TypeError'')"

fun segment_rows :: "py_value \<Rightarrow> py_exn + string list list" where
  "segment_rows (PyList segs) = map_e segment_row segs"
| "segment_rows (PyStr []) = Inr []"
| "segment_rows (PyBytes []) = Inr []"
| "segment_rows (PyDict []) = Inr []"
| "segment_rows _ = Inl (OtherError ''TypeError'')"

definition show_elf :: "console \<Rightarrow> bool \<Rightarrow> py_dict \<Rightarrow> int stmt" where
  "show_elf con json info =
     (if json then then_do (print_json con (PyDict info)) (\<lambda>_. of_value (Inr 0))
      else
        then_do (of_value (hex_item info ''entry'')) (\<lambda>entry.
        then_do (prints con (PrintLine (markup PRIMARY ''entry'' @ '' '' @ entry))) (\<lambda>_.
        then_do (of_value (subscript info ''is_pie'')) (\<lambda>pie.
        then_do (prints con (PrintLine (markup PRIMARY ''pie'' @ '' '' @ py_str pie))) (\<lambda>_.
        then_do (of_value (e_bind (subscript info ''segments'') segment_rows)) (\<lambda>rows.
        then_do (prints con (PrintTable ''loadable segments''
                   [''vaddr'', ''memsz'', ''filesz'', ''flags'', ''align''] rows)) (\<lambda>_. of_value (Inr 0))))))))"

definition cli_elf_with ::
  "console \<Rightarrow> (bytes \<Rightarrow> (string, py_dict) result) \<Rightarrow> py_exn + bytes \<Rightarrow> bool \<Rightarrow> cli_item list \<times> cli_end" where
  "cli_elf_with con core_parse file json =
     (case e_bind file (\<lambda>img. py_result (core_parse img)) of
        Inl e \<Rightarrow> cli_except con e
      | Inr info \<Rightarrow> stmt_end (show_elf con json info))"

definition cli_elf ::
  "console \<Rightarrow> bool \<Rightarrow> (bytes \<Rightarrow> string + goblin_elf) \<Rightarrow> py_exn + bytes \<Rightarrow> bool \<Rightarrow> cli_item list \<times> cli_end" where
  "cli_elf con oc parse = cli_elf_with con (parse_elf oc parse)"

text \<open>All that reaches standard output, the guest's bytes and what \<open>rich\<close> makes of the other items.\<close>

definition stdout_bytes :: "console \<Rightarrow> cli_item list \<Rightarrow> bytes" where
  "stdout_bytes con items = concat (map (\<lambda>i. case con i of Inr bs \<Rightarrow> bs | Inl _ \<Rightarrow> []) items)"

text \<open>\<open>sys.stdout.buffer.write\<close> writes the bytes it is given.\<close>

definition raw_stdout :: "console \<Rightarrow> bool" where
  "raw_stdout con \<longleftrightarrow> (\<forall>bs. con (StdoutBytes bs) = Inr bs)"

section \<open>Lemmas\<close>

lemma then_do_simps [simp]:
  "then_do (of_value (Inr x)) f = f x"
  "then_do (of_value (Inl e)) f = of_value (Inl e)"
  "then_do ([], Inr x) f = f x"
  "then_do (then_do m f) g = then_do m (\<lambda>x. then_do (f x) g)"
  by (simp_all add: then_do_def of_value_def split: sum.split)

text \<open>What a list of items comes to: they are printed in order, up to the first that raises.\<close>

fun print_list :: "console \<Rightarrow> cli_item list \<Rightarrow> 'a \<Rightarrow> 'a stmt" where
  "print_list con [] x = of_value (Inr x)"
| "print_list con (i # is) x = then_do (prints con i) (\<lambda>_. print_list con is x)"

definition emit :: "console \<Rightarrow> cli_item list \<Rightarrow> int \<Rightarrow> cli_item list \<times> cli_end" where
  "emit con is code = stmt_end (print_list con is code)"

lemma print_list_then: "then_do (print_list con is x) f = then_do (print_list con is ()) (\<lambda>_. f x)"
  by (induction "is") simp_all

lemma print_list_append: "print_list con (xs @ ys) x = then_do (print_list con xs ()) (\<lambda>_. print_list con ys x)"
  by (induction xs) simp_all

lemma emit_Nil [simp]: "emit con [] code = ([], ExitCode code)"
  by (simp add: emit_def stmt_end_def of_value_def)

lemma emit_Cons [simp]:
  "emit con (i # is) code =
     (case con i of Inl e \<Rightarrow> ([], Uncaught e) | Inr _ \<Rightarrow> (i # fst (emit con is code), snd (emit con is code)))"
  by (simp add: emit_def stmt_end_def prints_def then_do_def split: sum.split)

lemma report_error_emit: "report_error con msg = emit con [error_line msg] 2"
  by (simp add: report_error_def emit_def)

lemma emit_stdout:
  assumes "raw_stdout con" and "emit con ((if out = [] then [] else [StdoutBytes out]) @ is) code = (items, how)"
  shows "\<exists>shown. stdout_bytes con items = out @ shown \<and> (is = [] \<longrightarrow> shown = [])"
  using assms by (auto simp: raw_stdout_def stdout_bytes_def split: if_splits)

lemma exit_code_run_dict:
  "exit_code (run_dict reason out recs) = (case reason of Exit code \<Rightarrow> int (unat code) | _ \<Rightarrow> 1)"
  by (cases reason) (simp_all add: exit_code_def run_dict_def)

lemma map_e_Inr: "(\<And>x. x \<in> set xs \<Longrightarrow> f x = Inr (g x)) \<Longrightarrow> map_e f xs = Inr (map g xs)"
  by (induction xs) (simp_all add: e_bind_def)

lemma json_ok_dict: "json_ok (PyDict kvs) \<longleftrightarrow> list_all (\<lambda>kv. json_ok (snd kv)) kvs"
  by (simp add: list_all_iff)

lemma json_ok_dict_iff:
  assumes "distinct (map fst kvs)"
  shows "json_ok (PyDict kvs) \<longleftrightarrow> (\<forall>k v. map_of kvs k = Some v \<longrightarrow> json_ok v)"
  unfolding json_ok_dict using map_of_eq_Some_iff [OF assms] by (auto simp: list_all_iff)

text \<open>What the console shows of a run, from the engine's own values.\<close>

definition row_of :: "trace_record \<Rightarrow> string list" where
  "row_of r =
     (case tr_args r of (a0, a1, a2, a3, a4, a5) \<Rightarrow>
       [fmt_dec (unat (tr_seq r)), tr_name r,
        join '', '' (map (\<lambda>a. fmt_dec (unat a)) [a0, a1, a2, a3, a4, a5]), str_int (tr_ret r)])"

definition summary_of :: "exit_reason \<Rightarrow> string" where
  "summary_of reason =
     (case reason of
        Exit code \<Rightarrow> markup (if code = 0 then OK else WARN) (''exit('' @ fmt_dec (unat code) @ '')'')
      | Falloff rip \<Rightarrow> markup WARN (''instruction falloff at '' @ fmt_dec (unat rip))
      | Stopped \<Rightarrow> markup WARN ''stopped by user'')"

definition report :: "exit_reason \<Rightarrow> trace_record list \<Rightarrow> cli_item list" where
  "report reason recs =
     [PrintLine [], PrintLine (summary_of reason),
      if recs = [] then PrintLine (markup ''bright_black'' ''no syscalls were executed'')
      else PrintTable ''syscall trace'' [''#'', ''syscall'', ''args'', ''ret''] (map row_of recs)]"

lemma trace_row_record: "trace_row (record_dict r) = Inr (row_of r)"
  by (auto simp: record_dict_def row_of_def get_or_def Let_def py_u64_def split: prod.split)

lemma summary_run_dict:
  "print_run_summary con (run_dict reason out recs) = prints con (PrintLine (summary_of reason))"
  by (cases reason)
    (auto simp: print_run_summary_def run_dict_def summary_of_def subscript_def get_or_def py_u64_def uint_0_iff)

lemma trace_run_dict:
  "print_trace con (PyList (map record_dict recs)) =
     prints con (if recs = [] then PrintLine (markup ''bright_black'' ''no syscalls were executed'')
       else PrintTable ''syscall trace'' [''#'', ''syscall'', ''args'', ''ret''] (map row_of recs))"
proof -
  have "map_e trace_row (map record_dict recs) = Inr (map row_of recs)"
    by (induction recs) (simp_all add: e_bind_def trace_row_record)
  then show ?thesis by (simp add: print_trace_def)
qed

lemma output_run_dict:
  "write_stdout con (PyBytes out) = print_list con (if out = [] then [] else [StdoutBytes out]) ()"
  by (auto simp: write_stdout_def of_value_def prints_def then_do_def split: sum.split)

lemma json_ok_record: "json_ok (record_dict r)"
  by (auto simp: record_dict_def py_u64_def split: prod.split)

lemma json_payload_run_dict: "json_ok (PyDict (set_item ''output'' (PyStr s) (run_dict reason out recs)))"
  by (cases reason) (simp_all add: run_dict_def py_u64_def list_all_iff json_ok_record)

definition json_result :: "bytes \<Rightarrow> py_dict \<Rightarrow> py_value" where
  "json_result out result =
     PyDict (set_item ''output'' (PyStr (json_dumps_str (utf8_decode (map unat out)))) result)"

lemma print_json_result:
  "print_json con (json_result out (run_dict reason out recs)) =
     prints con (PrintJson (json_result out (run_dict reason out recs)))"
  unfolding print_json_def json_result_def by (simp only: json_payload_run_dict if_True)

text \<open>What \<open>run\<close> means to print of a result, and the code it means to return.\<close>

definition run_items :: "bool \<Rightarrow> bool \<Rightarrow> exit_reason \<Rightarrow> bytes \<Rightarrow> trace_record list \<Rightarrow> cli_item list" where
  "run_items json quiet reason out recs =
     (if out = [] then [] else [StdoutBytes out]) @
     (if json then [PrintJson (json_result out (run_dict reason out recs))]
      else if quiet then [] else report reason recs)"

definition run_code :: "exit_reason \<Rightarrow> int" where
  "run_code reason = (case reason of Exit code \<Rightarrow> int (unat code) | _ \<Rightarrow> 1)"

lemma show_run_items:
  "show_run con json quiet (run_dict reason out recs) = print_list con (run_items json quiet reason out recs) (run_code reason)"
proof -
  have code: "exit_code (run_dict reason out recs) = run_code reason" for out
    by (simp add: exit_code_run_dict run_code_def)
  have pay: "json_payload (run_dict reason out recs) (PyBytes out) = Inr (json_result out (run_dict reason out recs))" for out
    by (simp add: json_payload_def json_result_def)
  have out: "subscript (run_dict reason out recs) ''output'' = Inr (PyBytes out)" by (simp add: subscript_def)
  have trace: "get_or (run_dict reason out recs) ''trace'' (PyList []) = PyList (map record_dict recs)" for out
    by (simp add: get_or_def)
  show ?thesis
    unfolding show_run_def run_items_def print_list_append output_run_dict out
    by (simp add: code pay print_json_result summary_run_dict trace trace_run_dict report_def output_run_dict)
qed

lemma cli_run_call:
  assumes "0 \<le> x" and "x < 2 ^ 64"
  shows "cli_run con E oc parse (Inr img) (Finite x) json quiet ts =
     map_option (\<lambda>(r, ts').
         (if aborts r then ([], ProcessAborted)
          else case py_result r of Inl e \<Rightarrow> cli_except con e | Inr result \<Rightarrow> stmt_end (show_run con json quiet result), ts'))
       (run_elf E oc parse img (of_int \<lfloor>x\<rfloor>) ts)"
proof -
  have "\<lfloor>x\<rfloor> < 2 ^ 64" using assms(2) by (simp add: floor_less_iff)
  then show ?thesis
    using assms(1) by (simp add: cli_run_def cli_run_with_def core_run_def u64_arg_def timeout_arg_def e_bind_def)
qed

section \<open>Properties\<close>

text \<open>C20: what \<open>winvpwn run\<close> does with a readable file and a timeout that fits, when it returns. It prints, in
  this order: the guest's output; with \<open>--json\<close> the JSON document, otherwise, without \<open>--quiet\<close>, an empty
  line, the summary line, and the table with one row per system call that was made; up to the first of
  these that the console raises on, which ends the command with that exception. The exit code is the
  guest's own for a guest that exits and 1 for one that falls off or is stopped; an error of the engine is
  one line and code 2. So standard output begins with the guest's output byte for byte, and with \<open>--quiet\<close>
  it is nothing else. A panic of the engine is not caught, and one in its hook ends the process.\<close>

theorem cli_run_result:
  assumes "0 \<le> x" and "x < 2 ^ 64"
    and "cli_run con E oc parse (Inr img) (Finite x) json quiet ts = Some ((items, how), ts')"
  shows "\<exists>res. run_spec E oc parse img (of_int \<lfloor>x\<rfloor>) res \<and>
     (case res of
        Ok d \<Rightarrow> \<exists>reason out recs. d = run_dict reason out recs \<and>
          (items, how) = emit con
            ((if out = [] then [] else [StdoutBytes out]) @
             (if json then [PrintJson (json_result out d)] else if quiet then [] else report reason recs))
            (case reason of Exit code \<Rightarrow> int (unat code) | _ \<Rightarrow> 1) \<and>
          (raw_stdout con \<longrightarrow>
             (\<exists>shown. stdout_bytes con items = out @ shown \<and> (quiet \<and> \<not> json \<longrightarrow> shown = [])))
      | Err msg \<Rightarrow> (items, how) = emit con [error_line msg] 2
      | Panic p \<Rightarrow> items = [] \<and>
          how = (case p of Aborted _ \<Rightarrow> ProcessAborted | _ \<Rightarrow> Uncaught (PanicException p)))"
proof -
  obtain res where run: "run_elf E oc parse img (of_int \<lfloor>x\<rfloor>) ts = Some (res, ts')"
    and shown: "(items, how) = (if aborts res then ([], ProcessAborted)
      else case py_result res of Inl e \<Rightarrow> cli_except con e | Inr result \<Rightarrow> stmt_end (show_run con json quiet result))"
    using assms(3) unfolding cli_run_call [OF assms(1,2)] by auto
  have spec: "run_spec E oc parse img (of_int \<lfloor>x\<rfloor>) res" using run run_elf_spec by blast
  show ?thesis
  proof (cases res)
    case (Ok d)
    then obtain reason out recs where d: "d = run_dict reason out recs" using run_spec_Ok spec by blast
    have items: "emit con (run_items json quiet reason out recs) (run_code reason) = (items, how)"
      using shown Ok by (simp add: aborts_def py_result_def d show_run_items emit_def)
    have eq: "(items, how) = emit con
        ((if out = [] then [] else [StdoutBytes out]) @
         (if json then [PrintJson (json_result out d)] else if quiet then [] else report reason recs))
        (case reason of Exit code \<Rightarrow> int (unat code) | _ \<Rightarrow> 1)"
      using items [symmetric] unfolding run_items_def run_code_def d .
    have sh: "\<exists>shown. stdout_bytes con items = out @ shown \<and> (quiet \<and> \<not> json \<longrightarrow> shown = [])" if "raw_stdout con"
      using emit_stdout [OF that items [unfolded run_items_def]] by (auto split: if_splits)
    show ?thesis
      by (intro exI [of _ res] conjI spec, unfold Ok result.case,
          intro exI [of _ reason] exI [of _ out] exI [of _ recs] conjI d eq impI sh)
  next
    case (Panic p)
    then show ?thesis
      using spec shown by (intro exI [of _ res]) (auto simp: aborts_def py_result_def split: panic.splits)
  qed (use spec shown in \<open>auto simp: aborts_def py_result_def report_error_emit intro!: exI [of _ res]\<close>)
qed

text \<open>C39: a timeout of -1 or less, of 2^64 or more, or an infinite one, ends the command in an uncaught
  \<open>OverflowError\<close> before the engine is called, instead of the error line and exit code 2 that every other bad
  input gets; a NaN gets them.\<close>

theorem cli_bad_timeout:
  "(x \<le> -1 \<or> 2 ^ 64 \<le> x \<longrightarrow>
      cli_run con E oc parse (Inr img) (Finite x) json quiet ts = Some (([], Uncaught OverflowError), ts)) \<and>
   cli_run con E oc parse (Inr img) Infinity json quiet ts = Some (([], Uncaught OverflowError), ts) \<and>
   cli_run con E oc parse (Inr img) NegInfinity json quiet ts = Some (([], Uncaught OverflowError), ts) \<and>
   cli_run con E oc parse (Inr img) NotANumber json quiet ts =
     Some (emit con [error_line ''cannot convert float NaN to integer''] 2, ts)"
proof -
  have "\<lceil>x\<rceil> < 0" if "x \<le> -1" using that by (simp add: ceiling_less_iff)
  moreover have "2 ^ 64 \<le> \<lfloor>x\<rfloor>" if "2 ^ 64 \<le> x" using that by (simp add: le_floor_iff)
  ultimately show ?thesis
    by (auto simp: cli_run_def cli_run_with_def e_bind_def u64_arg_def report_error_emit simp del: emit_Cons)
qed

section \<open>Witnesses\<close>

text \<open>A console that shows lines as they are, and nothing else but raw bytes.\<close>

definition line_console :: console where
  "line_console i = (case i of StdoutBytes bs \<Rightarrow> Inr bs | PrintLine l \<Rightarrow> Inr (map of_char (l @ [CHR 0x0A])) | _ \<Rightarrow> Inr [])"

theorem cli_bad_timeout_witness:
  "cli_run line_console (ram_engine []) True (sample_parse []) (Inr sample_bytes) (Finite (-5)) False False empty_store =
     Some (([], Uncaught OverflowError), empty_store)"
  using cli_bad_timeout [of "-5" line_console "ram_engine []" True "sample_parse []" sample_bytes False False empty_store]
  by simp

theorem cli_run_result_witness:
  "cli_run line_console (ram_engine []) True (sample_parse []) (Inr []) (Finite (5 / 2)) False False empty_store =
     Some (([error_line ''E001: not an ELF file (bad magic)''], ExitCode 2), empty_store) \<and>
   run_spec (ram_engine []) True (sample_parse []) [] 2 (Err ''E001: not an ELF file (bad magic)'')"
proof -
  have load: "load_elf True (sample_parse []) [] = Err NotElf" by (simp add: load_elf_def has_magic_def)
  have two: "\<lfloor>5 / 2 :: real\<rfloor> = 2" by (simp add: floor_eq_iff)
  have run: "cli_run line_console (ram_engine []) True (sample_parse []) (Inr []) (Finite (5 / 2)) False False empty_store =
     Some (([error_line ''E001: not an ELF file (bad magic)''], ExitCode 2), empty_store)"
    by (simp add: cli_run_call run_elf_def load py_result_def aborts_def report_error_emit line_console_def error_line_def)
  obtain res where res: "run_spec (ram_engine []) True (sample_parse []) [] 2 res"
    using cli_run_result [OF _ _ run] by (auto simp: two)
  then have "res = Err ''E001: not an ELF file (bad magic)''" by (simp add: run_spec_def load)
  then show ?thesis using run res by simp
qed

end
