(* ===== verification/Cli_Contract.thy ===== *)
theory Cli_Contract
  imports Cli
begin

text \<open>
  What \<open>src/winvpwn/_core.pyi\<close> promises of the two functions of the module, as predicates on dictionaries:
  which keys a result has and what is under each. The locale \<open>core_contract\<close> is a module that keeps the
  promise, and the command line is proved against it: with such a module neither command fails on the
  shape of a result, with a \<open>KeyError\<close>, a \<open>TypeError\<close> or an \<open>AttributeError\<close> of its own, and every exit
  code fits a byte; what the console raises is passed on. Its interpretation on
  the model's \<open>run_elf\<close> and \<open>parse_elf\<close> is the proof that the engine keeps it; PyO3 builds the dictionaries
  from untyped values, so nothing in the source checks this.
\<close>

section \<open>Shapes\<close>

definition has :: "py_dict \<Rightarrow> string \<Rightarrow> (py_value \<Rightarrow> bool) \<Rightarrow> bool" where
  "has d k P = (case map_of d k of None \<Rightarrow> False | Some v \<Rightarrow> P v)"

definition keys_are :: "py_dict \<Rightarrow> string list \<Rightarrow> bool" where
  "keys_are d ks = (distinct (map fst d) \<and> set (map fst d) = set ks)"

definition int_in :: "int \<Rightarrow> int \<Rightarrow> py_value \<Rightarrow> bool" where
  "int_in lo hi v = (case v of PyInt i \<Rightarrow> lo \<le> i \<and> i < hi | _ \<Rightarrow> False)"

definition is_str :: "py_value \<Rightarrow> bool" where
  "is_str v = (case v of PyStr _ \<Rightarrow> True | _ \<Rightarrow> False)"

definition is_bool :: "py_value \<Rightarrow> bool" where
  "is_bool v = (case v of PyBool _ \<Rightarrow> True | _ \<Rightarrow> False)"

definition is_bytes :: "py_value \<Rightarrow> bool" where
  "is_bytes v = (case v of PyBytes _ \<Rightarrow> True | _ \<Rightarrow> False)"

definition list_of :: "(py_value \<Rightarrow> bool) \<Rightarrow> py_value \<Rightarrow> bool" where
  "list_of P v = (case v of PyList vs \<Rightarrow> list_all P vs | _ \<Rightarrow> False)"

definition dict_with :: "(py_dict \<Rightarrow> bool) \<Rightarrow> py_value \<Rightarrow> bool" where
  "dict_with P v = (case v of PyDict d \<Rightarrow> P d | _ \<Rightarrow> False)"

abbreviation u64_int :: "py_value \<Rightarrow> bool" where
  "u64_int \<equiv> int_in 0 (2 ^ 64)"

definition record_shape :: "py_dict \<Rightarrow> bool" where
  "record_shape d =
     (keys_are d [''seq'', ''nr'', ''name'', ''args'', ''ret'', ''rip''] \<and>
      has d ''seq'' u64_int \<and> has d ''nr'' (int_in (- (2 ^ 63)) (2 ^ 63)) \<and> has d ''name'' is_str \<and>
      has d ''args'' (list_of u64_int) \<and> has d ''ret'' (int_in (- (2 ^ 63)) (2 ^ 63)) \<and> has d ''rip'' u64_int)"

definition run_shape :: "py_dict \<Rightarrow> bool" where
  "run_shape d =
     (has d ''output'' is_bytes \<and> has d ''trace'' (list_of (dict_with record_shape)) \<and>
      (map_of d ''exit'' = Some (PyStr ''exit'') \<and> has d ''code'' (int_in 0 256) \<and>
         keys_are d [''exit'', ''code'', ''output'', ''trace''] \<or>
       map_of d ''exit'' = Some (PyStr ''falloff'') \<and> has d ''rip'' u64_int \<and>
         keys_are d [''exit'', ''rip'', ''output'', ''trace''] \<or>
       map_of d ''exit'' = Some (PyStr ''stopped'') \<and> keys_are d [''exit'', ''output'', ''trace'']))"

definition segment_shape :: "py_dict \<Rightarrow> bool" where
  "segment_shape d =
     (keys_are d [''vaddr'', ''memsz'', ''filesz'', ''flags'', ''align''] \<and>
      has d ''vaddr'' u64_int \<and> has d ''memsz'' u64_int \<and> has d ''filesz'' u64_int \<and>
      has d ''flags'' (int_in 0 (2 ^ 32)) \<and> has d ''align'' u64_int)"

definition parse_shape :: "py_dict \<Rightarrow> bool" where
  "parse_shape d =
     (keys_are d [''entry'', ''is_pie'', ''segments''] \<and>
      has d ''entry'' u64_int \<and> has d ''is_pie'' is_bool \<and> has d ''segments'' (list_of (dict_with segment_shape)))"

lemmas kind_defs = int_in_def is_str_def is_bool_def is_bytes_def list_of_def dict_with_def

lemma hasE: "has d k P \<Longrightarrow> \<exists>v. map_of d k = Some v \<and> subscript d k = Inr v \<and> (\<forall>w. get_or d k w = v) \<and> P v"
  by (auto simp: has_def subscript_def get_or_def split: option.splits)

lemma kindE:
  "int_in lo hi v \<Longrightarrow> \<exists>i. v = PyInt i \<and> lo \<le> i \<and> i < hi"
  "is_str v \<Longrightarrow> \<exists>s. v = PyStr s"
  "is_bool v \<Longrightarrow> \<exists>b. v = PyBool b"
  "is_bytes v \<Longrightarrow> \<exists>bs. v = PyBytes bs"
  "list_of P v \<Longrightarrow> \<exists>vs. v = PyList vs \<and> list_all P vs"
  "dict_with Q v \<Longrightarrow> \<exists>d. v = PyDict d \<and> Q d"
  by (cases v; simp add: kind_defs)+

text \<open>A dictionary whose values are all JSON values is one, and stays one when a key is set to one.\<close>

lemma keys_json:
  assumes "keys_are d ks" and "\<forall>k \<in> set ks. has d k json_ok"
  shows "json_ok (PyDict d)"
proof -
  have "distinct (map fst d)" and "\<And>k v. map_of d k = Some v \<Longrightarrow> k \<in> set ks"
    using assms(1) by (auto simp: keys_are_def dest: map_of_SomeD image_eqI [where f = fst])
      (metis fst_conv image_eqI map_of_SomeD)
  then show ?thesis using assms(2) by (auto simp only: json_ok_dict_iff has_def split: option.splits)
qed

lemma has_mono: "has d k P \<Longrightarrow> (\<And>v. P v \<Longrightarrow> Q v) \<Longrightarrow> has d k Q"
  by (auto simp: has_def split: option.splits)

lemma kind_json:
  "int_in lo hi v \<Longrightarrow> json_ok v"
  "is_str v \<Longrightarrow> json_ok v"
  "is_bool v \<Longrightarrow> json_ok v"
  "list_of P v \<Longrightarrow> (\<And>w. P w \<Longrightarrow> json_ok w) \<Longrightarrow> json_ok v"
  "dict_with Q v \<Longrightarrow> (\<And>d. Q d \<Longrightarrow> json_ok (PyDict d)) \<Longrightarrow> json_ok v"
  by (auto dest!: kindE simp: list_all_iff simp del: json_ok.simps(3))

lemma has_json:
  "has d k (int_in lo hi) \<Longrightarrow> has d k json_ok"
  "has d k is_str \<Longrightarrow> has d k json_ok"
  "has d k is_bool \<Longrightarrow> has d k json_ok"
  "has d k (list_of (int_in lo hi)) \<Longrightarrow> has d k json_ok"
  by (erule has_mono, blast intro: kind_json(1-4))+

lemma record_json: "record_shape d \<Longrightarrow> json_ok (PyDict d)"
  unfolding record_shape_def by (rule keys_json) (auto intro: has_json)

lemma segment_json: "segment_shape d \<Longrightarrow> json_ok (PyDict d)"
  unfolding segment_shape_def by (rule keys_json) (auto intro: has_json)

lemma has_list_json:
  "has d k (list_of (dict_with record_shape)) \<Longrightarrow> has d k json_ok"
  "has d k (list_of (dict_with segment_shape)) \<Longrightarrow> has d k json_ok"
  by (erule has_mono, erule kind_json(4), erule kind_json(5), rule record_json segment_json, assumption)+

lemma parse_json: "parse_shape d \<Longrightarrow> json_ok (PyDict d)"
  unfolding parse_shape_def by (rule keys_json) (auto intro: has_json has_list_json)

lemma keys_set_item: "keys_are d ks \<Longrightarrow> k \<in> set ks \<Longrightarrow> keys_are (set_item k v d) ks"
  by (auto simp: keys_are_def distinct_update dom_update)

lemma has_set_item: "P v \<Longrightarrow> has (set_item k v d) k P" "k' \<noteq> k \<Longrightarrow> has (set_item k v d) k' P = has d k' P"
  by (simp_all add: has_def update_conv')

lemma has_exit: "map_of d k = Some (PyStr s) \<Longrightarrow> has d k json_ok"
  by (simp add: has_def)

lemma payload_json: "run_shape d \<Longrightarrow> json_ok (PyDict (set_item ''output'' (PyStr s) d))"
  unfolding run_shape_def
  by (elim conjE disjE; rule keys_json, rule keys_set_item, assumption)
    (auto simp: has_set_item intro: has_json has_list_json has_exit)

section \<open>The commands on results of the promised shape\<close>

text \<open>A statement that gives a value with a property unless the console raises.\<close>

definition console_raises :: "console \<Rightarrow> py_exn \<Rightarrow> bool" where
  "console_raises con e \<longleftrightarrow> (\<exists>i. con i = Inl e)"

definition gives :: "console \<Rightarrow> 'a stmt \<Rightarrow> ('a \<Rightarrow> bool) \<Rightarrow> bool" where
  "gives con m P = (case snd m of Inr x \<Rightarrow> P x | Inl e \<Rightarrow> console_raises con e)"

named_theorems gives_intros \<open>statements that fail only with the console\<close>

lemma gives_then [gives_intros]:
  "gives con m Q \<Longrightarrow> (\<And>x. Q x \<Longrightarrow> gives con (f x) P) \<Longrightarrow> gives con (then_do m f) P"
  by (cases "snd m") (simp_all add: gives_def then_do_def)

lemma gives_value [gives_intros]: "r = Inr x \<Longrightarrow> P x \<Longrightarrow> gives con (of_value r) P"
  by (simp add: gives_def of_value_def)

lemma gives_prints [gives_intros]: "gives con (prints con i) (\<lambda>_. True)"
  by (auto simp: gives_def prints_def console_raises_def split: sum.split)

lemma gives_json [gives_intros]: "json_ok v \<Longrightarrow> gives con (print_json con v) (\<lambda>_. True)"
  by (simp add: print_json_def gives_prints)

lemma subscript_exit: "map_of d k = Some v \<Longrightarrow> subscript d k = Inr v"
  by (simp add: subscript_def)

lemma gives_summary: "run_shape d \<Longrightarrow> gives con (print_run_summary con d) (\<lambda>_. True)"
  by (auto simp: run_shape_def print_run_summary_def subscript_exit Let_def intro: gives_prints)

lemma map_e_total: "list_all (\<lambda>x. \<exists>y. f x = Inr y) xs \<Longrightarrow> \<exists>ys. map_e f xs = Inr ys"
  by (induction xs) (auto simp: e_bind_def)

lemma trace_row_total: "dict_with Q v \<Longrightarrow> \<exists>row. trace_row v = Inr row"
  by (auto simp: Let_def dest!: kindE(6))

lemma gives_trace:
  assumes "list_of (dict_with Q) v" shows "gives con (print_trace con v) (\<lambda>_. True)"
proof -
  obtain vs where v: "v = PyList vs" and "list_all (dict_with Q) vs" using kindE(5) [OF assms] by blast
  then have "\<exists>rows. map_e trace_row vs = Inr rows"
    using trace_row_total by (intro map_e_total) (auto simp: list_all_iff)
  then show ?thesis by (auto simp: v print_trace_def intro: gives_prints)
qed

lemma exit_code_byte: "run_shape d \<Longrightarrow> exit_code d \<in> {0..255}"
  by (auto simp: run_shape_def exit_code_def dest!: hasE kindE(1) split: option.splits)

lemma gives_stdout: "gives con (write_stdout con (PyBytes out)) (\<lambda>_. True)"
  using gives_prints by (auto simp: write_stdout_def gives_def)

lemma show_run_gives:
  assumes "run_shape d" shows "gives con (show_run con json quiet d) (\<lambda>code. code = exit_code d)"
proof -
  obtain out where out: "subscript d ''output'' = Inr (PyBytes out)"
    using assms by (auto simp: run_shape_def dest!: hasE kindE(4))
  have t: "gives con (print_trace con (get_or d ''trace'' (PyList []))) (\<lambda>_. True)"
    using assms by (auto simp: run_shape_def dest!: hasE intro: gives_trace)
  have j: "json_payload d (PyBytes out) = Inr (json_result out d)"
    by (simp add: json_payload_def json_result_def)
  have p: "json_ok (json_result out d)" unfolding json_result_def by (rule payload_json [OF assms])
  show ?thesis
    unfolding show_run_def out then_do_simps
    by (intro gives_then [OF gives_stdout])
      (auto simp: j intro!: gives_intros p gives_then [OF gives_summary [OF assms]] gives_then [OF t])
qed

lemma hex_item_total: "has d k (int_in lo hi) \<Longrightarrow> \<exists>s. hex_item d k = Inr s"
  by (auto simp: hex_item_def e_bind_def dest!: hasE kindE(1))

lemma segment_row_total:
  assumes "dict_with segment_shape v" shows "\<exists>row. segment_row v = Inr row"
proof -
  obtain d where v: "v = PyDict d" and d: "segment_shape d" using kindE(6) [OF assms] by blast
  obtain i where f: "subscript d ''flags'' = Inr (PyInt i)"
    using d by (auto simp: segment_shape_def dest!: hasE kindE(1))
  have "\<exists>a b c e. hex_item d ''vaddr'' = Inr a \<and> hex_item d ''memsz'' = Inr b \<and>
      hex_item d ''filesz'' = Inr c \<and> hex_item d ''align'' = Inr e"
    using d by (auto simp: segment_shape_def dest!: hex_item_total)
  then show ?thesis by (auto simp: v f e_bind_def)
qed

lemma show_elf_gives:
  assumes "parse_shape d"
  shows "gives con (show_elf con json d) (\<lambda>code. code = 0)"
proof -
  obtain vs where segs: "subscript d ''segments'' = Inr (PyList vs)" and "list_all (dict_with segment_shape) vs"
    using assms by (auto simp: parse_shape_def dest!: hasE kindE(5))
  then obtain rows where rows: "e_bind (subscript d ''segments'') segment_rows = Inr rows"
    using map_e_total [of segment_row vs] segment_row_total by (auto simp: list_all_iff e_bind_def)
  obtain e where e: "hex_item d ''entry'' = Inr e" using assms by (auto simp: parse_shape_def dest!: hex_item_total)
  obtain b where b: "subscript d ''is_pie'' = Inr b" using assms by (auto simp: parse_shape_def dest!: hasE)
  show ?thesis
    unfolding show_elf_def rows e b then_do_simps
    by (auto intro!: gives_intros parse_json [OF assms])
qed

lemma gives_end:
  "gives con m P \<Longrightarrow> stmt_end m = (items, how) \<Longrightarrow>
     (\<exists>code. how = ExitCode code \<and> P code) \<or> (\<exists>e. how = Uncaught e \<and> console_raises con e)"
  by (auto simp: gives_def stmt_end_def split: sum.splits)

definition proper_end :: "console \<Rightarrow> cli_end \<Rightarrow> bool" where
  "proper_end con how =
     (case how of
        ExitCode c \<Rightarrow> 0 \<le> c \<and> c \<le> 255
      | Uncaught e \<Rightarrow> e = OverflowError \<or> (\<exists>p. e = PanicException p) \<or> console_raises con e
      | ProcessAborted \<Rightarrow> True)"

lemma error_end:
  assumes "report_error con msg = (items, how)"
  shows "how = ExitCode 2 \<or> (\<exists>e. how = Uncaught e \<and> console_raises con e)"
proof -
  have "gives con (then_do (prints con (error_line msg)) (\<lambda>_. of_value (Inr 2))) (\<lambda>code. code = 2)"
    by (rule gives_then [OF gives_prints gives_value]) simp_all
  from gives_end [OF this assms [unfolded report_error_def]] show ?thesis by blast
qed

lemma error_proper: "report_error con msg = (items, how) \<Longrightarrow> proper_end con how"
  using error_end by (fastforce simp: proper_end_def)

section \<open>The contract\<close>

text \<open>Reading a file gives its bytes or an \<open>OSError\<close>.\<close>

definition readable :: "py_exn + bytes \<Rightarrow> bool" where
  "readable file = (case file of Inr _ \<Rightarrow> True | Inl e \<Rightarrow> (case e of OSError _ \<Rightarrow> True | _ \<Rightarrow> False))"

locale core_contract =
  fixes run :: "bytes \<Rightarrow> u64 \<Rightarrow> 's \<Rightarrow> ((string, py_dict) result \<times> 's) option"
    and parse_image :: "bytes \<Rightarrow> (string, py_dict) result"
  assumes run_shaped: "run img ms s = Some (Ok d, s') \<Longrightarrow> run_shape d"
    and parse_shaped: "parse_image img = Ok d \<Longrightarrow> parse_shape d"
begin

lemma run_command_ends:
  assumes "readable file" and "cli_run_with con run file t json quiet s = Some ((items, how), s')"
  shows "proper_end con how"
proof (cases "file")
  case (Inr img)
  show ?thesis
  proof (cases "e_bind (py_int t) u64_arg")
    case (Inl e)
    then have e: "e = OverflowError \<or> (\<exists>msg. e = ValueError msg)"
      by (cases t) (auto simp: e_bind_def u64_arg_def split: if_splits)
    have "cli_except con e = (items, how)"
      using assms(2) Inl by (auto simp: \<open>file = Inr img\<close> cli_run_with_def e_bind_def split: sum.splits)
    then show ?thesis using e error_proper by (auto simp: proper_end_def)
  next
    case (Inr ms)
    then obtain i where "py_int t = Inr i" and "u64_arg i = Inr ms"
      by (cases "py_int t") (simp_all add: e_bind_def)
    then obtain r where run: "run img ms s = Some (r, s')"
      and shown: "(if aborts r then ([], ProcessAborted) else
        case py_result r of Inl e \<Rightarrow> cli_except con e | Inr result \<Rightarrow> stmt_end (show_run con json quiet result)) = (items, how)"
      using assms(2) by (auto simp: \<open>file = Inr img\<close> cli_run_with_def e_bind_def)
    then show ?thesis
    proof (cases r)
      case (Ok d)
      then have shape: "run_shape d" using run run_shaped by blast
      have "stmt_end (show_run con json quiet d) = (items, how)" using shown Ok by (simp add: aborts_def py_result_def)
      from gives_end [OF show_run_gives [OF shape] this] exit_code_byte [OF shape] show ?thesis
        by (auto simp: proper_end_def)
    next
      case (Err msg)
      then have "report_error con msg = (items, how)" using shown by (simp add: aborts_def py_result_def)
      then show ?thesis by (rule error_proper)
    next
      case (Panic p)
      then show ?thesis using shown by (auto simp: py_result_def proper_end_def split: if_splits)
    qed
  qed
next
  case (Inl e)
  then obtain msg where "e = OSError msg" using assms(1) by (cases e) (simp_all add: readable_def)
  then have "report_error con msg = (items, how)" using assms(2) Inl by (simp add: cli_run_with_def e_bind_def)
  then show ?thesis by (rule error_proper)
qed

lemma elf_command_ends:
  assumes "readable file" and "cli_elf_with con parse_image file json = (items, how)"
  shows "how = ExitCode 0 \<or> how = ExitCode 2 \<or> (\<exists>p. how = Uncaught (PanicException p)) \<or>
     (\<exists>e. how = Uncaught e \<and> console_raises con e)"
proof (cases "file")
  case (Inr img)
  show ?thesis
  proof (cases "parse_image img")
    case (Ok d)
    then have shape: "parse_shape d" by (rule parse_shaped)
    have "stmt_end (show_elf con json d) = (items, how)"
      using assms(2) Ok by (simp add: Inr cli_elf_with_def e_bind_def py_result_def)
    from gives_end [OF show_elf_gives [OF shape] this] show ?thesis by blast
  next
    case (Err msg)
    then have "report_error con msg = (items, how)"
      using assms(2) by (simp add: Inr cli_elf_with_def e_bind_def py_result_def)
    then show ?thesis using error_end by blast
  qed (use assms(2) Inr in \<open>auto simp: cli_elf_with_def e_bind_def py_result_def\<close>)
next
  case (Inl e)
  then obtain msg where "e = OSError msg" using assms(1) by (cases e) (simp_all add: readable_def)
  then have "report_error con msg = (items, how)" using assms(2) Inl by (simp add: cli_elf_with_def e_bind_def)
  then show ?thesis using error_end by blast
qed

end

section \<open>The engine keeps the contract\<close>

text \<open>The integers of a \<open>u64\<close>, a \<open>u32\<close> and a \<open>u8\<close> are in range by their type; the two of a trace record are
  \<open>i64\<close> values, which is what \<open>records_typed\<close> says.\<close>

lemma u64_shape [simp]: "int_in 0 (2 ^ 64) (py_u64 w)"
  by (simp add: int_in_def py_u64_def) (rule order_less_le_trans [OF unsigned_less], simp)

lemma record_dict_shape: "i64_ok (tr_nr r) \<Longrightarrow> i64_ok (tr_ret r) \<Longrightarrow> dict_with record_shape (record_dict r)"
  using u64_shape
  by (auto simp: dict_with_def record_dict_def record_shape_def has_def keys_are_def is_str_def list_of_def
      i64_ok_def split: prod.split) (simp_all add: int_in_def)

lemma trace_shape: "records_typed recs \<Longrightarrow> list_of (dict_with record_shape) (PyList (map record_dict recs))"
  by (simp add: list_of_def list_all_iff records_typed_def record_dict_shape)

lemma u8_shape: "int_in 0 256 (PyInt (int (unat (c :: u8))))"
  by (simp add: int_in_def) (rule order_less_le_trans [OF unsigned_less], simp)

lemma u32_shape: "int_in 0 (2 ^ 32) (PyInt (int (unat (c :: u32))))"
  by (simp add: int_in_def) (rule order_less_le_trans [OF unsigned_less], simp)

lemma run_dict_shape:
  assumes "records_typed recs" shows "run_shape (run_dict reason out recs)"
  using trace_shape [OF assms] u8_shape u64_shape
  by (cases reason)
    (auto simp: run_shape_def run_dict_def has_def keys_are_def is_bytes_def)

lemma segment_dict_shape: "dict_with segment_shape (segment_dict seg)"
  using u64_shape u32_shape [of "s_flags seg"]
  by (auto simp: dict_with_def segment_dict_def segment_shape_def has_def keys_are_def)

lemma parse_elf_shape: "parse_elf oc parse img = Ok d \<Longrightarrow> parse_shape d"
  using u64_shape
  by (auto simp: parse_elf_def parse_shape_def has_def keys_are_def is_bool_def list_of_def list_all_iff
      segment_dict_shape)

lemma core_run_elf: "core_run E oc parse img ms ts = run_elf E oc parse img ms ts"
  by (simp add: core_run_def timeout_arg_def)

interpretation mc: core_contract "core_run E oc parse" "parse_elf oc parse" for E oc parse
proof unfold_locales
  fix img ms s d s' assume "core_run E oc parse img ms s = Some (Ok d, s')"
  then have "run_spec E oc parse img ms (Ok d)" unfolding core_run_elf using run_elf_spec by blast
  then show "run_shape d" using run_spec_Ok_typed run_dict_shape by blast
next
  fix img d assume "parse_elf oc parse img = Ok d"
  then show "parse_shape d" by (rule parse_elf_shape)
qed

section \<open>Properties\<close>

text \<open>C21: the module keeps the types its stub file states. Whatever dictionary \<open>run_elf\<close> returns has exactly the
  keys for how the run ended, its code fits a byte, its output is bytes, and every entry of the
  trace has the six keys with integers in the range of their machine types; and whatever \<open>parse_elf\<close>
  returns has an entry point, a flag and well-typed segments.\<close>

theorem module_results_typed:
  "(run_elf E oc parse img t ts = Some (Ok d, ts') \<longrightarrow> run_shape d) \<and>
   (parse_elf oc parse img = Ok info \<longrightarrow> parse_shape info)"
  using mc.run_shaped [of E oc parse img t ts d ts'] mc.parse_shaped [of oc parse img info]
  by (simp_all add: core_run_elf)

text \<open>C22: how the commands \<open>run\<close> and \<open>elf\<close> can end, for any file, emulator, header parser and console.
  Whatever the engine returns, no command fails on its shape: \<open>run\<close> ends with an exit code from 0 to
  255, and \<open>elf\<close> with 0 or 2, except that the \<open>OverflowError\<close> of a bad timeout, a panic of the engine and
  whatever the console raises for something that is printed (a \<open>MarkupError\<close> for one) go uncaught, and
  that a panic in the engine's hook ends the process.\<close>

theorem cli_ends_well:
  assumes "readable file"
  shows "(\<forall>items how ts'. cli_run con E oc parse file t json quiet ts = Some ((items, how), ts') \<longrightarrow> proper_end con how) \<and>
     (\<forall>items how. cli_elf con oc parse file json = (items, how) \<longrightarrow>
        how = ExitCode 0 \<or> how = ExitCode 2 \<or> (\<exists>p. how = Uncaught (PanicException p)) \<or>
        (\<exists>e. how = Uncaught e \<and> console_raises con e))"
  unfolding cli_run_def cli_elf_def
  using mc.run_command_ends [OF assms, of con E oc parse t json quiet ts]
    mc.elf_command_ends [OF assms, of con oc parse json]
  by blast

text \<open>The console raises in the handler as elsewhere: when it does not take the error line, the error of the
  engine is not reported and the command ends in the console's exception.\<close>

lemma error_line_uncaught:
  "con (error_line msg) = Inl e \<Longrightarrow> parse_elf oc parse img = Err msg \<Longrightarrow>
     cli_elf con oc parse (Inr img) json = ([], Uncaught e)"
  by (simp add: cli_elf_def cli_elf_with_def e_bind_def py_result_def report_error_emit)

section \<open>Witnesses\<close>

theorem module_results_typed_witness:
  "\<exists>d ts'. run_elf (ram_engine []) True (sample_parse (sample_headers 0x402000)) sample_bytes 0 empty_store =
     Some (Ok d, ts') \<and> run_shape d"
proof -
  obtain d ts' where run: "run_elf (ram_engine []) True (sample_parse (sample_headers 0x402000)) sample_bytes 0
      empty_store = Some (Ok d, ts')" by (rule two_image_run)
  with module_results_typed show ?thesis by blast
qed

theorem cli_ends_well_witness:
  "\<exists>items how. cli_run line_console (ram_engine []) True (sample_parse []) (Inr []) (Finite 0) False False empty_store =
     Some ((items, how), empty_store) \<and> proper_end line_console how"
proof -
  have r: "readable (Inr [])" by (simp add: readable_def)
  have load: "load_elf True (sample_parse []) [] = Err NotElf" by (simp add: load_elf_def has_magic_def)
  have run: "cli_run line_console (ram_engine []) True (sample_parse []) (Inr []) (Finite 0) False False empty_store =
     Some (([error_line ''E001: not an ELF file (bad magic)''], ExitCode 2), empty_store)"
    by (simp add: cli_run_call run_elf_def load py_result_def aborts_def report_error_emit line_console_def error_line_def)
  show ?thesis
    using cli_ends_well [OF r, of line_console "ram_engine []" True "sample_parse []" "Finite 0" False False empty_store] run
    by blast
qed

end
