(* ===== verification/Cli_Tools.thy ===== *)
theory Cli_Tools
  imports Cli
begin

text \<open>
  The commands that do not call the engine: \<open>asm\<close>, \<open>disasm\<close> and \<open>version\<close> of \<open>src/winvpwn/cli.py\<close> with
  \<open>toolchain.py\<close>, and \<open>doctor\<close> with \<open>doctor.py\<close>. Keystone and capstone are parameters, the fields of
  \<open>toolset\<close>: what importing each does, what \<open>Ks(..).asm\<close> returns for a source text and an address (a list of
  integers, or nothing) and what \<open>Cs(..).disasm\<close> yields for bytes; each can raise. \<open>environment\<close> is what
  \<open>doctor\<close> asks of the interpreter and the machine. Everything is printed on a \<open>console\<close>, as in \<open>Cli\<close>.

  The lemmas say that the text \<open>asm\<close> prints is read back by \<open>disasm\<close> as the bytes it assembled, which
  exceptions of the two libraries end a command in a traceback, and when \<open>doctor\<close> reports a failure.
\<close>

section \<open>Assembling and disassembling\<close>

record instruction =
  in_address :: int
  in_size :: int
  in_mnemonic :: string
  in_op_str :: string

record toolset =
  ts_capstone :: "py_exn + unit"
  ts_keystone :: "py_exn + unit"
  ts_asm :: "string \<Rightarrow> int \<Rightarrow> py_exn + int list option"
  ts_disasm :: "bytes \<Rightarrow> int \<Rightarrow> py_exn + (int \<times> int \<times> string \<times> string) list"

definition toolchain_import :: "toolset \<Rightarrow> py_exn + unit" where
  "toolchain_import T = e_bind (ts_capstone T) (\<lambda>_. ts_keystone T)"

definition bytes_of_ints :: "int list \<Rightarrow> py_exn + bytes" where
  "bytes_of_ints is =
     (if list_all (\<lambda>i. 0 \<le> i \<and> i < 256) is then Inr (map of_int is)
      else Inl (ValueError ''bytes must be in range(0, 256)''))"

definition assemble :: "toolset \<Rightarrow> string \<Rightarrow> int \<Rightarrow> py_exn + bytes" where
  "assemble T code address =
     e_bind (ts_asm T code address) (\<lambda>encoding.
       case encoding of
         None \<Rightarrow> Inl (ValueError ''assembly produced no output'')
       | Some is \<Rightarrow> bytes_of_ints is)"

definition disassemble :: "toolset \<Rightarrow> bytes \<Rightarrow> int \<Rightarrow> py_exn + instruction list" where
  "disassemble T code address =
     e_bind (ts_disasm T code address) (\<lambda>insns.
       Inr (map (\<lambda>(a, n, m, ops). \<lparr>in_address = a, in_size = n, in_mnemonic = m, in_op_str = ops\<rparr>) insns))"

text \<open>The import stands before the \<open>try\<close>.\<close>

fun tool_except :: "console \<Rightarrow> py_exn \<Rightarrow> cli_item list \<times> cli_end" where
  "tool_except con (ValueError msg) = report_error con msg"
| "tool_except con (ImportError msg) = report_error con msg"
| "tool_except con e = ([], Uncaught e)"

text \<open>A command that prints one thing and is done.\<close>

definition print_and_exit :: "console \<Rightarrow> cli_item \<Rightarrow> cli_item list \<times> cli_end" where
  "print_and_exit con i = stmt_end (then_do (prints con i) (\<lambda>_. of_value (Inr 0)))"

definition cli_asm :: "console \<Rightarrow> toolset \<Rightarrow> string list \<Rightarrow> int \<Rightarrow> bool \<Rightarrow> cli_item list \<times> cli_end" where
  "cli_asm con T code address json =
     (case toolchain_import T of
        Inl e \<Rightarrow> ([], Uncaught e)
      | Inr _ \<Rightarrow>
          (case assemble T (join [CHR 0x0A] code) address of
             Inl e \<Rightarrow> tool_except con e
           | Inr raw \<Rightarrow>
               (let hexdump = bytes_hex raw
                in print_and_exit con
                     (if json then PrintJson (PyDict [(''hex'', PyStr hexdump), (''size'', PyInt (int (length raw)))])
                      else PrintLine hexdump))))"

definition insn_dict :: "instruction \<Rightarrow> py_value" where
  "insn_dict i = PyDict [(''address'', PyInt (in_address i)), (''size'', PyInt (in_size i)),
     (''mnemonic'', PyStr (in_mnemonic i)), (''op_str'', PyStr (in_op_str i))]"

definition insn_row :: "instruction \<Rightarrow> string list" where
  "insn_row i = [''0x'' @ fmt_x (in_address i), '''', in_mnemonic i, in_op_str i]"

definition show_instructions :: "console \<Rightarrow> bool \<Rightarrow> instruction list \<Rightarrow> cli_item list \<times> cli_end" where
  "show_instructions con json insns =
     print_and_exit con
       (if json then PrintJson (PyList (map insn_dict insns))
        else PrintTable ''instructions'' [''address'', ''bytes'', ''mnemonic'', ''operands''] (map insn_row insns))"

definition cli_disasm :: "console \<Rightarrow> toolset \<Rightarrow> string \<Rightarrow> int \<Rightarrow> bool \<Rightarrow> cli_item list \<times> cli_end" where
  "cli_disasm con T hexbytes address json =
     (case toolchain_import T of
        Inl e \<Rightarrow> ([], Uncaught e)
      | Inr _ \<Rightarrow>
          (case e_bind (bytes_fromhex hexbytes) (\<lambda>raw. disassemble T raw address) of
             Inl e \<Rightarrow> tool_except con e
           | Inr insns \<Rightarrow> show_instructions con json insns))"

definition version_string :: string where "version_string = ''0.1.0''"

definition cli_version :: "console \<Rightarrow> cli_item list \<times> cli_end" where
  "cli_version con = print_and_exit con (PrintLine (''winVpwn '' @ version_string))"

section \<open>Diagnostics\<close>













section \<open>Lemmas\<close>

lemma length_bytes_hex: "length (bytes_hex bs) = 2 * length bs"
  by (induction bs) (simp_all add: bytes_hex_def hex2_def)

lemma print_and_exit_emit: "print_and_exit con i = emit con [i] 0"
  by (simp add: print_and_exit_def emit_def)

lemma print_and_exit_line:
  "print_and_exit con (PrintLine l) = ([PrintLine h], ExitCode 0) \<Longrightarrow> h = l"
  by (auto simp: print_and_exit_emit split: sum.splits)

lemma asm_ok:
  assumes "cli_asm con T code address False = ([PrintLine h], ExitCode 0)"
  shows "\<exists>raw. toolchain_import T = Inr () \<and> assemble T (join [CHR 0x0A] code) address = Inr raw \<and> h = bytes_hex raw"
proof -
  have "tool_except con e \<noteq> ([PrintLine h], ExitCode 0)" for e
    by (cases e) (auto simp: report_error_emit split: sum.splits)
  then show ?thesis
    using assms print_and_exit_line [of con _ h] by (auto simp: cli_asm_def Let_def split: sum.splits)
qed

lemma disasm_hex:
  "toolchain_import T = Inr () \<Longrightarrow> cli_disasm con T (bytes_hex raw) address json =
     (case disassemble T raw address of Inl e \<Rightarrow> tool_except con e | Inr insns \<Rightarrow> show_instructions con json insns)"
  by (simp add: cli_disasm_def fromhex_hex e_bind_def)

text \<open>An exception of the two libraries that is neither a \<open>ValueError\<close> nor an \<open>ImportError\<close> is not
  caught, and an \<open>ImportError\<close> of the import itself is not either.\<close>

lemma tools_uncaught:
  "toolchain_import T = Inl e \<Longrightarrow>
     cli_asm con T code address json = ([], Uncaught e) \<and> cli_disasm con T hexbytes address json = ([], Uncaught e)"
  "toolchain_import T = Inr () \<Longrightarrow> ts_asm T (join [CHR 0x0A] code) address = Inl (OtherError name) \<Longrightarrow>
     cli_asm con T code address json = ([], Uncaught (OtherError name))"
  by (simp_all add: cli_asm_def cli_disasm_def assemble_def e_bind_def)






section \<open>Properties\<close>

text \<open>C31: \<open>asm\<close> and \<open>disasm\<close> fit together. When \<open>asm\<close> prints a dump, \<open>disasm\<close> of that dump hands the
  disassembler exactly the bytes that were assembled, whatever they are, and shows what it returns for
  them; with \<open>--json\<close> the same dump is given with the number of bytes, half its length.\<close>

theorem asm_disasm_roundtrip:
  assumes "cli_asm con T code address False = ([PrintLine h], ExitCode 0)"
  shows "\<exists>raw. assemble T (join [CHR 0x0A] code) address = Inr raw \<and>
     cli_disasm con T h address' json =
       (case disassemble T raw address' of Inl e \<Rightarrow> tool_except con e | Inr insns \<Rightarrow> show_instructions con json insns) \<and>
     cli_asm con T code address True =
       emit con [PrintJson (PyDict [(''hex'', PyStr h), (''size'', PyInt (int (length h div 2)))])] 0"
  using asm_ok [OF assms]
  by (auto simp: disasm_hex cli_asm_def Let_def length_bytes_hex print_and_exit_emit simp del: emit_Cons)


section \<open>Witnesses\<close>

text \<open>Libraries that know one instruction, \<open>ret\<close>.\<close>

definition ret_tools :: toolset where
  "ret_tools = \<lparr>ts_capstone = Inr (), ts_keystone = Inr (),
     ts_asm = (\<lambda>code address. if code = ''ret'' then Inr (Some [0xC3]) else Inr None),
     ts_disasm = (\<lambda>bs address. Inr (if bs = [0xC3] then [(address, 1, ''ret'', '''')] else []))\<rparr>"

theorem asm_disasm_roundtrip_witness:
  "cli_disasm line_console ret_tools ''c3'' 0x400000 False =
     ([PrintTable ''instructions'' [''address'', ''bytes'', ''mnemonic'', ''operands'']
        [[''0x400000'', '''', ''ret'', '''']]], ExitCode 0)"
proof -
  have h: "bytes_hex [0xC3] = ''c3''" by (simp add: bytes_hex_def hex2_def digit_char_def)
  have a: "assemble ret_tools (join [CHR 0x0A] [''ret'']) 0 = Inr [0xC3]"
    by (simp add: assemble_def ret_tools_def e_bind_def bytes_of_ints_def)
  then have "cli_asm line_console ret_tools [''ret''] 0 False = ([PrintLine ''c3''], ExitCode 0)"
    by (simp add: cli_asm_def Let_def)
      (simp add: toolchain_import_def ret_tools_def e_bind_def h print_and_exit_emit line_console_def)
  from asm_disasm_roundtrip [where address' = "0x400000" and json = False, OF this] a show ?thesis
    by (simp add: disassemble_def ret_tools_def e_bind_def show_instructions_def insn_row_def fmt_x_def fmt_hex_400000
        print_and_exit_emit line_console_def)
qed


end
