(* ===== verification/Spec2Isabelle.thy ===== *)
theory Spec2Isabelle
  imports Backends Builds_Agree Python_Tests Cli_Contract Cli_Tools
begin

text \<open>
  A model of winVpwn's core engine (the Rust crate \<open>crates/winvpwn-core\<close>), which loads a static
  x86-64 ELF image, runs it on an emulated CPU, answers its \<open>write\<close>, \<open>exit\<close> and \<open>exit_group\<close>
  system calls without touching the host, and returns output and trace to Python.

  \<^bold>\<open>Parts and theories.\<close> File names are relative to \<open>src/crates/winvpwn-core/src\<close>.
  \<^item> \<open>Prelude\<close>, \<open>Fmt\<close>, \<open>BTree_Map\<close>: machine integers, outcomes with panics, checked and wrapping
    arithmetic, slices and vectors; the number formats of Rust's \<open>format!\<close>; ordered maps.
  \<^item> \<open>Memory_Map\<close> (\<open>memory/mmap.rs\<close>): claimed regions. Locale \<open>address_space\<close>, instance \<open>mm\<close>.
  \<^item> \<open>Elf_Loader\<close> (\<open>elf/loader.rs\<close>): from bytes to segments, over goblin's parser as a parameter.
  \<^item> \<open>Vk_Process\<close>, \<open>Vk_Io\<close>, \<open>Vk_Mem\<close> (\<open>vkernel/\<close>): process states and errors, the output capture
    (locale \<open>output_sink\<close>, instance \<open>capture\<close>), the in-memory guest (locales \<open>guest_reader\<close> and
    \<open>guest_memory\<close>, instance \<open>im\<close>).
  \<^item> \<open>Unicorn\<close>: the emulator as a parameter with named laws, and the live backend \<open>UnicornGuest\<close>
    (instance \<open>ug\<close>); \<open>Scripted_Engine\<close>: a concrete engine that satisfies the laws, for witnesses;
    \<open>Backends\<close>: the two memory backends give the same system calls.
  \<^item> \<open>Syscall_Types\<close>, \<open>Trace_Recorder\<close>, \<open>Dispatch\<close>, \<open>Syscall_Handlers\<close> (\<open>syscall/\<close>, \<open>trace/\<close>,
    \<open>vkernel/mod.rs\<close>): registers, errno, contexts; trace sinks over a store of shared buffers; the
    handler table; the three handlers, with the locale \<open>syscall_contract\<close> (instances \<open>wr\<close>, \<open>ex\<close>,
    \<open>exg\<close>).
  \<^item> \<open>Cpu_Context\<close> (\<open>cpu/context.rs\<close>); \<open>Vcpu\<close> (\<open>cpu/unicorn_engine.rs\<close>), with what mapping does to
    the guest's memory in \<open>Vcpu_Memory\<close>, what a run does in \<open>Vcpu_Run\<close>, a run against an abstract
    specification in \<open>Vcpu_Spec\<close>, and the public methods in any order and with any arguments, as a step
    relation, in \<open>Vcpu_Api\<close>.
  \<^item> \<open>Builds_Agree\<close>: builds with and without overflow checks do the same.
  \<^item> \<open>Vcpu_Diverge\<close>: runs that never return, coinductively, and as infinite sequences of system calls or
    finite ones to a guest that executes for ever without one.
  \<^item> \<open>Python_Api\<close> (\<open>python.rs\<close>): \<open>parse_elf\<close>, \<open>run_elf\<close>, the module and sessions of calls, with lemmas in
    \<open>Run_Elf\<close>. \<open>Guest_Run\<close>: \<open>run_elf\<close> specified on the bare engine, without table, sink or shared state.
    \<open>Core_Module\<close>: the module as its callers see it. Further properties that span components are in
    this theory.
  \<^item> \<open>Py_Format\<close>, \<open>Cli\<close>, \<open>Cli_Contract\<close>, \<open>Cli_Tools\<close> (the Python package \<open>src/src/winvpwn\<close>): Python's text
    formats; the commands \<open>run\<close> and \<open>elf\<close> of \<open>cli.py\<close>, down to the bytes, lines, tables and JSON values
    they print, over a console that gives the bytes of each or raises; the types that \<open>_core.pyi\<close> promises, as the locale \<open>core_contract\<close> (instance \<open>mc\<close>);
    \<open>asm\<close>, \<open>disasm\<close> (\<open>toolchain.py\<close>), \<open>doctor\<close> (\<open>doctor.py\<close>) and \<open>version\<close>.
  \<^item> \<open>Hello_Fixture\<close> (\<open>tests/fixtures/hello_static\<close>): the image the tests run, byte by byte, and
    \<open>Hello_Run\<close>: that image through the whole program. \<open>Unit_Tests\<close>: the \<open>#[test]\<close> functions of all
    modules, and \<open>Python_Tests\<close> the tests of the Python module, translated and proved to pass, as a check
    of the definitions on fixed inputs (\<open>test_run_infinite_loop_times_out\<close> apart: its image is shown not
    to contain the loop).

  \<^bold>\<open>How the parts interact.\<close> \<open>run_elf\<close> loads the image (\<open>load_elf\<close>, which claims segment ranges in a
  memory map), makes a sink and a table of handlers, creates a virtual CPU whose hook closes over
  the table (\<open>vcpu_new\<close>), maps segments by whole pages (\<open>map_elf\<close>, which claims page ranges in the
  CPU's own memory map), maps a stack, sets \<open>RSP\<close> and \<open>RIP\<close>, and runs. Each trapped \<open>syscall\<close> calls
  \<open>syscall_hook\<close>: a fresh context over the live memory, a dispatch, and the outcome written back to
  \<open>RAX\<close> or turned into a stop request. State that the code shares by \<open>Rc\<close> and \<open>Arc\<close> is threaded
  explicitly: \<open>shared_state\<close> for the hook, \<open>trace_store\<close> for sinks.

  \<^bold>\<open>What the lemmas show.\<close> Memory map: insertion is set insertion, with the invariant that regions are
  sorted and disjoint. Loader: an exact description of the images it accepts, of every error and
  of its panics. In-memory guest: the chunked loops equal byte-wise reference definitions. Trace and
  table: numbering and routing. Handlers: the contract, and its consequence for a whole table.
  Virtual CPU: mapping as a refinement of the address space, the bytes the guest sees, the hook
  on every branch, runs as finitely many steps, output, trace and exit reason as folds over the
  trapped calls, the transparency of tracing, the life of the exit reason, and an invariant of the
  public methods that says which addresses can be read; the page permissions a segment's flags give.
  Python: the set-up from bytes to a running
  guest, every result of \<open>run_elf\<close> as a path of the guest on the engine, when it does not return, that
  calls do not influence each other, which error codes and panics reach the caller, that its
  dictionaries have the promised types, and the repository's hello-world image end to end. Command line:
  the exit code, standard output and report of a run, that no command fails on the shape of a
  result, what the console's own exceptions do, that a dump of \<open>asm\<close> is read back by \<open>disasm\<close>, and the verdict of \<open>doctor\<close>.

  \<^bold>\<open>Builds, bounds, termination.\<close> The flag \<open>oc\<close> says whether overflow checks are compiled in; no
  profile setting in the repository changes Cargo's defaults. The only recursion that may not end
  is a guest's: \<open>emu_loop\<close> is a partial function to \<open>option\<close>, characterised by steps. It is undefined exactly
  for a guest that makes system calls for ever, each of them answered, or executes for ever without
  another one (the event \<open>EvSpin\<close> of the engine), and no fuel is used anywhere. The loops of the
  in-memory guest end because a chunk is never empty.

  \<^bold>\<open>Panics.\<close> A panic is a value (\<open>Panic\<close>) of the function that raises it. One that is raised in the
  system-call hook, which the emulator calls from C, cannot unwind: it is turned into \<open>Aborted\<close>, the end
  of the process, by \<open>run_outcome\<close>, a series of calls of the module (\<open>session\<close>) stops there, and the command
  line ends in \<open>ProcessAborted\<close>. Any other panic reaches Python as an exception.

  \<^bold>\<open>Laws of the engine\<close> (\<open>regs_law\<close>, \<open>stop_law\<close>, \<open>exec_law\<close>, \<open>mem_law\<close>, \<open>map_law\<close>, \<open>prot_law\<close>) are
  hypotheses of the theorems that need them and of no definition; each states documented behaviour of
  Unicorn, and \<open>Scripted_Engine\<close> satisfies all of them. \<open>mem_law\<close> leaves out a host that runs out of
  memory. What running the fixture relies on besides is named too, and conditional on all that it
  depends on: an engine that has been set up and not run (\<open>set_up\<close>), the code bytes on executable
  pages, and a time limit that does not stop it (\<open>runs_hello\<close>; the main result has no limit); a \<open>ret\<close> on
  an executable page to an unmapped address (\<open>faults_on_ret\<close>, only for a unit test); the parser reads
  the fixture (\<open>reads_hello\<close>).

  \<^bold>\<open>Not modelled.\<close> The parser and the emulator (third-party crates), keystone and capstone, and \<open>rich\<close> with
  the terminal below it, which are parameters; how PyO3 converts arguments, except for the range of
  \<open>timeout_ms\<close>; locking (there is one thread); the styles and the progress bar of \<open>src/src/winvpwn/ui\<close>; the
  placeholder \<open>src/src/winvpwn/patch\<close>; and the tests of the command line, whose assertions are on text that
  \<open>rich\<close> renders. What the map leaves out of the Rust files is comments, imports, module declarations
  and derived traits.
\<close>

section \<open>From bytes to a running guest\<close>

text \<open>The dictionary of a loadable header, as \<open>parse_elf\<close> shows it.\<close>

definition header_dict :: "program_header \<Rightarrow> py_value" where
  "header_dict p =
     PyDict [(''vaddr'', py_u64 (p_vaddr p)), (''memsz'', py_u64 (p_memsz p)), (''filesz'', py_u64 (p_filesz p)),
             (''flags'', PyInt (int (unat (p_flags p)))), (''align'', py_u64 (p_align p))]"

lemma segment_dict_phdr: "segment_dict (phdr_segment img p) = header_dict p"
  by (simp add: segment_dict_def phdr_segment_def header_dict_def)

text \<open>\<open>parse_elf\<close> succeeds exactly on the images the loader accepts, and reports the entry point, that
  the image is not position-independent, and every loadable header with its address, sizes, flags
  and alignment, in header order, under these keys in this order.\<close>

theorem parse_elf_reports:
  "parse_elf oc parse img = Ok d \<longleftrightarrow>
     (\<exists>elf. elf_accepts parse img elf \<and>
        d = [(''entry'', py_u64 (e_entry elf)), (''is_pie'', PyBool False),
             (''segments'', PyList (map header_dict (pt_loads elf)))])"
proof -
  have "segment_dict \<circ> phdr_segment img = header_dict" by (simp add: fun_eq_iff segment_dict_phdr)
  then show ?thesis by (auto simp: parse_elf_def load_elf_Ok_char elf_image_def)
qed

text \<open>C9: what \<open>run_elf\<close> sets up before the guest runs. For a loaded image whose pages are disjoint and
  clear of the stack, on a fresh engine, every stage succeeds; the guest starts at the entry point
  with \<open>RSP\<close> in the stack, its memory is the image and a zero stack and nothing else, and no output
  or exit reason is stored.\<close>

theorem prepare_ready:
  assumes "mem_law E byte_at" and "regs_law E byte_at" and "load_elf oc' parse img = Ok le"
    and "e_new E = Inr uc0" and "e_hook_syscall E uc0 = (Inr (), uc1)" and "byte_at uc1 = (\<lambda>_. None)"
    and "\<forall>seg \<in> set (le_segments le). seg_placed seg"
    and "ranges_disjoint (map seg_claim (le_segments le))"
    and "\<forall>seg \<in> set (le_segments le). claim_range seg \<inter> addr_range STACK_BASE STACK_SIZE = {}"
  shows "\<exists>v uc. prepare_vcpu E oc le d = Ok v \<and> v_uc v = Some uc \<and>
     vcpu_reg E v RIP = Ok (le_entry le) \<and> vcpu_reg E v RSP = Ok 0x7fffffffdfe0 \<and>
     (\<forall>x. byte_at uc x =
        (if x \<in> addr_range STACK_BASE STACK_SIZE then Some 0 else image_byte (\<lambda>_. None) (le_segments le) x)) \<and>
     vcpu_output v = [] \<and> vcpu_exit_reason v = None"
  using assms by (rule prepare_outcome)

text \<open>C10: the permissions a guest starts with. In a virtual CPU that has been prepared for a loaded image whose
  pages are disjoint and clear of the stack, the pages of each segment are readable, writable and
  executable as bits 2, 1 and 0 of its flags say, and the stack is readable and writable and not
  executable.\<close>

theorem prepare_permissions:
  assumes "prot_law E prot_at" and "load_elf oc' parse img = Ok le"
    and "\<forall>seg \<in> set (le_segments le). seg_placed seg"
    and "ranges_disjoint (map seg_claim (le_segments le))"
    and "\<forall>seg \<in> set (le_segments le). claim_range seg \<inter> addr_range STACK_BASE STACK_SIZE = {}"
    and "prepare_vcpu E oc le d = Ok v"
  shows "\<exists>uc. v_uc v = Some uc \<and>
     (\<forall>seg \<in> set (le_segments le). \<forall>x \<in> claim_range seg.
        (can_read (prot_at uc x) \<longleftrightarrow> bit (s_flags seg) 2) \<and> (can_write (prot_at uc x) \<longleftrightarrow> bit (s_flags seg) 1) \<and>
        (can_exec (prot_at uc x) \<longleftrightarrow> bit (s_flags seg) 0)) \<and>
     (\<forall>x \<in> addr_range STACK_BASE STACK_SIZE.
        can_read (prot_at uc x) \<and> can_write (prot_at uc x) \<and> \<not> can_exec (prot_at uc x))"
proof -
  have "\<forall>seg \<in> set (le_segments le). seg_room seg"
    using load_elf_segments_ok [OF assms(2)] seg_placed_mappable assms(3) unfolding seg_mappable_def by blast
  then obtain uc where uc: "v_uc v = Some uc"
      "\<forall>seg \<in> set (le_segments le). \<forall>x \<in> claim_range seg. prot_at uc x = seg_prot (s_flags seg)"
      "\<forall>x \<in> addr_range STACK_BASE STACK_SIZE. prot_at uc x = sup PROT_READ PROT_WRITE"
    using prepare_engine [OF assms(6), of prot_at] assms(1,4,5) by blast
  show ?thesis
    by (intro exI [of _ uc]) (use uc in \<open>simp add: seg_prot_bits prot_defs\<close>)
qed

text \<open>C11: \<open>run_elf\<close> when it cannot get as far as running the guest. An image the loader rejects gives the
  loader's message, and leaves no sink behind; an accepted image whose segments share a page, or
  reach into the stack, gives an E502 error (for the stack, with its base); no guest instruction is
  executed and nothing is traced in either case.\<close>

theorem run_elf_setup_errors:
  assumes "mem_law E byte_at" and "e_new E = Inr uc0" and "e_hook_syscall E uc0 = (Inr (), uc1)"
    and "byte_at uc1 = (\<lambda>_. None)"
    and "case load_elf oc parse img of
           Ok le \<Rightarrow> (\<forall>seg \<in> set (le_segments le). seg_placed seg) \<and>
             \<not> (ranges_disjoint (map seg_claim (le_segments le)) \<and>
                (\<forall>seg \<in> set (le_segments le). claim_range seg \<inter> addr_range STACK_BASE STACK_SIZE = {}))
         | _ \<Rightarrow> True"
  shows "case load_elf oc parse img of
      Err e \<Rightarrow> run_elf E oc parse img t ts = Some (Err (show_elf_error e), ts)
    | Panic q \<Rightarrow> run_elf E oc parse img t ts = Some (Panic q, ts)
    | Ok le \<Rightarrow> \<exists>b. run_elf E oc parse img t ts =
        Some (Err (''E502: cannot map guest region at 0x'' @ fmt_hex (unat b) @ '': guest address space overlap''),
              snd (sink_new ts)) \<and>
        (ranges_disjoint (map seg_claim (le_segments le)) \<longrightarrow> b = STACK_BASE)"
proof (cases "load_elf oc parse img")
  case (Ok le)
  define s ts1 where sn: "s = fst (sink_new ts)" "ts1 = snd (sink_new ts)"
  obtain b where "prepare_vcpu E oc le (std_table oc s) = Err (show_vcpu_error (Map b ''guest address space overlap''))"
    and "ranges_disjoint (map seg_claim (le_segments le)) \<longrightarrow> b = STACK_BASE"
    using prepare_overlap [OF assms(1) Ok assms(2-4), of oc "std_table oc s"] assms(5) unfolding Ok result.case by blast
  then show ?thesis
    using Ok by (auto simp: run_elf_def sink_clone_def sn split: prod.split)
qed (simp_all add: run_elf_def)

text \<open>C8: a guest that gets to an exit, from a prepared image: \<open>run_elf\<close> returns, and its dictionary says
  \<open>exit\<close> with the low byte of the status, the bytes captured up to then and one trace entry per
  traced call, the exit included; the sink it made is drained.\<close>

theorem run_elf_exit:
  assumes "stop_law E" and "load_elf oc parse img = Ok le" and "sink_new ts = (s, ts1)"
    and "prepare_vcpu E oc le (std_table oc s) = Ok v" and "v_uc v = Some uc"
    and "emu_steps E oc (std_table oc s) (run_start E v uc t ts1) (uc1, sh1, ts2)"
    and "e_advance E uc1 = (EvSyscall, uc2)"
    and "u64_as_i64 (reg_or_0 E uc2 RAX) = 60 \<or> u64_as_i64 (reg_or_0 E uc2 RAX) = 231"
  shows "\<exists>d ts'. run_elf E oc parse img t ts = Some (Ok d, ts') \<and>
     map_of d ''exit'' = Some (PyStr ''exit'') \<and>
     map_of d ''code'' = Some (PyInt (int (unat (reg_or_0 E uc2 RDI) mod 256))) \<and>
     map_of d ''output'' = Some (PyBytes (sh_output sh1)) \<and>
     (\<exists>recs. map_of d ''trace'' = Some (PyList recs) \<and> length recs = Suc (length (ts_buf ts2 s))) \<and>
     sink_is_empty ts' s"
proof -
  have hook: "v_hook v = Some (std_table oc s)" using prepare_frame [OF assms(4)] by simp
  obtain v' ts3 where run: "vcpu_run E oc v ts1 t = Some (Ok (Exit (ucast (reg_or_0 E uc2 RDI))), v', ts3)"
    and out: "vcpu_output v' = sh_output sh1" and len: "length (ts_buf ts3 s) = Suc (length (ts_buf ts2 s))"
    using run_exit_outcome [OF assms(1,5) hook assms(6-8)] by blast
  have code: "unat (ucast (reg_or_0 E uc2 RDI) :: u8) = unat (reg_or_0 E uc2 RDI) mod 256"
    by (simp add: unsigned_ucast_eq take_bit_eq_mod)
  show ?thesis
    by (simp add: run_elf_prepared [OF assms(2-4)] run out len code sink_drain_def sink_is_empty_def sink_len_def)
qed

text \<open>C7: the output and the trace of whatever dictionary \<open>run_elf\<close> returns agree: there is one byte of
  output for each unit of a non-negative traced result, and the trace entries are numbered from 0
  in order.\<close>

theorem run_elf_accounted:
  assumes "trace_inv ts" and "run_elf E oc parse img t ts = Some (Ok d, ts')"
  shows "\<exists>out recs. map_of d ''output'' = Some (PyBytes out) \<and>
     map_of d ''trace'' = Some (PyList (map record_dict recs)) \<and>
     length out = sum_list (map (\<lambda>r. nat (tr_ret r)) recs) \<and> numbered recs"
proof -
  obtain le where le: "load_elf oc parse img = Ok le"
    using assms(2) by (cases "load_elf oc parse img") (auto simp: run_elf_def)
  obtain s ts1 where sn: "sink_new ts = (s, ts1)" by (cases "sink_new ts")
  obtain v where v: "prepare_vcpu E oc le (std_table oc s) = Ok v"
    using assms(2) by (cases "prepare_vcpu E oc le (std_table oc s)")
      (auto simp: run_elf_def le sn sink_clone_def)
  obtain reason v' ts2 where run: "vcpu_run E oc v ts1 t = Some (Ok reason, v', ts2)"
    and d: "d = run_dict reason (vcpu_output v') (ts_buf ts2 s)"
    using assms(2) unfolding run_elf_prepared [OF le sn v]
    by (auto split: option.splits prod.splits result.splits)
  obtain uc where pv: "v_hook v = Some (std_table oc s)" "v_uc v = Some uc" "v_shared v = shared_new"
    using prepare_frame [OF v] by blast
  have fresh: "ts_buf ts1 s = []" and inv1: "trace_inv ts1"
    using sn sink_new_inv [OF assms(1)] by (auto simp: sink_new_def)
  then have "accounted s (v_shared v) ts1" by (simp add: pv(3) accounted_def)
  from run_accounted [OF table_ok_standard d_trace_std pv(1,2) this run] inv1 show ?thesis
    by (intro exI [of _ "vcpu_output v'"] exI [of _ "ts_buf ts2 s"])
       (simp add: d vcpu_output_def accounted_def trace_inv_def)
qed

text \<open>C3: the hello-world image of the repository, end to end. Given its bytes and no time limit,
  \<open>run_elf\<close> loads it, maps it, runs it and returns: the guest exits with code 0, the output is its
  greeting, and the trace has the two calls in order with their results. This holds for any emulator
  that obeys the laws, page permissions among them, and executes the 42 bytes of the image's code
  when it has been set up with these bytes on executable pages, and any parser that reads the
  image's headers.\<close>

theorem hello_world_runs:
  assumes "mem_law E byte_at" and "regs_law E byte_at" and "stop_law E" and "prot_law E prot_at"
    and "fresh_engine E byte_at" and "runs_hello E byte_at prot_at 0" and "parse hello_static = Inr hello_elf"
  shows "\<exists>d ts' recs. run_elf E oc parse hello_static 0 ts = Some (Ok d, ts') \<and>
     map_of d ''exit'' = Some (PyStr ''exit'') \<and> map_of d ''code'' = Some (PyInt 0) \<and>
     map_of d ''output'' = Some (PyBytes (ascii (''hello, winVpwn'' @ [CHR 0x0A]))) \<and>
     map_of d ''trace'' = Some (PyList (map record_dict recs)) \<and>
     map tr_name recs = [''write'', ''exit''] \<and> map tr_ret recs = [15, 0]"
proof -
  obtain ts' recs where "run_elf E oc parse hello_static 0 ts = Some (Ok (run_dict (Exit 0) hello_text recs), ts')"
    and "map tr_name recs = [''write'', ''exit'']" "map tr_ret recs = [15, 0]"
    using hello_run_elf [where parse = parse and oc = oc and t = 0 and ts = ts, OF assms] by (elim exE conjE)
  then show ?thesis
    by (intro exI [of _ "run_dict (Exit 0) hello_text recs"] exI [of _ ts'] exI [of _ recs]) (simp add: hello_greeting)
qed

section \<open>Witnesses\<close>

theorem prepare_ready_witness:
  "\<exists>v. prepare_vcpu (ram_engine []) True two_image (std_table True 0) = Ok v \<and>
       vcpu_reg (ram_engine []) v RIP = Ok 0x401000"
  using prepare_ready [OF ram_mem_law [of "[]"] ram_regs_law two_image_loads ram_fresh two_image_placed
      two_image_disjoint, of True "std_table True 0"]
  unfolding two_image_entry by blast

theorem prepare_permissions_witness:
  "\<exists>v uc. prepare_vcpu (ram_engine []) True two_image (std_table True 0) = Ok v \<and> v_uc v = Some uc \<and>
     can_exec (ram_prot uc 0x401fff) \<and> \<not> can_write (ram_prot uc 0x401fff) \<and> \<not> can_exec (ram_prot uc 0x7fffffffdfe0)"
proof -
  obtain v where v: "prepare_vcpu (ram_engine []) True two_image (std_table True 0) = Ok v" by (rule two_image_prepared)
  let ?seg = "sample_segment\<lparr>s_vaddr := 0x401000\<rparr>"
  have seg: "?seg \<in> set (le_segments two_image)" "0x401fff \<in> claim_range ?seg"
    by (simp_all add: sample_segments sample_claim addr_range_mem)
  have bits: "bit (s_flags ?seg) 0" "\<not> bit (s_flags ?seg) 1" by (simp_all add: sample_segment_def)
  have stack: "0x7fffffffdfe0 \<in> addr_range STACK_BASE STACK_SIZE"
    by (simp add: addr_range_mem STACK_BASE_def STACK_SIZE_def)
  show ?thesis
    using prepare_permissions [OF ram_prot_law two_image_loads two_image_placed two_image_disjoint v] v seg bits stack
    by metis
qed

text \<open>An image with two segments on one page.\<close>

theorem run_elf_setup_errors_witness:
  "\<exists>b ts'. run_elf (ram_engine []) True (sample_parse (sample_headers 0x401010)) sample_bytes 0 empty_store =
     Some (Err (''E502: cannot map guest region at 0x'' @ fmt_hex (unat (b :: u64)) @ '': guest address space overlap''), ts')"
proof -
  let ?le = "elf_image sample_bytes (sample_elf (sample_headers 0x401010))"
  have le: "load_elf True (sample_parse (sample_headers 0x401010)) sample_bytes = Ok ?le"
    by (rule load_sample_image [OF sample_accepts]) simp_all
  have "seg_claim (sample_segment\<lparr>s_vaddr := 0x401010\<rparr>) = (0x401000, 0x1000, 5)"
    by (simp add: seg_claim_def page_floor_def sample_segment_def PAGE_SIZE_def)
  then have "\<not> ranges_disjoint (map seg_claim (le_segments ?le))"
    by (simp add: sample_segments sample_claim ranges_disjoint_def)
  moreover have "\<forall>seg \<in> set (le_segments ?le). seg_placed seg"
    by (simp add: sample_segments seg_placed_def sample_segment_def)
  ultimately have "(\<forall>seg \<in> set (le_segments ?le). seg_placed seg) \<and>
      \<not> (ranges_disjoint (map seg_claim (le_segments ?le)) \<and>
         (\<forall>seg \<in> set (le_segments ?le). claim_range seg \<inter> addr_range STACK_BASE STACK_SIZE = {}))" by blast
  from run_elf_setup_errors [OF ram_mem_law [of "[]"] ram_fresh, of True "sample_parse (sample_headers 0x401010)"
        sample_bytes 0 empty_store, unfolded le result.case, OF this]
  show ?thesis by blast
qed

theorem run_elf_exit_witness:
  "\<exists>d ts'. run_elf (ram_engine [([(RAX, 60), (RDI, 0x105)], EvSyscall)]) True
       (sample_parse (sample_headers 0x402000)) sample_bytes 0 empty_store = Some (Ok d, ts') \<and>
     map_of d ''code'' = Some (PyInt 5)"
proof -
  let ?sc = "[([(RAX, 60), (RDI, 0x105)], EvSyscall)] :: ((reg \<times> u64) list \<times> uc_event) list"
  have sn: "sink_new empty_store = (0, empty_store\<lparr>ts_next := 1, ts_buf := (\<lambda>_. [])\<rparr>)" (is "_ = (_, ?ts1)")
    by (simp add: sink_new_def empty_store_def fun_eq_iff)
  obtain v where v: "prepare_vcpu (ram_engine ?sc) True two_image (std_table True 0) = Ok v"
    by (rule two_image_prepared)
  obtain uc where uc: "v_uc v = Some uc" "ram_script uc = ?sc"
    using prepare_script [OF v] by auto
  show ?thesis
    using run_elf_exit [OF ram_stop_law two_image_loads sn v uc(1) rtranclp.rtrancl_refl, where t = 0] uc(2)
    by (fastforce simp: ram_advance_def u64_as_i64_def)
qed

theorem run_elf_accounted_witness:
  "\<exists>d ts' out recs. run_elf (ram_engine []) True (sample_parse (sample_headers 0x402000)) sample_bytes 0 empty_store =
      Some (Ok d, ts') \<and> map_of d ''output'' = Some (PyBytes out) \<and>
      map_of d ''trace'' = Some (PyList (map record_dict recs)) \<and> length out = sum_list (map (\<lambda>r. nat (tr_ret r)) recs)"
proof -
  obtain d ts' where run: "run_elf (ram_engine []) True (sample_parse (sample_headers 0x402000)) sample_bytes 0 empty_store =
      Some (Ok d, ts')" by (rule two_image_run)
  show ?thesis using run_elf_accounted [OF empty_store_inv run] run by blast
qed

theorem hello_world_runs_witness:
  "\<exists>d ts'. run_elf test_engine True test_parse hello_static 0 empty_store = Some (Ok d, ts') \<and>
     map_of d ''output'' = Some (PyBytes (ascii (''hello, winVpwn'' @ [CHR 0x0A])))"
proof -
  have "test_parse hello_static = Inr hello_elf" using test_parse_reads by (simp add: reads_hello_def)
  from hello_world_runs [where parse = test_parse, OF test_engine_laws test_engine_runs(1) this] show ?thesis by metis
qed

end
